(* ===== verification/Tractor_Prelude.thy ===== *)
theory Tractor_Prelude
  imports Main "HOL-Library.Word" "HOL-Library.Char_ord" "HOL-Library.List_Lexorder"
    "HOL-Library.Sublist"
begin

text \<open>
  Shared vocabulary of the development: the ways in which the C++ code can go wrong as values
  (\<open>fault\<close>), sequencing of fallible code, 64-bit \<open>size_t\<close> and \<open>int64_t\<close> arithmetic, the
  narrowing of \<open>int64_t\<close> to \<open>int\<close>, the decimal output of \<open>snprintf\<close>, \<open>memmem\<close>, and the
  ordered containers \<open>std::map\<close> and \<open>std::set\<close> as strictly sorted lists.
  Collections: \<open>res_simps\<close> carries the rules for fallible code, \<open>usize_simps\<close> the rules that
  remove the wrap-around of \<open>size_t\<close> under bounds.
\<close>

named_theorems res_simps "sequencing of fallible code"
named_theorems usize_simps "size_t arithmetic without wrap-around"

section \<open>Faults and fallible code\<close>

text \<open>
  The library is built in Debug mode, so a failing \<open>assert\<close> aborts (\<open>Assert_failed\<close>).
  \<open>Length_error\<close> is the exception of a \<open>std::vector\<close> grown beyond \<open>max_size()\<close>,
  \<open>Bad_alloc\<close> the one of an allocation that cannot be served, \<open>Spdlog_ex\<close> the one
  the logging library throws, \<open>Format_error\<close> the one of its formatting library, \<open>Bad_function_call\<close> the one of calling
  an empty \<open>std::function\<close>; the others
  are undefined behaviour of C++: an access outside the storage of an object, a null pointer or
  a deleted object dereferenced, a pointer deleted that \<open>new\<close> did not return, an uninitialised value used, division by zero and
  signed overflow. \<open>Diverged\<close> stands for a call that does not return.
\<close>

datatype fault =
    Assert_failed
  | Length_error
  | Bad_access
  | Null_deref
  | Use_after_free
  | Invalid_free
  | Uninitialised
  | Int_overflow
  | Bad_function_call
  | Div_by_zero
  | Bad_alloc
  | Spdlog_ex string
  | Format_error string
  | Diverged

type_synonym 'a res = "fault + 'a"

fun andthen :: "'a res \<Rightarrow> ('a \<Rightarrow> 'b res) \<Rightarrow> 'b res" where
  "andthen (Inl f) k = Inl f"
| "andthen (Inr x) k = k x"

definition check :: "fault \<Rightarrow> bool \<Rightarrow> 'a res \<Rightarrow> 'a res" where
  "check f b k = (if b then k else Inl f)"

abbreviation asserting :: "bool \<Rightarrow> 'a res \<Rightarrow> 'a res" where
  "asserting b k \<equiv> check Assert_failed b k"

lemma andthen_eq_Inr [res_simps]:
  "andthen m k = Inr y \<longleftrightarrow> (\<exists>x. m = Inr x \<and> k x = Inr y)"
  by (cases m) auto

lemma andthen_eq_Inl [res_simps]:
  "andthen m k = Inl f \<longleftrightarrow> m = Inl f \<or> (\<exists>x. m = Inr x \<and> k x = Inl f)"
  by (cases m) auto

lemma check_eq_Inr [res_simps]: "check f b k = Inr y \<longleftrightarrow> b \<and> k = Inr y"
  by (simp add: check_def)

lemma check_eq_Inl [res_simps]: "check f b k = Inl g \<longleftrightarrow> (\<not> b \<and> g = f) \<or> (b \<and> k = Inl g)"
  by (auto simp: check_def)

lemma check_True [simp]: "b \<Longrightarrow> check f b k = k"
  by (simp add: check_def)

lemma check_False [simp]: "\<not> b \<Longrightarrow> check f b k = Inl f"
  by (simp add: check_def)

lemma andthen_assoc: "andthen (andthen m k) l = andthen m (\<lambda>x. andthen (k x) l)"
  by (cases m) auto

lemma andthen_Inr_right [simp]: "andthen m Inr = m"
  by (cases m) auto

text \<open>Running a fallible operation over a list, in order, stopping at the first fault.\<close>

fun fold_res :: "('a \<Rightarrow> 's \<Rightarrow> 's res) \<Rightarrow> 'a list \<Rightarrow> 's \<Rightarrow> 's res" where
  "fold_res f [] s = Inr s"
| "fold_res f (x # xs) s = andthen (f x s) (fold_res f xs)"

lemma fold_res_append: "fold_res f (xs @ ys) s = andthen (fold_res f xs s) (fold_res f ys)"
proof (induction xs arbitrary: s)
  case (Cons x xs)
  show ?case by (cases "f x s") (simp_all add: Cons.IH)
qed simp

lemma fold_res_map: "fold_res f (map g xs) = fold_res (\<lambda>x. f (g x)) xs"
proof (induction xs)
  case (Cons x xs)
  show ?case by (rule ext) (simp add: Cons.IH)
qed (rule ext, simp)

lemma fold_res_invariant:
  assumes "\<And>x s s'. x \<in> set xs \<Longrightarrow> P s \<Longrightarrow> f x s = Inr s' \<Longrightarrow> P s'"
    and "P s" and "fold_res f xs s = Inr s'"
  shows "P s'"
  using assms
proof (induction xs arbitrary: s)
  case (Cons x xs)
  from Cons.prems(3) obtain t where t: "f x s = Inr t" "fold_res f xs t = Inr s'"
    by (auto simp: res_simps)
  with Cons.prems(1,2) have "P t" by auto
  with Cons.IH Cons.prems(1) t(2) show ?case by (meson list.set_intros(2))
qed simp

section \<open>Machine integers\<close>

text \<open>
  \<open>size_t\<close> is a natural number below \<open>2 ^ 64\<close>; its addition and subtraction wrap around.
  A \<open>std::vector<char>\<close> never holds more than \<open>max_size() = 2 ^ 63 - 1\<close> elements.
\<close>

definition usize_add :: "nat \<Rightarrow> nat \<Rightarrow> nat" where
  "usize_add a b = (a + b) mod 2 ^ 64"

definition usize_sub :: "nat \<Rightarrow> nat \<Rightarrow> nat" where
  "usize_sub a b = (a + 2 ^ 64 - b) mod 2 ^ 64"

definition vector_max_size :: nat where
  "vector_max_size = 2 ^ 63 - 1"

lemma usize_add_bounded [usize_simps]: "a + b < 2 ^ 64 \<Longrightarrow> usize_add a b = a + b"
  by (simp add: usize_add_def)

lemma usize_sub_bounded [usize_simps]: "b \<le> a \<Longrightarrow> a < 2 ^ 64 \<Longrightarrow> usize_sub a b = a - b"
proof -
  assume a: "b \<le> a" "a < 2 ^ 64"
  then have "a + 2 ^ 64 - b = (a - b) + 2 ^ 64" by (simp only: Nat.add_diff_assoc2)
  moreover have "((a - b) + 2 ^ 64) mod 2 ^ 64 = a - b"
    using a(2) by (simp only: mod_add_self2) (rule mod_less, rule less_imp_diff_less)
  ultimately show ?thesis by (simp only: usize_sub_def)
qed

lemma usize_add_less: "usize_add a b < 2 ^ 64"
  by (simp add: usize_add_def)

lemma usize_sub_less: "usize_sub a b < 2 ^ 64"
  by (simp add: usize_sub_def)

text \<open>Signed 64-bit arithmetic: overflow is a fault.\<close>

definition in_int64 :: "int \<Rightarrow> bool" where
  "in_int64 x \<longleftrightarrow> - (2 ^ 63) \<le> x \<and> x < 2 ^ 63"

definition checked64 :: "int \<Rightarrow> int res" where
  "checked64 x = check Int_overflow (in_int64 x) (Inr x)"

lemma checked64_eq_Inr [res_simps]: "checked64 x = Inr y \<longleftrightarrow> in_int64 x \<and> y = x"
  by (auto simp: checked64_def check_def)

lemma checked64_in_range [simp]: "in_int64 x \<Longrightarrow> checked64 x = Inr x"
  by (simp add: checked64_def)

text \<open>The conversion of an \<open>int64_t\<close> to a 32-bit \<open>int\<close> keeps the low 32 bits.\<close>

definition to_int32 :: "int \<Rightarrow> int" where
  "to_int32 x = (x + 2 ^ 31) mod 2 ^ 32 - 2 ^ 31"

lemma to_int32_range: "- (2 ^ 31) \<le> to_int32 x \<and> to_int32 x < 2 ^ 31"
  by (simp add: to_int32_def)

lemma to_int32_id: "- (2 ^ 31) \<le> x \<Longrightarrow> x < 2 ^ 31 \<Longrightarrow> to_int32 x = x"
  by (simp add: to_int32_def)

text \<open>Division and remainder of C truncate towards zero.\<close>

definition c_div :: "int \<Rightarrow> int \<Rightarrow> int" where
  "c_div a b = sgn a * sgn b * (\<bar>a\<bar> div \<bar>b\<bar>)"

definition c_mod :: "int \<Rightarrow> int \<Rightarrow> int" where
  "c_mod a b = a - c_div a b * b"

lemma c_div_nonneg [simp]: "0 \<le> a \<Longrightarrow> 0 < b \<Longrightarrow> c_div a b = a div b"
  by (cases "a = 0") (simp_all add: c_div_def sgn_if)

lemma c_mod_nonneg [simp]: "0 \<le> a \<Longrightarrow> 0 < b \<Longrightarrow> c_mod a b = a mod b"
  by (simp add: c_mod_def minus_div_mult_eq_mod)

section \<open>Searching in byte sequences\<close>

text \<open>\<open>memmem\<close>: the offset of the first occurrence of the needle.\<close>

fun memmem :: "'a list \<Rightarrow> 'a list \<Rightarrow> nat option" where
  "memmem [] needle = (if needle = [] then Some 0 else None)"
| "memmem (x # xs) needle =
     (if prefix needle (x # xs) then Some 0 else map_option Suc (memmem xs needle))"

lemma memmem_SomeD:
  "memmem hay needle = Some k \<Longrightarrow>
     k + length needle \<le> length hay \<and> take (length needle) (drop k hay) = needle"
proof (induction hay arbitrary: k)
  case Nil
  then show ?case by (simp split: if_splits)
next
  case (Cons x xs)
  show ?case
  proof (cases "prefix needle (x # xs)")
    case True
    with Cons.prems have "k = 0" by simp
    moreover from True obtain rest where "x # xs = needle @ rest" by (auto elim: prefixE)
    moreover from True have "length needle \<le> length (x # xs)" by (rule prefix_length_le)
    ultimately show ?thesis by (simp del: length_Cons)
  next
    case False
    with Cons.prems obtain j where "memmem xs needle = Some j" "k = Suc j" by auto
    with Cons.IH show ?thesis by simp
  qed
qed

lemma memmem_first:
  assumes "memmem hay needle = Some k" and "j < k"
  shows "\<not> prefix needle (drop j hay)"
  using assms
proof (induction hay arbitrary: k j)
  case Nil
  then show ?case by (simp split: if_splits)
next
  case (Cons x xs)
  then show ?case by (cases j) (auto split: if_splits)
qed

lemma memmem_None: "memmem hay needle = None \<Longrightarrow> \<not> prefix needle (drop j hay)"
proof (induction hay arbitrary: j)
  case Nil
  then show ?case by (auto split: if_splits)
next
  case (Cons x xs)
  then show ?case by (cases j) (auto split: if_splits)
qed

text \<open>The offset of a match that is found is not changed by what follows the match.\<close>

lemma memmem_append:
  "memmem hay needle = Some k \<Longrightarrow> memmem (hay @ more) needle = Some k"
proof (induction hay arbitrary: k)
  case Nil
  then show ?case by (cases more) (auto split: if_splits)
next
  case (Cons x xs)
  then obtain j where j: "prefix needle (x # xs) \<and> k = 0 \<or>
      \<not> prefix needle (x # xs) \<and> memmem xs needle = Some j \<and> k = Suc j"
    by (auto split: if_splits)
  then show ?case
  proof
    assume "prefix needle (x # xs) \<and> k = 0"
    then show ?thesis by (metis append_Cons memmem.simps(2) prefix_prefix)
  next
    assume a: "\<not> prefix needle (x # xs) \<and> memmem xs needle = Some j \<and> k = Suc j"
    then have le: "length needle \<le> length (x # xs)" using memmem_SomeD [of xs needle j] by simp
    have "\<not> prefix needle (x # xs @ more)"
    proof
      assume "prefix needle (x # xs @ more)"
      with le have "prefix needle (x # xs)"
        by (metis append_Cons prefix_length_prefix prefix_def)
      with a show False by simp
    qed
    with a Cons.IH show ?thesis by simp
  qed
qed

section \<open>Decimal output\<close>

fun dec_digits :: "nat \<Rightarrow> nat list" where
  "dec_digits n = (if n < 10 then [n] else dec_digits (n div 10) @ [n mod 10])"

declare dec_digits.simps [simp del]

definition digit_char :: "nat \<Rightarrow> char" where
  "digit_char d = char_of (48 + d)"

text \<open>The conversions \<open>%d\<close>, \<open>%u\<close>, \<open>%zd\<close> of \<open>snprintf\<close>.\<close>

definition print_nat :: "nat \<Rightarrow> string" where
  "print_nat n = map digit_char (dec_digits n)"

definition print_int :: "int \<Rightarrow> string" where
  "print_int i = (if i < 0 then CHR ''-'' # print_nat (nat (- i)) else print_nat (nat i))"

text \<open>A conversion \<open>%0wd\<close> pads with zeroes, after the sign, to at least \<open>w\<close> characters.\<close>

definition print_int0 :: "nat \<Rightarrow> int \<Rightarrow> string" where
  "print_int0 w i =
     (let ds = print_nat (nat \<bar>i\<bar>); sign = (if i < 0 then ''-'' else '''')
      in sign @ replicate (w - length sign - length ds) (CHR ''0'') @ ds)"

text \<open>\<open>snprintf\<close> into a buffer of \<open>n\<close> bytes stores at most \<open>n - 1\<close> characters.\<close>

definition snprintf :: "nat \<Rightarrow> string \<Rightarrow> string" where
  "snprintf n s = take (n - 1) s"

text \<open>The reference reading of a decimal number.\<close>

definition read_dec :: "string \<Rightarrow> nat" where
  "read_dec s = foldl (\<lambda>a c. 10 * a + (of_char c - 48)) 0 s"

lemma dec_digits_small: "d \<in> set (dec_digits n) \<Longrightarrow> d < 10"
proof (induction n rule: dec_digits.induct)
  case (1 n)
  show ?case
  proof (cases "n < 10")
    case True
    with "1.prems" show ?thesis by (simp add: dec_digits.simps [of n])
  next
    case False
    with "1.prems" "1.IH" show ?thesis by (auto simp: dec_digits.simps [of n])
  qed
qed

lemma of_char_digit_char: "d < 10 \<Longrightarrow> of_char (digit_char d) = (48 + d :: nat)"
  by (simp add: digit_char_def)

lemma read_dec_snoc: "read_dec (s @ [c]) = 10 * read_dec s + (of_char c - 48)"
  by (simp add: read_dec_def)

lemma read_print_nat [simp]: "read_dec (print_nat n) = n"
proof (induction n rule: dec_digits.induct)
  case (1 n)
  show ?case
  proof (cases "n < 10")
    case True
    then show ?thesis
      by (simp add: print_nat_def dec_digits.simps [of n] read_dec_def of_char_digit_char)
  next
    case False
    then have "print_nat n = print_nat (n div 10) @ [digit_char (n mod 10)]"
      by (simp add: print_nat_def dec_digits.simps [of n])
    with "1.IH" False show ?thesis by (simp add: read_dec_snoc of_char_digit_char)
  qed
qed

lemma print_nat_inj: "print_nat m = print_nat n \<longleftrightarrow> m = n"
  by (metis read_print_nat)

lemma length_dec_digits: "n < 10 ^ k \<Longrightarrow> 0 < k \<Longrightarrow> length (dec_digits n) \<le> k"
proof (induction k arbitrary: n)
  case (Suc k)
  show ?case
  proof (cases "n < 10")
    case True
    then show ?thesis by (simp add: dec_digits.simps [of n])
  next
    case False
    have "0 < k" using False Suc.prems(1) by (cases k) auto
    moreover have "n div 10 < 10 ^ k" using Suc.prems(1) by (simp add: less_mult_imp_div_less)
    ultimately have "length (dec_digits (n div 10)) \<le> k" using Suc.IH by blast
    with False show ?thesis by (simp add: dec_digits.simps [of n])
  qed
qed simp

lemma length_print_nat: "n < 10 ^ k \<Longrightarrow> 0 < k \<Longrightarrow> length (print_nat n) \<le> k"
  by (simp add: print_nat_def length_dec_digits)

lemma print_nat_nonempty [simp]: "print_nat n \<noteq> []"
  by (simp add: print_nat_def dec_digits.simps [of n])

definition is_digit :: "char \<Rightarrow> bool" where
  "is_digit c \<longleftrightarrow> 48 \<le> (of_char c :: nat) \<and> (of_char c :: nat) \<le> 57"

lemma print_nat_digits: "c \<in> set (print_nat n) \<Longrightarrow> is_digit c"
proof -
  assume "c \<in> set (print_nat n)"
  then obtain d where "d \<in> set (dec_digits n)" "c = digit_char d"
    by (auto simp: print_nat_def)
  with dec_digits_small [of d n] show ?thesis by (simp add: is_digit_def of_char_digit_char)
qed

lemma snprintf_fits: "length s < n \<Longrightarrow> snprintf n s = s"
  by (simp add: snprintf_def)

section \<open>Broken-down time\<close>

text \<open>The \<open>std::tm\<close> that \<open>gmtime_r\<close> and \<open>localtime_r\<close> fill in.\<close>

record tm =
  tm_sec :: int
  tm_min :: int
  tm_hour :: int
  tm_mday :: int
  tm_mon :: int
  tm_year :: int
  tm_wday :: int
  tm_yday :: int
  tm_isdst :: int
  tm_gmtoff :: int

section \<open>Ordered containers\<close>

text \<open>
  \<open>std::map\<close> is a list of pairs with strictly increasing keys: iteration is in key order.
  \<open>std::set\<close> is a strictly increasing list.
\<close>

fun smap_put :: "'k::linorder \<Rightarrow> 'v \<Rightarrow> ('k \<times> 'v) list \<Rightarrow> ('k \<times> 'v) list" where
  "smap_put k v [] = [(k, v)]"
| "smap_put k v (p # ps) =
     (if fst p < k then p # smap_put k v ps
      else if fst p = k then (k, v) # ps
      else (k, v) # p # ps)"

fun smap_erase :: "'k::linorder \<Rightarrow> ('k \<times> 'v) list \<Rightarrow> ('k \<times> 'v) list" where
  "smap_erase k [] = []"
| "smap_erase k (p # ps) = (if fst p = k then ps else p # smap_erase k ps)"

abbreviation smap_find :: "('k \<times> 'v) list \<Rightarrow> 'k \<Rightarrow> 'v option" where
  "smap_find m k \<equiv> map_of m k"

abbreviation smap_ok :: "('k::linorder \<times> 'v) list \<Rightarrow> bool" where
  "smap_ok m \<equiv> sorted_wrt (<) (map fst m)"

fun sset_insert :: "'a::linorder \<Rightarrow> 'a list \<Rightarrow> 'a list" where
  "sset_insert x [] = [x]"
| "sset_insert x (y # ys) =
     (if y < x then y # sset_insert x ys else if y = x then y # ys else x # y # ys)"

abbreviation sset_ok :: "'a::linorder list \<Rightarrow> bool" where
  "sset_ok \<equiv> sorted_wrt (<)"

lemma smap_find_put [simp]:
  "smap_ok m \<Longrightarrow> smap_find (smap_put k v m) = (smap_find m)(k \<mapsto> v)"
  by (induction m) (auto simp: fun_eq_iff)

lemma fst_set_smap_put: "fst ` set (smap_put k v m) = insert k (fst ` set m)"
  by (induction m) auto

lemma smap_ok_put [simp]: "smap_ok m \<Longrightarrow> smap_ok (smap_put k v m)"
proof (induction m)
  case (Cons p ps)
  have mem: "\<And>q. q \<in> set (smap_put k v ps) \<Longrightarrow> fst q = k \<or> fst q \<in> fst ` set ps"
    using fst_set_smap_put [of k v ps] by blast
  show ?case
  proof (cases "fst p < k")
    case True
    with Cons mem show ?thesis by fastforce
  next
    case False
    with Cons.prems show ?thesis by auto
  qed
qed simp

lemma smap_ok_erase [simp]: "smap_ok m \<Longrightarrow> smap_ok (smap_erase k m)"
proof (induction m)
  case (Cons p ps)
  have "set (smap_erase k ps) \<subseteq> set ps" by (induction ps) auto
  with Cons show ?case by auto
qed simp

lemma smap_find_erase [simp]:
  "smap_ok m \<Longrightarrow> smap_find (smap_erase k m) = (smap_find m)(k := None)"
proof (induction m)
  case (Cons p ps)
  have "fst p = k \<Longrightarrow> map_of ps k = None"
    using Cons.prems by (auto simp: map_of_eq_None_iff)
  with Cons show ?case by (auto simp: fun_eq_iff)
qed simp

lemma set_sset_insert: "set (sset_insert x xs) = insert x (set xs)"
  by (induction xs) auto

lemma sset_ok_insert [simp]: "sset_ok xs \<Longrightarrow> sset_ok (sset_insert x xs)"
  by (induction xs) (auto simp: set_sset_insert)

lemma length_sset_insert:
  "sset_ok xs \<Longrightarrow> length (sset_insert x xs) = (if x \<in> set xs then length xs else Suc (length xs))"
  by (induction xs) auto

end
