(* ===== verification/Channel.thy ===== *)
theory Channel
  imports Tractor_Prelude
begin

unbundle bit_operations_syntax

text \<open>
  \<open>include/tractor/Channel.h\<close> and \<open>src/Channel.cpp\<close>: a file descriptor with the events it is
  interested in, and the dispatch of the events that happened. Channels are heap objects: the
  state of the loop holds a map from addresses to channels (\<open>chans\<close> of \<open>EPoller\<close>), and the
  operations that call \<open>update()\<close> are in the theory \<open>EPoller\<close>. The callbacks are functions on
  the state of the client; an empty \<open>std::function\<close> is \<open>None\<close>.
\<close>

section \<open>Event masks\<close>

type_synonym mask = "32 word"

definition POLLIN :: mask where "POLLIN = 0x001"
definition POLLPRI :: mask where "POLLPRI = 0x002"
definition POLLOUT :: mask where "POLLOUT = 0x004"
definition POLLERR :: mask where "POLLERR = 0x008"
definition POLLHUP :: mask where "POLLHUP = 0x010"
definition POLLNVAL :: mask where "POLLNVAL = 0x020"
definition POLLRDHUP :: mask where "POLLRDHUP = 0x2000"

lemmas poll_flags = POLLIN_def POLLPRI_def POLLOUT_def POLLERR_def POLLHUP_def POLLNVAL_def
  POLLRDHUP_def

lemma poll_powers:
  "POLLIN = 2 ^ 0" "POLLPRI = 2 ^ 1" "POLLOUT = 2 ^ 2" "POLLERR = 2 ^ 3" "POLLHUP = 2 ^ 4"
  "POLLNVAL = 2 ^ 5" "POLLRDHUP = 2 ^ 13"
  by (simp_all add: poll_flags)

lemma and_flags:
  "r AND POLLIN = 0 \<longleftrightarrow> \<not> bit r 0" "r AND POLLPRI = 0 \<longleftrightarrow> \<not> bit r 1"
  "r AND POLLOUT = 0 \<longleftrightarrow> \<not> bit r 2" "r AND POLLERR = 0 \<longleftrightarrow> \<not> bit r 3"
  "r AND POLLHUP = 0 \<longleftrightarrow> \<not> bit r 4" "r AND POLLNVAL = 0 \<longleftrightarrow> \<not> bit r 5"
  "r AND POLLRDHUP = 0 \<longleftrightarrow> \<not> bit r 13"
  unfolding poll_powers by (rule and_exp_eq_0_iff_not_bit)+

lemma and_or_flags: "r AND (a OR b) = 0 \<longleftrightarrow> r AND a = 0 \<and> r AND (b :: mask) = 0"
  by (simp add: bit.conj_disj_distrib or_eq_0_iff)

lemma bit_POLLOUT: "bit POLLOUT n \<longleftrightarrow> n = 2"
  by (auto simp: poll_powers(3) bit_exp_iff possible_bit_def simp del: power_numeral)

definition kNoneEvent :: mask where "kNoneEvent = 0"
definition kReadEvent :: mask where "kReadEvent = POLLIN OR POLLPRI"
definition kWriteEvent :: mask where "kWriteEvent = POLLOUT"

lemmas event_masks = kNoneEvent_def kReadEvent_def kWriteEvent_def

section \<open>The channel\<close>

record Channel =
  chan_loop :: nat
  chan_fd :: int
  events :: mask
  revents :: mask
  index :: int
  eventHandling :: "bool option"

definition Channel_new :: "nat \<Rightarrow> int \<Rightarrow> Channel" where
  "Channel_new loop fd = \<lparr>chan_loop = loop, chan_fd = fd, events = 0, revents = 0, index = -1,
     eventHandling = None\<rparr>"

text \<open>The destructor reads \<open>eventHandleing_\<close>, which the constructor does not set.\<close>

definition Channel_delete :: "Channel \<Rightarrow> unit res" where
  "Channel_delete c =
     (case eventHandling c of
        None \<Rightarrow> Inl Uninitialised
      | Some h \<Rightarrow> asserting (\<not> h) (Inr ()))"

definition setRevents :: "mask \<Rightarrow> Channel \<Rightarrow> Channel" where
  "setRevents r c = c\<lparr>revents := r\<rparr>"

definition setIndex :: "int \<Rightarrow> Channel \<Rightarrow> Channel" where
  "setIndex i c = c\<lparr>index := i\<rparr>"

definition isNoneEvent :: "Channel \<Rightarrow> bool" where
  "isNoneEvent c \<longleftrightarrow> events c = kNoneEvent"

definition isWriting :: "Channel \<Rightarrow> bool" where
  "isWriting c \<longleftrightarrow> events c AND kWriteEvent \<noteq> 0"

text \<open>The changes of the mask that \<open>enableReading\<close> and its siblings make before \<open>update()\<close>.\<close>

definition with_reading :: "Channel \<Rightarrow> Channel" where
  "with_reading c = c\<lparr>events := events c OR kReadEvent\<rparr>"

definition with_writing :: "Channel \<Rightarrow> Channel" where
  "with_writing c = c\<lparr>events := events c OR kWriteEvent\<rparr>"

definition without_writing :: "Channel \<Rightarrow> Channel" where
  "without_writing c = c\<lparr>events := events c AND NOT kWriteEvent\<rparr>"

definition without_events :: "Channel \<Rightarrow> Channel" where
  "without_events c = c\<lparr>events := kNoneEvent\<rparr>"

lemma isWriting_bit: "isWriting c \<longleftrightarrow> bit (events c) 2"
  by (simp add: isWriting_def kWriteEvent_def and_flags)

lemma isWriting_masks [simp]:
  "isWriting (with_writing c)" "\<not> isWriting (without_writing c)" "\<not> isWriting (without_events c)"
  "isWriting (with_reading c) \<longleftrightarrow> isWriting c"
  by (simp_all add: isWriting_bit with_writing_def without_writing_def without_events_def
      with_reading_def event_masks poll_flags bit_simps)

lemma isNoneEvent_masks [simp]:
  "isNoneEvent (without_events c)" "\<not> isNoneEvent (with_reading c)" "\<not> isNoneEvent (with_writing c)"
proof -
  show "isNoneEvent (without_events c)" by (simp add: isNoneEvent_def without_events_def)
  have "bit (events (with_reading c)) 0" and "bit (events (with_writing c)) 2"
    by (simp_all add: with_reading_def with_writing_def event_masks poll_flags bit_simps)
  then show "\<not> isNoneEvent (with_reading c)" and "\<not> isNoneEvent (with_writing c)"
    by (auto simp: isNoneEvent_def kNoneEvent_def)
qed

lemma writing_round_trip:
  "\<not> isWriting c \<Longrightarrow> without_writing (with_writing c) = c"
proof -
  assume "\<not> isWriting c"
  then have "(events c OR POLLOUT) AND NOT POLLOUT = events c"
    by (intro bit_word_eqI) (auto simp: isWriting_bit bit_simps bit_POLLOUT)
  then show ?thesis
    by (simp add: without_writing_def with_writing_def kWriteEvent_def)
qed

section \<open>Dispatch\<close>

record 's callbacks =
  readCallback :: "(int \<Rightarrow> 's \<Rightarrow> 's res) option"
  writeCallback :: "('s \<Rightarrow> 's res) option"
  errorCallback :: "('s \<Rightarrow> 's res) option"
  closeCallback :: "('s \<Rightarrow> 's res) option"

definition no_callbacks :: "'s callbacks" where
  "no_callbacks = \<lparr>readCallback = None, writeCallback = None, errorCallback = None,
     closeCallback = None\<rparr>"

definition setReadCallback :: "(int \<Rightarrow> 's \<Rightarrow> 's res) \<Rightarrow> 's callbacks \<Rightarrow> 's callbacks" where
  "setReadCallback cb c = c\<lparr>readCallback := Some cb\<rparr>"

definition setWriteCallback :: "('s \<Rightarrow> 's res) \<Rightarrow> 's callbacks \<Rightarrow> 's callbacks" where
  "setWriteCallback cb c = c\<lparr>writeCallback := Some cb\<rparr>"

definition setErrorCallback :: "('s \<Rightarrow> 's res) \<Rightarrow> 's callbacks \<Rightarrow> 's callbacks" where
  "setErrorCallback cb c = c\<lparr>errorCallback := Some cb\<rparr>"

definition setCloseCallback :: "('s \<Rightarrow> 's res) \<Rightarrow> 's callbacks \<Rightarrow> 's callbacks" where
  "setCloseCallback cb c = c\<lparr>closeCallback := Some cb\<rparr>"

definition call :: "('s \<Rightarrow> 's res) option \<Rightarrow> 's \<Rightarrow> 's res" where
  "call cb s = (case cb of None \<Rightarrow> Inr s | Some f \<Rightarrow> f s)"

text \<open>\<open>mark\<close> stores the flag \<open>eventHandleing_\<close> of the channel in the state of the client.\<close>

definition handleEvent ::
    "(bool \<Rightarrow> 's \<Rightarrow> 's) \<Rightarrow> mask \<Rightarrow> 's callbacks \<Rightarrow> int \<Rightarrow> 's \<Rightarrow> 's res" where
  "handleEvent mark r cbs receiveTime s =
     (let s0 = mark True s in
      andthen (if r AND POLLHUP \<noteq> 0 \<and> r AND POLLIN = 0 then call (closeCallback cbs) s0 else Inr s0)
      (\<lambda>s1. andthen (if r AND (POLLERR OR POLLNVAL) \<noteq> 0 then call (errorCallback cbs) s1 else Inr s1)
      (\<lambda>s2. andthen (if r AND (POLLIN OR POLLPRI OR POLLRDHUP) \<noteq> 0
                     then call (map_option (\<lambda>f. f receiveTime) (readCallback cbs)) s2 else Inr s2)
      (\<lambda>s3. andthen (if r AND POLLOUT \<noteq> 0 then call (writeCallback cbs) s3 else Inr s3)
      (\<lambda>s4. Inr (mark False s4))))))"

text \<open>
  Recording callbacks: which callbacks a dispatch calls, in order.
\<close>

datatype dispatched = Marked bool | Closed | Errored | Read int | Written

definition record_mark :: "bool \<Rightarrow> dispatched list \<Rightarrow> dispatched list" where
  "record_mark h s = s @ [Marked h]"

definition recorder :: "dispatched list callbacks" where
  "recorder = \<lparr>readCallback = Some (\<lambda>t s. Inr (s @ [Read t])),
     writeCallback = Some (\<lambda>s. Inr (s @ [Written])),
     errorCallback = Some (\<lambda>s. Inr (s @ [Errored])),
     closeCallback = Some (\<lambda>s. Inr (s @ [Closed]))\<rparr>"

text \<open>
  \<open>handleEvent\<close> calls each callback at most once and in a fixed order: close (a hang-up
  with nothing left to read), error, read, write; each exactly when its bits are set. The flag
  \<open>eventHandleing_\<close> is set before the first and cleared after the last of them.
\<close>

theorem handleEvent_order:
  "handleEvent record_mark r recorder t [] =
     Inr ([Marked True] @
          (if bit r 4 \<and> \<not> bit r 0 then [Closed] else []) @
          (if bit r 3 \<or> bit r 5 then [Errored] else []) @
          (if bit r 0 \<or> bit r 1 \<or> bit r 13 then [Read t] else []) @
          (if bit r 2 then [Written] else []) @ [Marked False])"
  by (simp add: handleEvent_def and_flags and_or_flags call_def recorder_def record_mark_def Let_def)

end
