(* ===== verification/EPoller.thy ===== *)
theory EPoller
  imports Channel
begin

text \<open>
  \<open>include/tractor/BasePoller.h\<close>, \<open>include/tractor/EPoller.h\<close>, \<open>src/EPoller.cpp\<close> and the calls that
  reach them from \<open>Channel::update\<close> and \<open>EventLoop::updateChannel/removeChannel\<close>. The state is
  the heap of channels, the map \<open>channels_\<close> and the size of the event array; it is extended by
  the state of the loop. The kernel is outside: every \<open>epoll_ctl\<close> call is recorded in
  \<open>ctl_log\<close>, and the outcome of \<open>epoll_wait\<close> is an argument of \<open>poll\<close>. \<open>interest\<close> replays a log
  of calls the way \<open>epoll_ctl(2)\<close> documents them.
\<close>

section \<open>State\<close>

datatype epoll_op = CTL_ADD | CTL_MOD | CTL_DEL

datatype epoll_call = Epoll_ctl epoll_op int mask nat

record poll_world =
  ownerLoop :: nat
  chans :: "nat \<Rightarrow> Channel option"
  channels :: "(int \<times> nat) list"
  events_size :: nat
  ctl_log :: "epoll_call list"

definition kNew :: int where "kNew = -1"
definition kAdded :: int where "kAdded = 1"
definition kDeleted :: int where "kDeleted = 2"

lemmas index_values = kNew_def kAdded_def kDeleted_def

definition kInitEventListSize :: nat where "kInitEventListSize = 16"

definition EPoller_new :: "nat \<Rightarrow> poll_world" where
  "EPoller_new loop = \<lparr>ownerLoop = loop, chans = (\<lambda>_. None), channels = [],
     events_size = kInitEventListSize, ctl_log = []\<rparr>"

text \<open>Dereferencing the address of a channel, and changing the channel there.\<close>

definition with_chan ::
    "nat \<Rightarrow> 'w poll_world_scheme \<Rightarrow> (Channel \<Rightarrow> 'a res) \<Rightarrow> 'a res" where
  "with_chan p w k = (case chans w p of None \<Rightarrow> Inl Use_after_free | Some c \<Rightarrow> k c)"

definition put_chan :: "nat \<Rightarrow> Channel \<Rightarrow> 'w poll_world_scheme \<Rightarrow> 'w poll_world_scheme" where
  "put_chan p c w = w\<lparr>chans := (chans w)(p \<mapsto> c)\<rparr>"

section \<open>Operations\<close>

definition hasChannel :: "nat \<Rightarrow> 'w poll_world_scheme \<Rightarrow> bool res" where
  "hasChannel p w = with_chan p w (\<lambda>c. Inr (smap_find (channels w) (chan_fd c) = Some p))"

definition epoll_update ::
    "epoll_op \<Rightarrow> nat \<Rightarrow> 'w poll_world_scheme \<Rightarrow> 'w poll_world_scheme res" where
  "epoll_update operation p w =
     with_chan p w (\<lambda>c. Inr (w\<lparr>ctl_log := ctl_log w @ [Epoll_ctl operation (chan_fd c) (events c) p]\<rparr>))"

definition epoll_updateChannel :: "nat \<Rightarrow> 'w poll_world_scheme \<Rightarrow> 'w poll_world_scheme res" where
  "epoll_updateChannel p w =
     with_chan p w (\<lambda>c.
       if index c = kNew \<or> index c = kDeleted
       then
         andthen
          (if index c = kNew
           then asserting (smap_find (channels w) (chan_fd c) = None)
                  (Inr (w\<lparr>channels := smap_put (chan_fd c) p (channels w)\<rparr>))
           else asserting (smap_find (channels w) (chan_fd c) \<noteq> None)
                  (asserting (smap_find (channels w) (chan_fd c) = Some p) (Inr w)))
          (\<lambda>w'. epoll_update CTL_ADD p (put_chan p (setIndex kAdded c) w'))
       else
         asserting (smap_find (channels w) (chan_fd c) \<noteq> None)
          (asserting (smap_find (channels w) (chan_fd c) = Some p)
            (asserting (index c = kAdded)
              (if isNoneEvent c
               then andthen (epoll_update CTL_DEL p w)
                      (\<lambda>w'. Inr (put_chan p (setIndex kDeleted c) w'))
               else epoll_update CTL_MOD p w))))"

definition epoll_removeChannel :: "nat \<Rightarrow> 'w poll_world_scheme \<Rightarrow> 'w poll_world_scheme res" where
  "epoll_removeChannel p w =
     with_chan p w (\<lambda>c.
       asserting (smap_find (channels w) (chan_fd c) \<noteq> None)
        (asserting (smap_find (channels w) (chan_fd c) = Some p)
         (asserting (isNoneEvent c)
          (asserting (index c = kAdded \<or> index c = kDeleted)
           (let w1 = w\<lparr>channels := smap_erase (chan_fd c) (channels w)\<rparr>
            in andthen (if index c = kAdded then epoll_update CTL_DEL p w1 else Inr w1)
                 (\<lambda>w2. Inr (put_chan p (setIndex kNew c) w2)))))))"

text \<open>The loop checks that it owns the channel; \<open>assertInLoopThread\<close> only prints a message.\<close>

definition loop_updateChannel :: "nat \<Rightarrow> 'w poll_world_scheme \<Rightarrow> 'w poll_world_scheme res" where
  "loop_updateChannel p w =
     with_chan p w (\<lambda>c. asserting (chan_loop c = ownerLoop w) (epoll_updateChannel p w))"

definition loop_removeChannel :: "nat \<Rightarrow> 'w poll_world_scheme \<Rightarrow> 'w poll_world_scheme res" where
  "loop_removeChannel p w =
     with_chan p w (\<lambda>c. asserting (chan_loop c = ownerLoop w) (epoll_removeChannel p w))"

definition Channel_update :: "nat \<Rightarrow> 'w poll_world_scheme \<Rightarrow> 'w poll_world_scheme res" where
  "Channel_update p w = loop_updateChannel p w"

definition change_events ::
    "(Channel \<Rightarrow> Channel) \<Rightarrow> nat \<Rightarrow> 'w poll_world_scheme \<Rightarrow> 'w poll_world_scheme res" where
  "change_events f p w = with_chan p w (\<lambda>c. Channel_update p (put_chan p (f c) w))"

definition enableReading :: "nat \<Rightarrow> 'w poll_world_scheme \<Rightarrow> 'w poll_world_scheme res" where
  "enableReading p w = change_events with_reading p w"

definition enableWriting :: "nat \<Rightarrow> 'w poll_world_scheme \<Rightarrow> 'w poll_world_scheme res" where
  "enableWriting p w = change_events with_writing p w"

definition disableWriting :: "nat \<Rightarrow> 'w poll_world_scheme \<Rightarrow> 'w poll_world_scheme res" where
  "disableWriting p w = change_events without_writing p w"

definition disableAll :: "nat \<Rightarrow> 'w poll_world_scheme \<Rightarrow> 'w poll_world_scheme res" where
  "disableAll p w = change_events without_events p w"

text \<open>
  \<open>poll\<close>: the events that \<open>epoll_wait\<close> stored, each with the address of its channel, or a failure.
  The results are the return value, the active channels and the state. The current time is
  stored in an \<open>int\<close> before it is returned.
\<close>

datatype wait_result = Wait_events "(mask \<times> nat) list" | Wait_failed int

fun fill_active ::
    "(mask \<times> nat) list \<Rightarrow> nat list \<Rightarrow> 'w poll_world_scheme \<Rightarrow> (nat list \<times> 'w poll_world_scheme) res" where
  "fill_active [] active w = Inr (active, w)"
| "fill_active ((ev, p) # evs) active w =
     with_chan p w (\<lambda>c.
       asserting (smap_find (channels w) (chan_fd c) \<noteq> None)
        (asserting (smap_find (channels w) (chan_fd c) = Some p)
          (fill_active evs (active @ [p]) (put_chan p (setRevents ev c) w))))"

definition fillActiveChannels ::
    "(mask \<times> nat) list \<Rightarrow> nat list \<Rightarrow> 'w poll_world_scheme \<Rightarrow> (nat list \<times> 'w poll_world_scheme) res" where
  "fillActiveChannels evs active w =
     asserting (length evs \<le> events_size w) (fill_active evs active w)"

definition epoll_poll ::
    "wait_result \<Rightarrow> int \<Rightarrow> nat list \<Rightarrow> 'w poll_world_scheme \<Rightarrow> (int \<times> nat list \<times> 'w poll_world_scheme) res" where
  "epoll_poll r time active w =
     (let now = to_int32 time
      in case r of
           Wait_failed e \<Rightarrow> Inr (now, active, w)
         | Wait_events evs \<Rightarrow>
             (if evs = [] then Inr (now, active, w)
              else andthen (fillActiveChannels evs active w) (\<lambda>(active', w').
                     Inr (now, active',
                          if length evs = events_size w' then w'\<lparr>events_size := events_size w' * 2\<rparr>
                          else w'))))"

section \<open>The interest list\<close>

text \<open>
  The effect of a call on the interest list of the kernel, and whether the call succeeds:
  \<open>EPOLL_CTL_ADD\<close> fails for a descriptor that is in the list, the other two for one that is not.
\<close>

fun ctl_legal :: "epoll_call \<Rightarrow> (int \<rightharpoonup> mask \<times> nat) \<Rightarrow> bool" where
  "ctl_legal (Epoll_ctl CTL_ADD fd ev p) m = (m fd = None)"
| "ctl_legal (Epoll_ctl CTL_MOD fd ev p) m = (m fd \<noteq> None)"
| "ctl_legal (Epoll_ctl CTL_DEL fd ev p) m = (m fd \<noteq> None)"

fun ctl_effect :: "epoll_call \<Rightarrow> (int \<rightharpoonup> mask \<times> nat) \<Rightarrow> (int \<rightharpoonup> mask \<times> nat)" where
  "ctl_effect (Epoll_ctl CTL_DEL fd ev p) m = m(fd := None)"
| "ctl_effect (Epoll_ctl op fd ev p) m =
     (if ctl_legal (Epoll_ctl op fd ev p) m then m(fd \<mapsto> (ev, p)) else m)"

definition interest :: "epoll_call list \<Rightarrow> (int \<rightharpoonup> mask \<times> nat)" where
  "interest log = fold ctl_effect log Map.empty"

fun legal_from :: "(int \<rightharpoonup> mask \<times> nat) \<Rightarrow> epoll_call list \<Rightarrow> bool" where
  "legal_from m [] = True"
| "legal_from m (c # cs) = (ctl_legal c m \<and> legal_from (ctl_effect c m) cs)"

lemma legal_from_snoc:
  "legal_from m (cs @ [c]) \<longleftrightarrow> legal_from m cs \<and> ctl_legal c (fold ctl_effect cs m)"
  by (induction cs arbitrary: m) auto

lemma interest_snoc [simp]: "interest (log @ [c]) = ctl_effect c (interest log)"
  by (simp add: interest_def)

lemma legal_snoc [simp]:
  "legal_from Map.empty (log @ [c]) \<longleftrightarrow> legal_from Map.empty log \<and> ctl_legal c (interest log)"
  by (simp add: legal_from_snoc interest_def)

text \<open>What the interest list should hold according to the channels.\<close>

definition registered :: "'w poll_world_scheme \<Rightarrow> int \<Rightarrow> (mask \<times> nat) option" where
  "registered w fd =
     (case smap_find (channels w) fd of
        None \<Rightarrow> None
      | Some p \<Rightarrow> (case chans w p of
            None \<Rightarrow> None
          | Some c \<Rightarrow> if index c = kAdded then Some (events c, p) else None))"

definition channels_inv :: "'w poll_world_scheme \<Rightarrow> bool" where
  "channels_inv w \<longleftrightarrow> smap_ok (channels w) \<and>
     (\<forall>fd p. smap_find (channels w) fd = Some p \<longrightarrow>
        (\<exists>c. chans w p = Some c \<and> chan_fd c = fd \<and> (index c = kAdded \<or> index c = kDeleted))) \<and>
     (\<forall>p c. chans w p = Some c \<longrightarrow> index c \<noteq> kNew \<longrightarrow> smap_find (channels w) (chan_fd c) = Some p)"

definition epoll_inv :: "'w poll_world_scheme \<Rightarrow> bool" where
  "epoll_inv w \<longleftrightarrow> channels_inv w \<and> legal_from Map.empty (ctl_log w) \<and>
     interest (ctl_log w) = registered w"

lemma epoll_inv_new: "epoll_inv (EPoller_new loop)"
  by (simp add: epoll_inv_def channels_inv_def EPoller_new_def interest_def registered_def fun_eq_iff)

lemma channels_inv_find:
  "channels_inv w \<Longrightarrow> chans w p = Some c \<Longrightarrow> index c \<noteq> kNew \<Longrightarrow> smap_find (channels w) (chan_fd c) = Some p"
  by (simp add: channels_inv_def)

lemma channels_inv_index:
  "channels_inv w \<Longrightarrow> chans w p = Some c \<Longrightarrow> index c = kNew \<or> index c = kAdded \<or> index c = kDeleted"
  unfolding channels_inv_def by fastforce

lemma channels_inv_unique:
  assumes "channels_inv w" and "smap_find (channels w) fd = Some p" and "chans w p = Some c"
  shows "chan_fd c = fd"
  using assms unfolding channels_inv_def by fastforce

section \<open>The state after an update\<close>

text \<open>
  What \<open>Channel::update\<close> does to a channel \<open>c\<close> whose mask was just changed, as one description:
  the new index of the channel and the call that is made.
\<close>

fun next_index :: "Channel \<Rightarrow> int" where
  "next_index c = (if index c = kAdded \<and> isNoneEvent c then kDeleted else kAdded)"

definition update_call :: "nat \<Rightarrow> Channel \<Rightarrow> epoll_call" where
  "update_call p c =
     Epoll_ctl (if index c = kAdded then (if isNoneEvent c then CTL_DEL else CTL_MOD) else CTL_ADD)
       (chan_fd c) (events c) p"

definition updated :: "nat \<Rightarrow> Channel \<Rightarrow> 'w poll_world_scheme \<Rightarrow> 'w poll_world_scheme" where
  "updated p c w = w\<lparr>chans := (chans w)(p \<mapsto> setIndex (next_index c) c),
     channels := (if index c = kNew then smap_put (chan_fd c) p (channels w) else channels w),
     ctl_log := ctl_log w @ [update_call p c]\<rparr>"

definition ready :: "nat \<Rightarrow> 'w poll_world_scheme \<Rightarrow> Channel \<Rightarrow> bool" where
  "ready p w c \<longleftrightarrow> chans w p = Some c \<and> chan_loop c = ownerLoop w \<and>
     (index c = kNew \<longrightarrow> smap_find (channels w) (chan_fd c) = None)"

definition remasks :: "(Channel \<Rightarrow> Channel) \<Rightarrow> bool" where
  "remasks f \<longleftrightarrow> (\<forall>c. \<exists>e. f c = c\<lparr>events := e\<rparr>)"

lemma remasks_ops [simp]:
  "remasks with_reading" "remasks with_writing" "remasks without_writing" "remasks without_events"
  by (auto simp: remasks_def with_reading_def with_writing_def without_writing_def without_events_def)

lemma remasks_fields:
  assumes "remasks f"
  shows "chan_fd (f c) = chan_fd c" "index (f c) = index c" "chan_loop (f c) = chan_loop c"
proof -
  obtain e where "f c = c\<lparr>events := e\<rparr>" using assms by (auto simp: remasks_def)
  then show "chan_fd (f c) = chan_fd c" "index (f c) = index c" "chan_loop (f c) = chan_loop c"
    by simp_all
qed

lemma setIndex_same: "index c = i \<Longrightarrow> setIndex i c = c"
  by (cases c) (simp add: setIndex_def)

lemma setIndex_fields [simp]:
  "chan_fd (setIndex i c) = chan_fd c" "events (setIndex i c) = events c"
  "chan_loop (setIndex i c) = chan_loop c" "index (setIndex i c) = i"
  "isNoneEvent (setIndex i c) = isNoneEvent c" "isWriting (setIndex i c) = isWriting c"
  by (simp_all add: setIndex_def isNoneEvent_def isWriting_def)

lemmas poller_ops = with_chan_def put_chan_def Channel_update_def loop_updateChannel_def
  loop_removeChannel_def epoll_updateChannel_def epoll_removeChannel_def epoll_update_def

lemma change_events_eq:
  assumes "channels_inv w" and "ready p w c" and "remasks f"
  shows "change_events f p w = Inr (updated p (f c) w)"
proof -
  have c: "chans w p = Some c" "chan_loop c = ownerLoop w" using assms(2) by (auto simp: ready_def)
  note ff = remasks_fields [OF assms(3), of c]
  consider "index c = kNew" "smap_find (channels w) (chan_fd c) = None"
    | "index c = kDeleted" "smap_find (channels w) (chan_fd c) = Some p"
    | "index c = kAdded" "smap_find (channels w) (chan_fd c) = Some p"
    using channels_inv_index [OF assms(1) c(1)] channels_inv_find [OF assms(1) c(1)] assms(2)
    by (auto simp: ready_def index_values)
  then show ?thesis
    using c ff
    by cases (simp_all add: change_events_def poller_ops updated_def update_call_def index_values
        setIndex_same)
qed

lemma channels_inv_updated:
  assumes "channels_inv w" and "ready p w c" and "remasks f"
  shows "channels_inv (updated p (f c) w)"
proof -
  let ?c = "setIndex (next_index (f c)) (f c)"
  let ?w = "updated p (f c) w"
  note ff = remasks_fields [OF assms(3), of c]
  have c: "chans w p = Some c" using assms(2) by (simp add: ready_def)
  have sc: "chan_fd ?c = chan_fd c" "index ?c = kAdded \<or> index ?c = kDeleted"
    using ff by (simp_all add: setIndex_def)
  have find: "smap_find (channels ?w) = (smap_find (channels w))(chan_fd c \<mapsto> p)"
    using assms(1) ff channels_inv_find [OF assms(1) c]
    by (auto simp: updated_def channels_inv_def fun_eq_iff)
  have ch: "chans ?w = (chans w)(p \<mapsto> ?c)" by (simp add: updated_def)
  have none: "smap_find (channels w) (chan_fd c) = None \<or> smap_find (channels w) (chan_fd c) = Some p"
    using assms(2) channels_inv_find [OF assms(1) c] by (auto simp: ready_def)
  have ok: "smap_ok (channels ?w)" using assms(1) by (simp add: updated_def channels_inv_def)
  moreover have "\<exists>d. chans ?w q = Some d \<and> chan_fd d = fd \<and> (index d = kAdded \<or> index d = kDeleted)"
    if q: "smap_find (channels ?w) fd = Some q" for fd q
  proof (cases "q = p")
    case True
    then have "fd = chan_fd c"
      using q find channels_inv_unique [OF assms(1) _ c] by (auto split: if_splits)
    with True ch sc show ?thesis by simp
  next
    case False
    with q find ch assms(1) show ?thesis by (auto simp: channels_inv_def split: if_splits)
  qed
  moreover have "smap_find (channels ?w) (chan_fd d) = Some q"
    if q: "chans ?w q = Some d" "index d \<noteq> kNew" for q d
  proof (cases "q = p")
    case True
    with q ch sc find show ?thesis by simp
  next
    case False
    with q ch have "smap_find (channels w) (chan_fd d) = Some q"
      using channels_inv_find [OF assms(1)] by simp
    with False none find show ?thesis by auto
  qed
  ultimately show ?thesis unfolding channels_inv_def by blast
qed

lemma registered_updated:
  assumes "channels_inv w" and "ready p w c" and "remasks f"
  shows "registered (updated p (f c) w) =
    (registered w)(chan_fd c :=
       (if index c = kAdded \<and> isNoneEvent (f c) then None else Some (events (f c), p)))"
proof
  fix fd
  note ff = remasks_fields [OF assms(3), of c]
  have c: "chans w p = Some c" using assms(2) by (simp add: ready_def)
  have find: "smap_find (channels (updated p (f c) w)) = (smap_find (channels w))(chan_fd c \<mapsto> p)"
    using assms(1) ff channels_inv_find [OF assms(1) c]
    by (auto simp: updated_def channels_inv_def fun_eq_iff)
  have ch: "chans (updated p (f c) w) = (chans w)(p \<mapsto> setIndex (next_index (f c)) (f c))"
    by (simp add: updated_def)
  have "fd \<noteq> chan_fd c \<Longrightarrow> smap_find (channels w) fd \<noteq> Some p"
    using channels_inv_unique [OF assms(1) _ c] by blast
  then show "registered (updated p (f c) w) fd = ((registered w)(chan_fd c :=
       (if index c = kAdded \<and> isNoneEvent (f c) then None else Some (events (f c), p)))) fd"
    using ff by (auto simp: registered_def find ch setIndex_def index_values split: option.splits)
qed

lemma epoll_inv_updated:
  assumes "epoll_inv w" and "ready p w c" and "remasks f"
  shows "epoll_inv (updated p (f c) w)"
proof -
  note ff = remasks_fields [OF assms(3), of c]
  have inv: "channels_inv w" and leg: "legal_from Map.empty (ctl_log w)"
    and int: "interest (ctl_log w) = registered w" using assms(1) by (auto simp: epoll_inv_def)
  have c: "chans w p = Some c" using assms(2) by (simp add: ready_def)
  have log: "ctl_log (updated p (f c) w) = ctl_log w @ [update_call p (f c)]"
    by (simp add: updated_def)
  have reg: "registered w (chan_fd c) = (if index c = kAdded then Some (events c, p) else None)"
  proof (cases "index c = kNew")
    case True
    with assms(2) show ?thesis by (simp add: ready_def registered_def index_values)
  next
    case False
    with channels_inv_find [OF inv c] c show ?thesis by (simp add: registered_def)
  qed
  have "ctl_legal (update_call p (f c)) (interest (ctl_log w))"
    using reg ff by (simp add: update_call_def int)
  moreover have "ctl_effect (update_call p (f c)) (interest (ctl_log w)) = registered (updated p (f c) w)"
    using reg ff unfolding registered_updated [OF inv assms(2,3)] by (simp add: update_call_def int)
  ultimately show ?thesis
    using channels_inv_updated [OF inv assms(2,3)] leg by (simp add: epoll_inv_def log)
qed

section \<open>Removing and allocating channels\<close>

definition removed :: "nat \<Rightarrow> Channel \<Rightarrow> 'w poll_world_scheme \<Rightarrow> 'w poll_world_scheme" where
  "removed p c w = w\<lparr>chans := (chans w)(p \<mapsto> setIndex kNew c),
     channels := smap_erase (chan_fd c) (channels w),
     ctl_log := ctl_log w @ (if index c = kAdded then [Epoll_ctl CTL_DEL (chan_fd c) (events c) p] else [])\<rparr>"

lemma loop_removeChannel_eq:
  assumes "channels_inv w" and "chans w p = Some c" and "chan_loop c = ownerLoop w"
    and "isNoneEvent c" and "index c \<noteq> kNew"
  shows "loop_removeChannel p w = Inr (removed p c w)"
  using assms channels_inv_find [OF assms(1,2,5)] channels_inv_index [OF assms(1,2)]
  by (auto simp: poller_ops removed_def index_values Let_def)

lemma epoll_inv_removed:
  assumes "epoll_inv w" and "chans w p = Some c" and "index c \<noteq> kNew"
  shows "epoll_inv (removed p c w)"
proof -
  have inv: "channels_inv w" and leg: "legal_from Map.empty (ctl_log w)"
    and int: "interest (ctl_log w) = registered w" using assms(1) by (auto simp: epoll_inv_def)
  let ?w = "removed p c w"
  have fp: "smap_find (channels w) (chan_fd c) = Some p"
    using inv assms(2,3) by (rule channels_inv_find)
  have find: "smap_find (channels ?w) = (smap_find (channels w))(chan_fd c := None)"
    using inv by (simp add: removed_def channels_inv_def fun_eq_iff)
  have ch: "chans ?w = (chans w)(p \<mapsto> setIndex kNew c)" by (simp add: removed_def)
  have other: "smap_find (channels w) fd = Some p \<Longrightarrow> fd = chan_fd c" for fd
    using channels_inv_unique [OF inv _ assms(2)] by blast
  have ci: "channels_inv ?w"
    unfolding channels_inv_def
  proof (intro conjI allI impI)
    show "smap_ok (channels ?w)" using inv by (simp add: removed_def channels_inv_def)
  next
    fix fd q assume "smap_find (channels ?w) fd = Some q"
    then have "fd \<noteq> chan_fd c" and q: "smap_find (channels w) fd = Some q"
      unfolding find by (auto split: if_splits)
    with other have "q \<noteq> p" by blast
    with q inv ch show "\<exists>d. chans ?w q = Some d \<and> chan_fd d = fd \<and> (index d = kAdded \<or> index d = kDeleted)"
      by (simp add: channels_inv_def)
  next
    fix q d assume q: "chans ?w q = Some d" "index d \<noteq> kNew"
    then have "q \<noteq> p" unfolding ch by (auto split: if_splits)
    with q ch have "smap_find (channels w) (chan_fd d) = Some q"
      using channels_inv_find [OF inv] by simp
    with \<open>q \<noteq> p\<close> fp show "smap_find (channels ?w) (chan_fd d) = Some q"
      unfolding find by auto
  qed
  have reg: "registered ?w = (registered w)(chan_fd c := None)"
    using other by (auto simp: fun_eq_iff registered_def find ch split: option.splits)
  have "registered w (chan_fd c) = (if index c = kAdded then Some (events c, p) else None)"
    using fp assms(2) by (simp add: registered_def)
  then have "(registered w)(chan_fd c := None) = registered w \<or> index c = kAdded"
    by (auto simp: fun_eq_iff)
  then show ?thesis
    using ci leg int reg \<open>registered w (chan_fd c) = _\<close>
    by (auto simp: epoll_inv_def removed_def [of p c w] simp flip: fun_upd_apply)
qed

lemma epoll_inv_alloc:
  assumes "epoll_inv w" and "chans w p = None"
  shows "epoll_inv (w\<lparr>chans := (chans w)(p \<mapsto> Channel_new loop fd)\<rparr>)"
proof -
  let ?w = "w\<lparr>chans := (chans w)(p \<mapsto> Channel_new loop fd)\<rparr>"
  have inv: "channels_inv w" using assms(1) by (simp add: epoll_inv_def)
  have np: "smap_find (channels w) g \<noteq> Some p" for g
    using inv assms(2) unfolding channels_inv_def by fastforce
  have "channels_inv ?w"
    using inv np by (auto simp: channels_inv_def Channel_new_def kNew_def)
  moreover have "registered ?w = registered w"
    using np by (auto simp: registered_def fun_eq_iff split: option.splits)
  ultimately show ?thesis using assms(1) by (simp add: epoll_inv_def)
qed

section \<open>The interface of a poller\<close>

text \<open>
  \<open>BasePoller\<close> is an abstract class. This is its contract: \<open>watched w fd\<close> is the mask and the
  channel for which the kernel reports events on \<open>fd\<close>. Changing the mask of a channel to
  something not empty has the kernel watch exactly that mask, emptying the mask of a watched
  channel stops it, and other descriptors are not affected.
\<close>

locale base_poller =
  fixes ok :: "'w \<Rightarrow> bool"
    and chan :: "'w \<Rightarrow> nat \<Rightarrow> Channel option"
    and usable :: "nat \<Rightarrow> 'w \<Rightarrow> Channel \<Rightarrow> bool"
    and watched :: "'w \<Rightarrow> int \<Rightarrow> (mask \<times> nat) option"
    and change :: "(Channel \<Rightarrow> Channel) \<Rightarrow> nat \<Rightarrow> 'w \<Rightarrow> 'w res"
  assumes change_law: "ok w \<Longrightarrow> usable p w c \<Longrightarrow> remasks f \<Longrightarrow>
      \<exists>w' c'. change f p w = Inr w' \<and> ok w' \<and> usable p w' c' \<and> chan w' p = Some c' \<and>
        chan_fd c' = chan_fd c \<and> events c' = events (f c) \<and>
        (\<not> isNoneEvent (f c) \<longrightarrow> watched w' (chan_fd c) = Some (events (f c), p)) \<and>
        (isNoneEvent (f c) \<longrightarrow> watched w (chan_fd c) \<noteq> None \<longrightarrow> watched w' (chan_fd c) = None) \<and>
        (\<forall>fd. fd \<noteq> chan_fd c \<longrightarrow> watched w' fd = watched w fd)"
begin

lemma enable_watches:
  assumes "ok w" and "usable p w c" and "remasks f" and "\<not> isNoneEvent (f c)"
  shows "\<exists>w'. change f p w = Inr w' \<and> ok w' \<and> watched w' (chan_fd c) = Some (events (f c), p)"
  using change_law [OF assms(1-3)] assms(4) by blast

lemma disable_then_enable:
  assumes "ok w" and "usable p w c" and "watched w (chan_fd c) \<noteq> None"
  shows "\<exists>w1 w2. change without_events p w = Inr w1 \<and> watched w1 (chan_fd c) = None \<and>
      change with_reading p w1 = Inr w2 \<and> ok w2 \<and> watched w2 (chan_fd c) = Some (kReadEvent, p)"
proof -
  from change_law [OF assms(1,2), of without_events] assms(3) obtain w1 c1 where
    w1: "change without_events p w = Inr w1" "ok w1" "usable p w1 c1" "chan_fd c1 = chan_fd c"
      "events c1 = events (without_events c)" "watched w1 (chan_fd c) = None"
    by auto
  have "events (with_reading c1) = kReadEvent"
    using w1(5) by (simp add: with_reading_def without_events_def kNoneEvent_def)
  moreover from change_law [OF w1(2,3), of with_reading] obtain w2 where
    "change with_reading p w1 = Inr w2" "ok w2"
    "watched w2 (chan_fd c1) = Some (events (with_reading c1), p)" by auto
  ultimately show ?thesis using w1 by auto
qed

end

lemma ready_updated:
  assumes "channels_inv w" and "ready p w c" and "remasks f"
  shows "ready p (updated p (f c) w) (setIndex (next_index (f c)) (f c))"
  using assms remasks_fields [OF assms(3), of c]
  by (simp add: ready_def updated_def index_values)

interpretation ep: base_poller "epoll_inv :: 'w poll_world_scheme \<Rightarrow> bool" chans ready
  "\<lambda>w. interest (ctl_log w)" change_events
proof unfold_locales
  fix w :: "'w poll_world_scheme" and p c f
  assume a: "epoll_inv w" "ready p w c" "remasks f"
  have inv: "channels_inv w" and int: "interest (ctl_log w) = registered w"
    using a(1) by (auto simp: epoll_inv_def)
  have c: "chans w p = Some c" using a(2) by (simp add: ready_def)
  let ?w = "updated p (f c) w" and ?c = "setIndex (next_index (f c)) (f c)"
  have ch: "chans ?w p = Some ?c" by (simp add: updated_def)
  have int': "interest (ctl_log ?w) = (registered w)(chan_fd c :=
       (if index c = kAdded \<and> isNoneEvent (f c) then None else Some (events (f c), p)))"
    using epoll_inv_updated [OF a] registered_updated [OF inv a(2,3)] by (simp add: epoll_inv_def)
  have "registered w (chan_fd c) \<noteq> None \<Longrightarrow> index c = kAdded"
    using c channels_inv_find [OF inv c] a(2)
    by (cases "index c = kNew") (auto simp: registered_def ready_def split: if_splits)
  then show "\<exists>w' c'. change_events f p w = Inr w' \<and> epoll_inv w' \<and> ready p w' c' \<and>
        chans w' p = Some c' \<and> chan_fd c' = chan_fd c \<and> events c' = events (f c) \<and>
        (\<not> isNoneEvent (f c) \<longrightarrow> interest (ctl_log w') (chan_fd c) = Some (events (f c), p)) \<and>
        (isNoneEvent (f c) \<longrightarrow> interest (ctl_log w) (chan_fd c) \<noteq> None \<longrightarrow>
          interest (ctl_log w') (chan_fd c) = None) \<and>
        (\<forall>fd. fd \<noteq> chan_fd c \<longrightarrow> interest (ctl_log w') fd = interest (ctl_log w) fd)"
    using change_events_eq [OF inv a(2,3)] epoll_inv_updated [OF a] ready_updated [OF inv a(2,3)]
      remasks_fields(1) [OF a(3), of c]
    by (intro exI [of _ ?w] exI [of _ ?c]) (simp add: int int' ch del: next_index.simps)
qed

section \<open>Sequences of operations\<close>

datatype chan_op = EnableReading | EnableWriting | DisableWriting | DisableAll | Remove

fun chan_step :: "nat \<times> chan_op \<Rightarrow> 'w poll_world_scheme \<Rightarrow> 'w poll_world_scheme res" where
  "chan_step (p, EnableReading) w = enableReading p w"
| "chan_step (p, EnableWriting) w = enableWriting p w"
| "chan_step (p, DisableWriting) w = disableWriting p w"
| "chan_step (p, DisableAll) w = disableAll p w"
| "chan_step (p, Remove) w = loop_removeChannel p w"

lemmas chan_step_change = enableReading_def enableWriting_def disableWriting_def disableAll_def

lemma change_events_inv:
  assumes "epoll_inv w" and "remasks f" and "change_events f p w = Inr w'"
  shows "epoll_inv w'"
proof -
  have inv: "channels_inv w" using assms(1) by (simp add: epoll_inv_def)
  from assms(3) obtain c where c: "chans w p = Some c"
    by (auto simp: change_events_def with_chan_def split: option.splits)
  note ff = remasks_fields [OF assms(2), of c]
  have "chan_loop c = ownerLoop w"
    using assms(3) c ff by (auto simp: change_events_def poller_ops res_simps)
  moreover have "index c = kNew \<Longrightarrow> smap_find (channels w) (chan_fd c) = None"
    using assms(3) c ff by (auto simp: change_events_def poller_ops res_simps)
  ultimately have r: "ready p w c" using c by (simp add: ready_def)
  from change_events_eq [OF inv r assms(2)] assms(3) epoll_inv_updated [OF assms(1) r assms(2)]
  show ?thesis by simp
qed

lemma loop_removeChannel_inv:
  assumes "epoll_inv w" and "loop_removeChannel p w = Inr w'"
  shows "epoll_inv w'"
proof -
  have inv: "channels_inv w" using assms(1) by (simp add: epoll_inv_def)
  from assms(2) obtain c where c: "chans w p = Some c"
    by (auto simp: loop_removeChannel_def with_chan_def split: option.splits)
  have "chan_loop c = ownerLoop w" "isNoneEvent c" "index c \<noteq> kNew"
    using assms(2) c by (auto simp: poller_ops res_simps index_values)
  from loop_removeChannel_eq [OF inv c this] epoll_inv_removed [OF assms(1) c this(3)] assms(2)
  show ?thesis by simp
qed

lemma chan_step_inv: "epoll_inv w \<Longrightarrow> chan_step x w = Inr w' \<Longrightarrow> epoll_inv w'"
  by (induction x w rule: chan_step.induct)
    (auto simp: chan_step_change intro: loop_removeChannel_inv change_events_inv [rotated 2])

section \<open>Active channels\<close>

lemma fill_active_ok:
  assumes "channels_inv w"
    and "\<forall>e \<in> set evs. \<exists>c. chans w (snd e) = Some c \<and> index c \<noteq> kNew"
  shows "\<exists>w'. fill_active evs active w = Inr (active @ map snd evs, w') \<and> channels_inv w' \<and>
      channels w' = channels w \<and> events_size w' = events_size w \<and> ctl_log w' = ctl_log w \<and>
      (\<forall>p. map_option events (chans w' p) = map_option events (chans w p))"
  using assms
proof (induction evs active w rule: fill_active.induct)
  case (1 active w)
  then show ?case by simp
next
  case (2 ev p evs active w)
  from 2(3) obtain c where c: "chans w p = Some c" "index c \<noteq> kNew" by auto
  have find: "smap_find (channels w) (chan_fd c) = Some p" using 2(2) c by (rule channels_inv_find)
  let ?w = "put_chan p (setRevents ev c) w"
  have inv: "channels_inv ?w"
    using 2(2) c channels_inv_index [OF 2(2) c(1)] channels_inv_unique [OF 2(2) _ c(1)]
    by (auto simp: channels_inv_def put_chan_def setRevents_def)
  have "\<forall>e \<in> set evs. \<exists>c. chans ?w (snd e) = Some c \<and> index c \<noteq> kNew"
    using 2(3) c by (auto simp: put_chan_def setRevents_def)
  from 2(1) [OF inv this] obtain w' where
    w': "fill_active evs (active @ [p]) ?w = Inr ((active @ [p]) @ map snd evs, w')" "channels_inv w'"
      "channels w' = channels ?w" "events_size w' = events_size ?w" "ctl_log w' = ctl_log ?w"
      "\<forall>q. map_option events (chans w' q) = map_option events (chans ?w q)" by auto
  have "\<forall>q. map_option events (chans ?w q) = map_option events (chans w q)"
    using c by (simp add: put_chan_def setRevents_def)
  with w' find c show ?case by (auto simp: with_chan_def put_chan_def)
qed

section \<open>Properties\<close>

text \<open>A loop with one channel for descriptor 5, and the same after \<open>enableReading\<close>.\<close>

definition sample_poller :: poll_world where
  "sample_poller = (EPoller_new 1)\<lparr>chans := [10 \<mapsto> Channel_new 1 5]\<rparr>"

lemma sample_poller_ok: "epoll_inv sample_poller" "ready 10 sample_poller (Channel_new 1 5)"
proof -
  have "chans (EPoller_new 1) 10 = None" by (simp add: EPoller_new_def)
  from epoll_inv_alloc [OF epoll_inv_new this, of 1 5] show "epoll_inv sample_poller"
    by (simp add: sample_poller_def EPoller_new_def)
qed (simp add: ready_def sample_poller_def Channel_new_def EPoller_new_def)



text \<open>
  The contract of \<open>BasePoller\<close> holds for \<open>EPoller\<close>: a watched channel that is disabled is no
  longer watched, and when reading is enabled again the kernel watches it again.
\<close>

theorem epoll_disable_then_enable:
  fixes w :: "'w poll_world_scheme"
  assumes "epoll_inv w" and "ready p w c" and "interest (ctl_log w) (chan_fd c) \<noteq> None"
  shows "\<exists>w1 w2. disableAll p w = Inr w1 \<and> interest (ctl_log w1) (chan_fd c) = None \<and>
      enableReading p w1 = Inr w2 \<and> epoll_inv w2 \<and>
      interest (ctl_log w2) (chan_fd c) = Some (kReadEvent, p)"
  using ep.disable_then_enable [OF assms] by (simp add: disableAll_def enableReading_def)

theorem epoll_disable_then_enable_witness:
  "\<exists>w c w1 w2. enableReading 10 sample_poller = Inr w \<and> chans w 10 = Some c \<and>
      disableAll 10 w = Inr w1 \<and> interest (ctl_log w1) 5 = None \<and>
      enableReading 10 w1 = Inr w2 \<and> interest (ctl_log w2) 5 = Some (kReadEvent, 10)"
proof -
  let ?c = "Channel_new 1 5"
  from ep.change_law [OF sample_poller_ok, of with_reading] obtain w c where
    w: "change_events with_reading 10 sample_poller = Inr w" "epoll_inv w" "ready 10 w c"
      "chans w 10 = Some c" "chan_fd c = chan_fd ?c"
      "interest (ctl_log w) (chan_fd ?c) = Some (events (with_reading ?c), 10)" by auto
  then have fd: "chan_fd c = 5" by (simp add: Channel_new_def)
  have "interest (ctl_log w) (chan_fd c) \<noteq> None" using w(5,6) by simp
  from epoll_disable_then_enable [OF w(2,3) this] w(1,4) fd show ?thesis
    by (auto simp: enableReading_def)
qed

text \<open>
  \<open>disableAll\<close> is not idempotent: on a channel that is already disabled it registers the
  descriptor with the kernel again, with an empty mask, so that hang-ups and errors are reported
  for it.
\<close>

theorem disableAll_twice:
  fixes w :: "'w poll_world_scheme"
  assumes "epoll_inv w" and "ready p w c" and "index c = kAdded"
  shows "\<exists>w1 w2. disableAll p w = Inr w1 \<and> interest (ctl_log w1) (chan_fd c) = None \<and>
      disableAll p w1 = Inr w2 \<and> interest (ctl_log w2) (chan_fd c) = Some (kNoneEvent, p)"
proof -
  have inv: "channels_inv w" using assms(1) by (simp add: epoll_inv_def)
  let ?w1 = "updated p (without_events c) w"
  let ?c1 = "setIndex (next_index (without_events c)) (without_events c)"
  have i: "index (without_events c) = kAdded" "chan_fd (without_events c) = chan_fd c"
    using assms(3) by (simp_all add: without_events_def)
  have w1: "epoll_inv ?w1" "ready p ?w1 ?c1" "channels_inv ?w1"
    using epoll_inv_updated [OF assms(1,2) remasks_ops(4)] ready_updated [OF inv assms(2) remasks_ops(4)]
      channels_inv_updated [OF inv assms(2) remasks_ops(4)] by blast+
  have ic1: "index ?c1 = kDeleted" "chan_fd ?c1 = chan_fd c" using i by simp_all
  let ?w2 = "updated p (without_events ?c1) ?w1"
  have "interest (ctl_log ?w1) (chan_fd c) = None"
    using w1(1) registered_updated [OF inv assms(2) remasks_ops(4)] assms(3)
    by (simp add: epoll_inv_def del: next_index.simps)
  moreover have "interest (ctl_log ?w2) (chan_fd c) = Some (kNoneEvent, p)"
    using epoll_inv_updated [OF w1(1,2) remasks_ops(4)]
      registered_updated [OF w1(3,2) remasks_ops(4)] ic1
    by (simp add: epoll_inv_def index_values without_events_def del: next_index.simps)
  ultimately show ?thesis
    using change_events_eq [OF inv assms(2) remasks_ops(4)] change_events_eq [OF w1(3,2) remasks_ops(4)]
    by (simp add: disableAll_def)
qed

theorem disableAll_twice_witness:
  "\<exists>w c w1 w2. enableReading 10 sample_poller = Inr w \<and> chans w 10 = Some c \<and> disableAll 10 w = Inr w1 \<and>
      disableAll 10 w1 = Inr w2 \<and> interest (ctl_log w2) (chan_fd c) = Some (kNoneEvent, 10)"
proof -
  have inv: "channels_inv sample_poller" using sample_poller_ok(1) by (simp add: epoll_inv_def)
  let ?c = "setIndex (next_index (with_reading (Channel_new 1 5))) (with_reading (Channel_new 1 5))"
  let ?w = "updated 10 (with_reading (Channel_new 1 5)) sample_poller"
  have ok: "epoll_inv ?w" "ready 10 ?w ?c"
    using epoll_inv_updated [OF sample_poller_ok remasks_ops(1)]
      ready_updated [OF inv sample_poller_ok(2) remasks_ops(1)] by blast+
  have "index ?c = kAdded" by simp
  from disableAll_twice [OF ok this] change_events_eq [OF inv sample_poller_ok(2) remasks_ops(1)] ok(2)
  show ?thesis by (auto simp: enableReading_def ready_def)
qed

text \<open>
  \<open>poll\<close> hands back exactly the channels the kernel reported, in its order, without touching
  their masks or the interest list, and doubles the event array when it was filled. The time it
  returns is the low 32 bits of the current time in microseconds, not the time.
\<close>

theorem epoll_poll_spec:
  fixes w :: "'w poll_world_scheme"
  assumes "epoll_inv w" and "length evs \<le> events_size w"
    and "\<forall>e \<in> set evs. \<exists>c. chans w (snd e) = Some c \<and> index c \<noteq> kNew"
  shows "\<exists>w'. epoll_poll (Wait_events evs) time [] w = Inr (to_int32 time, map snd evs, w') \<and>
      ctl_log w' = ctl_log w \<and> channels w' = channels w \<and>
      (\<forall>p. map_option events (chans w' p) = map_option events (chans w p)) \<and>
      events_size w' = (if evs \<noteq> [] \<and> length evs = events_size w then 2 * events_size w else events_size w)"
proof (cases "evs = []")
  case True
  then show ?thesis by (simp add: epoll_poll_def)
next
  case False
  have "channels_inv w" using assms(1) by (simp add: epoll_inv_def)
  from fill_active_ok [OF this assms(3), of "[]"] False assms(2) show ?thesis
    by (auto simp: epoll_poll_def fillActiveChannels_def Let_def)
qed

theorem epoll_poll_spec_witness:
  "\<exists>w w'. enableReading 10 sample_poller = Inr w \<and>
      epoll_poll (Wait_events [(POLLIN, 10)]) 1700000000000000 [] w = Inr (404635648, [10], w')"
proof -
  have inv: "channels_inv sample_poller" using sample_poller_ok(1) by (simp add: epoll_inv_def)
  let ?c = "with_reading (Channel_new 1 5)"
  let ?w = "updated 10 ?c sample_poller"
  have e: "enableReading 10 sample_poller = Inr ?w"
    using change_events_eq [OF inv sample_poller_ok(2) remasks_ops(1)] by (simp add: enableReading_def)
  have ok: "epoll_inv ?w" using epoll_inv_updated [OF sample_poller_ok remasks_ops(1)] .
  have n: "length [(POLLIN, 10::nat)] \<le> events_size ?w"
    by (simp add: updated_def sample_poller_def EPoller_new_def kInitEventListSize_def)
  have r: "\<forall>e \<in> set [(POLLIN, 10::nat)]. \<exists>c. chans ?w (snd e) = Some c \<and> index c \<noteq> kNew"
    by (simp add: updated_def index_values)
  have "to_int32 1700000000000000 = 404635648" by (simp add: to_int32_def)
  with epoll_poll_spec [OF ok n r, of 1700000000000000] e show ?thesis by auto
qed

end
