(* ===== verification/Timestamp.thy ===== *)
theory Timestamp
  imports Complex_Main Tractor_Prelude
begin

text \<open>
  \<open>include/tractor/Timestamp.h\<close>, \<open>src/Timestamp.cpp\<close>, \<open>include/tractor/Timer.h\<close> and \<open>src/Timer.cpp\<close>.
  A \<open>double\<close> is the rational number it stands for, and the rounding of a floating-point operation
  is the argument \<open>fl\<close> of the definitions that multiply or divide. The clock (\<open>gettimeofday\<close>) and
  the calendar (\<open>gmtime_r\<close>) are arguments as well. Signed overflow is a fault.
\<close>

section \<open>Conversions\<close>

type_synonym double = rat

text \<open>\<open>static_cast<int64_t>\<close> of a double drops the fraction; out of range it is undefined.\<close>

definition to_int64 :: "double \<Rightarrow> int res" where
  "to_int64 x = checked64 (if 0 \<le> x then \<lfloor>x\<rfloor> else \<lceil>x\<rceil>)"

definition kMicroSecondsPerSecond :: int where
  "kMicroSecondsPerSecond = 1000 * 1000"

section \<open>Timestamp\<close>

record Timestamp =
  microSecondsSinceEpoch :: int

definition Timestamp_default :: Timestamp where
  "Timestamp_default = \<lparr>microSecondsSinceEpoch = 0\<rparr>"

definition Timestamp_of :: "int \<Rightarrow> Timestamp" where
  "Timestamp_of us = \<lparr>microSecondsSinceEpoch = us\<rparr>"

definition Timestamp_swap :: "Timestamp \<Rightarrow> Timestamp \<Rightarrow> Timestamp \<times> Timestamp" where
  "Timestamp_swap a that = (that, a)"

definition isValid :: "Timestamp \<Rightarrow> bool" where
  "isValid a \<longleftrightarrow> 0 < microSecondsSinceEpoch a"

definition getMicroSecondsSinceEpoch :: "Timestamp \<Rightarrow> int" where
  "getMicroSecondsSinceEpoch a = microSecondsSinceEpoch a"

definition secondsSinceEpoch :: "Timestamp \<Rightarrow> int" where
  "secondsSinceEpoch a = c_div (microSecondsSinceEpoch a) kMicroSecondsPerSecond"

definition Timestamp_invalid :: Timestamp where
  "Timestamp_invalid = Timestamp_default"

text \<open>\<open>gettimeofday\<close> delivers seconds and microseconds.\<close>

definition time_us :: "int \<Rightarrow> int \<Rightarrow> int res" where
  "time_us seconds usec =
     andthen (checked64 (seconds * kMicroSecondsPerSecond)) (\<lambda>x. checked64 (x + usec))"

definition Timestamp_now :: "int \<times> int \<Rightarrow> Timestamp res" where
  "Timestamp_now tv = andthen (time_us (fst tv) (snd tv)) (\<lambda>us. Inr (Timestamp_of us))"

definition fromUnixTime :: "int \<Rightarrow> int \<Rightarrow> Timestamp res" where
  "fromUnixTime t microseconds = andthen (time_us t microseconds) (\<lambda>us. Inr (Timestamp_of us))"

definition fromUnixTime0 :: "int \<Rightarrow> Timestamp res" where
  "fromUnixTime0 t = fromUnixTime t 0"

definition Timestamp_toString :: "Timestamp \<Rightarrow> string" where
  "Timestamp_toString a =
     (let seconds = c_div (microSecondsSinceEpoch a) kMicroSecondsPerSecond;
          microseconds = c_mod (microSecondsSinceEpoch a) kMicroSecondsPerSecond
      in snprintf 32 (print_int seconds @ ''.'' @ print_int0 6 microseconds))"

definition print_width :: "nat \<Rightarrow> int \<Rightarrow> string" where
  "print_width w i = replicate (w - length (print_int i)) (CHR '' '') @ print_int i"

definition toFormattedString :: "(int \<Rightarrow> tm) \<Rightarrow> bool \<Rightarrow> Timestamp \<Rightarrow> string" where
  "toFormattedString gmtime showMicroseconds a =
     (let seconds = c_div (microSecondsSinceEpoch a) kMicroSecondsPerSecond;
          t = gmtime seconds;
          day = print_width 4 (tm_year t + 1900) @ print_int0 2 (tm_mon t + 1) @ print_int0 2 (tm_mday t) @ '' '' @
            print_int0 2 (tm_hour t) @ '':'' @ print_int0 2 (tm_min t) @ '':'' @ print_int0 2 (tm_sec t)
      in if showMicroseconds
         then (let microseconds = to_int32 (c_mod (microSecondsSinceEpoch a) kMicroSecondsPerSecond)
               in snprintf 64 (day @ ''.'' @ print_int0 6 microseconds))
         else snprintf 64 day)"

definition Timestamp_less :: "Timestamp \<Rightarrow> Timestamp \<Rightarrow> bool" where
  "Timestamp_less lhs rhs \<longleftrightarrow> getMicroSecondsSinceEpoch lhs < getMicroSecondsSinceEpoch rhs"

definition Timestamp_equal :: "Timestamp \<Rightarrow> Timestamp \<Rightarrow> bool" where
  "Timestamp_equal lhs rhs \<longleftrightarrow> getMicroSecondsSinceEpoch lhs = getMicroSecondsSinceEpoch rhs"

definition timeDifference :: "(rat \<Rightarrow> double) \<Rightarrow> Timestamp \<Rightarrow> Timestamp \<Rightarrow> double res" where
  "timeDifference fl high low =
     andthen (checked64 (getMicroSecondsSinceEpoch high - getMicroSecondsSinceEpoch low))
       (\<lambda>diff. Inr (fl (fl (of_int diff) / of_int kMicroSecondsPerSecond)))"

definition addTime :: "(rat \<Rightarrow> double) \<Rightarrow> Timestamp \<Rightarrow> double \<Rightarrow> Timestamp res" where
  "addTime fl a seconds =
     andthen (to_int64 (fl (seconds * of_int kMicroSecondsPerSecond))) (\<lambda>delta.
     andthen (checked64 (getMicroSecondsSinceEpoch a + delta)) (\<lambda>us. Inr (Timestamp_of us)))"

section \<open>Timer\<close>

record 'cb Timer =
  callback :: 'cb
  expiration :: int
  interval :: double
  repeats :: bool

definition Timer_new :: "'cb \<Rightarrow> int \<Rightarrow> double \<Rightarrow> 'cb Timer" where
  "Timer_new cb when_us ival =
     \<lparr>callback = cb, expiration = when_us, interval = ival, repeats = (0 < ival)\<rparr>"

definition Timer_restart :: "(rat \<Rightarrow> double) \<Rightarrow> int \<Rightarrow> 'cb Timer \<Rightarrow> 'cb Timer res" where
  "Timer_restart fl now t =
     (if repeats t
      then andthen (to_int64 (fl (interval t * of_int kMicroSecondsPerSecond))) (\<lambda>delta.
           andthen (checked64 (now + delta)) (\<lambda>e. Inr (t\<lparr>expiration := e\<rparr>)))
      else Inr (t\<lparr>expiration := 0\<rparr>))"

definition Timer_now :: "int \<times> int \<Rightarrow> int res" where
  "Timer_now tv = time_us (fst tv) (snd tv)"

section \<open>Lemmas\<close>

lemma time_us_ok:
  assumes "0 \<le> s" and "s \<le> 9000000000000" and "0 \<le> us" and "us < 1000000"
  shows "time_us s us = Inr (s * 1000000 + us)"
  using assms by (simp add: time_us_def kMicroSecondsPerSecond_def checked64_def in_int64_def)

lemma print_int0_nonneg:
  assumes "0 \<le> i" and "i < 10 ^ w" and "0 < w"
  shows "length (print_int0 w i) = w" and "read_dec (print_int0 w i) = nat i"
proof -
  have "length (print_nat (nat i)) \<le> w"
    using assms by (intro length_print_nat) (auto simp: nat_less_iff)
  then show "length (print_int0 w i) = w" using assms by (simp add: print_int0_def Let_def)
  have zeros: "read_dec (replicate n (CHR ''0'') @ s) = read_dec s" for n s
    by (induction n) (simp_all add: read_dec_def)
  show "read_dec (print_int0 w i) = nat i" using assms by (simp add: print_int0_def Let_def zeros)
qed

text \<open>
  The text of a timestamp that is not negative is never truncated and can be read back: the
  digits before the point are the seconds and the six digits after it the microseconds.
\<close>

theorem Timestamp_toString_roundtrip:
  assumes "0 \<le> microSecondsSinceEpoch a" and "microSecondsSinceEpoch a < 2 ^ 63"
  shows "\<exists>s u. Timestamp_toString a = s @ ''.'' @ u \<and> length u = 6 \<and> CHR ''.'' \<notin> set s \<and>
     int (read_dec s) * 1000000 + int (read_dec u) = microSecondsSinceEpoch a"
proof -
  let ?us = "microSecondsSinceEpoch a"
  let ?s = "print_nat (nat (?us div 1000000))" and ?u = "print_int0 6 (?us mod 1000000)"
  have u: "length ?u = 6" "read_dec ?u = nat (?us mod 1000000)"
    by (rule print_int0_nonneg; simp)+
  have "nat (?us div 1000000) < 10 ^ 13" using assms by (simp add: nat_less_iff)
  then have "length ?s \<le> 13" by (intro length_print_nat) auto
  then have "Timestamp_toString a = ?s @ ''.'' @ ?u"
    using assms u(1) by (simp add: Timestamp_toString_def kMicroSecondsPerSecond_def print_int_def
        snprintf_fits Let_def pos_imp_zdiv_neg_iff)
  moreover have "CHR ''.'' \<notin> set ?s"
    using print_nat_digits [of "CHR ''.''"] by (auto simp: is_digit_def)
  moreover have "int (read_dec ?s) * 1000000 + int (read_dec ?u) = ?us"
    using assms(1) u(2) by (simp add: pos_imp_zdiv_nonneg_iff)
  ultimately show ?thesis using u(1) by blast
qed

theorem Timestamp_toString_roundtrip_witness:
  "\<exists>s u. Timestamp_toString (Timestamp_of 1700000000000042) = s @ ''.'' @ u \<and> length u = 6 \<and>
     CHR ''.'' \<notin> set s \<and> int (read_dec s) * 1000000 + int (read_dec u) = 1700000000000042"
  using Timestamp_toString_roundtrip [of "Timestamp_of 1700000000000042"] by (simp add: Timestamp_of_def)

text \<open>
  \<open>fromUnixTime\<close> and \<open>secondsSinceEpoch\<close> are inverse: for a time between 1970 and the year
  287000 with less than a second of microseconds no step overflows, the seconds are recovered,
  and the order of timestamps is the order of the times.
\<close>

theorem fromUnixTime_roundtrip:
  assumes "0 \<le> s" and "s \<le> 9000000000000" and "0 \<le> us" and "us < 1000000"
    and "0 \<le> s'" and "s' \<le> 9000000000000" and "0 \<le> us'" and "us' < 1000000"
  shows "\<exists>a b. fromUnixTime s us = Inr a \<and> fromUnixTime s' us' = Inr b \<and> secondsSinceEpoch a = s \<and>
     (Timestamp_less a b \<longleftrightarrow> s < s' \<or> s = s' \<and> us < us')"
  using assms time_us_ok [OF assms(1-4)] time_us_ok [OF assms(5-8)]
  by (auto simp: fromUnixTime_def Timestamp_of_def secondsSinceEpoch_def kMicroSecondsPerSecond_def
      Timestamp_less_def getMicroSecondsSinceEpoch_def)

theorem fromUnixTime_roundtrip_witness:
  "\<exists>a b. fromUnixTime 1700000000 5 = Inr a \<and> fromUnixTime 1700000001 0 = Inr b \<and>
     secondsSinceEpoch a = 1700000000 \<and> Timestamp_less a b"
  using fromUnixTime_roundtrip [of 1700000000 5 1700000001 0] by auto

end
