(* ===== verification/Event_Loop.thy ===== *)
theory Event_Loop
  imports EPoller Timestamp
begin

text \<open>
  \<open>include/tractor/EventLoop.h\<close> and \<open>src/EventLoop.cpp\<close>. The state of the loop extends the state of
  its poller. Functors have a type \<open>'f\<close> of their own; what calling one does is an argument
  \<open>exec\<close> of the operations that call it, and \<open>destroy\<close> is what its destructor does when the
  vector of functors dies. Operations that any thread may call take the id of the calling thread.
  \<open>wakeupFd_\<close> is never initialised, so its value is an argument of the constructor; the writes
  to it are recorded in \<open>wakeup_log\<close>. The last sections model the threads that post functors
  and the loop that runs them as a transition system whose steps are the critical sections.
\<close>

section \<open>State\<close>

record 'f loop_world = poll_world +
  looping :: bool
  quit :: bool
  callingPendingFunctors :: bool
  threadId :: int
  pollReturnTime :: int
  timerQueue :: "nat option"
  wakeupFd :: int
  wakeupChannel :: nat
  activeChannels :: "nat list"
  pendingFunctors :: "'f list"
  wakeup_log :: "int list"

text \<open>
  The constructor allocates the wakeup channel at the address \<open>p\<close>; it registers it nowhere and
  leaves \<open>timerQueue_\<close> null. The second result is the thread-local \<open>t_loopInThisThread\<close>.
\<close>

definition EventLoop_new ::
    "nat \<Rightarrow> int \<Rightarrow> int \<Rightarrow> nat \<Rightarrow> nat option \<Rightarrow> 'f loop_world \<times> nat option" where
  "EventLoop_new this tid fd p t_loopInThisThread =
     (poll_world.extend (put_chan p (Channel_new this fd) (EPoller_new this))
        \<lparr>looping = False, quit = False, callingPendingFunctors = False, threadId = tid,
         pollReturnTime = 0, timerQueue = None, wakeupFd = fd, wakeupChannel = p,
         activeChannels = [], pendingFunctors = [], wakeup_log = []\<rparr>,
      case t_loopInThisThread of None \<Rightarrow> Some this | Some l \<Rightarrow> Some l)"

definition EventLoop_delete :: "('f, 'w) loop_world_scheme \<Rightarrow> nat option res" where
  "EventLoop_delete w = asserting (\<not> looping w) (Inr None)"

definition isInLoopThread :: "int \<Rightarrow> ('f, 'w) loop_world_scheme \<Rightarrow> bool" where
  "isInLoopThread tid w \<longleftrightarrow> threadId w = tid"

text \<open>\<open>abortNotInLoopThread_\<close> prints and returns, so the check never stops the caller.\<close>

definition assertInLoopThread ::
    "int \<Rightarrow> ('f, 'w) loop_world_scheme \<Rightarrow> ('f, 'w) loop_world_scheme res" where
  "assertInLoopThread tid w = (if \<not> isInLoopThread tid w then Inr w else Inr w)"

lemma assertInLoopThread_returns [simp]: "assertInLoopThread tid w = Inr w"
  by (simp add: assertInLoopThread_def)

definition EventLoop_quit :: "('f, 'w) loop_world_scheme \<Rightarrow> ('f, 'w) loop_world_scheme" where
  "EventLoop_quit w = w\<lparr>quit := True\<rparr>"

section \<open>Functors\<close>

definition wakeup :: "('f, 'w) loop_world_scheme \<Rightarrow> ('f, 'w) loop_world_scheme" where
  "wakeup w = w\<lparr>wakeup_log := wakeup_log w @ [wakeupFd w]\<rparr>"

text \<open>The critical section of \<open>queueInLoop\<close>.\<close>

definition push_functor :: "'f \<Rightarrow> ('f, 'w) loop_world_scheme \<Rightarrow> ('f, 'w) loop_world_scheme" where
  "push_functor cb w = w\<lparr>pendingFunctors := pendingFunctors w @ [cb]\<rparr>"

definition queueInLoop ::
    "int \<Rightarrow> 'f \<Rightarrow> ('f, 'w) loop_world_scheme \<Rightarrow> ('f, 'w) loop_world_scheme" where
  "queueInLoop tid cb w =
     (let w1 = push_functor cb w
      in if \<not> isInLoopThread tid w1 \<or> callingPendingFunctors w1 then wakeup w1 else w1)"

definition runInLoop ::
    "('f \<Rightarrow> ('f, 'w) loop_world_scheme \<Rightarrow> ('f, 'w) loop_world_scheme res) \<Rightarrow> int \<Rightarrow> 'f \<Rightarrow>
     ('f, 'w) loop_world_scheme \<Rightarrow> ('f, 'w) loop_world_scheme res" where
  "runInLoop exec tid cb w =
     (if isInLoopThread tid w then exec cb w else Inr (queueInLoop tid cb w))"

text \<open>The three parts of \<open>doPendingFunctors\<close>: up to the end of the critical section, the calls, the rest.\<close>

definition take_pending :: "('f, 'w) loop_world_scheme \<Rightarrow> 'f list \<times> ('f, 'w) loop_world_scheme" where
  "take_pending w = (pendingFunctors w, w\<lparr>callingPendingFunctors := True, pendingFunctors := []\<rparr>)"

definition end_pending :: "('f, 'w) loop_world_scheme \<Rightarrow> ('f, 'w) loop_world_scheme" where
  "end_pending w = w\<lparr>callingPendingFunctors := False\<rparr>"

definition doPendingFunctors ::
    "('f \<Rightarrow> ('f, 'w) loop_world_scheme \<Rightarrow> ('f, 'w) loop_world_scheme res) \<Rightarrow>
     ('f \<Rightarrow> ('f, 'w) loop_world_scheme \<Rightarrow> ('f, 'w) loop_world_scheme res) \<Rightarrow>
     ('f, 'w) loop_world_scheme \<Rightarrow> ('f, 'w) loop_world_scheme res" where
  "doPendingFunctors exec destroy w =
     (let (functors, w1) = take_pending w
      in andthen (fold_res exec functors w1)
           (\<lambda>w2. fold_res destroy functors (end_pending w2)))"

section \<open>Timers\<close>

text \<open>
  \<open>addTimer\<close> is the operation of the timer queue at a given address; see the theory \<open>Timer_Queue\<close>.
  The arithmetic on the clock is done in doubles.
\<close>

definition runAt ::
    "(nat \<Rightarrow> 'cb \<Rightarrow> int \<Rightarrow> double \<Rightarrow> ('f, 'w) loop_world_scheme \<Rightarrow> ('f, 'w) loop_world_scheme res) \<Rightarrow>
     int \<Rightarrow> 'cb \<Rightarrow> ('f, 'w) loop_world_scheme \<Rightarrow> ('f, 'w) loop_world_scheme res" where
  "runAt addTimer time cb w =
     (case timerQueue w of None \<Rightarrow> Inl Null_deref | Some q \<Rightarrow> addTimer q cb time 0 w)"

definition time_after :: "(rat \<Rightarrow> double) \<Rightarrow> int \<times> int \<Rightarrow> double \<Rightarrow> int res" where
  "time_after fl tv delay =
     andthen (to_int64 (fl (fl (fl (of_int (fst tv)) * 1000000) + fl (of_int (snd tv))))) (\<lambda>currTime.
     andthen (to_int64 (fl (delay * 1000000))) (\<lambda>d. checked64 (currTime + d)))"

definition runAfter ::
    "(nat \<Rightarrow> 'cb \<Rightarrow> int \<Rightarrow> double \<Rightarrow> ('f, 'w) loop_world_scheme \<Rightarrow> ('f, 'w) loop_world_scheme res) \<Rightarrow>
     (rat \<Rightarrow> double) \<Rightarrow> int \<times> int \<Rightarrow> double \<Rightarrow> 'cb \<Rightarrow>
     ('f, 'w) loop_world_scheme \<Rightarrow> ('f, 'w) loop_world_scheme res" where
  "runAfter addTimer fl tv delay cb w =
     andthen (time_after fl tv delay) (\<lambda>time. runAt addTimer time cb w)"

definition runEvery ::
    "(nat \<Rightarrow> 'cb \<Rightarrow> int \<Rightarrow> double \<Rightarrow> ('f, 'w) loop_world_scheme \<Rightarrow> ('f, 'w) loop_world_scheme res) \<Rightarrow>
     (rat \<Rightarrow> double) \<Rightarrow> int \<times> int \<Rightarrow> double \<Rightarrow> 'cb \<Rightarrow>
     ('f, 'w) loop_world_scheme \<Rightarrow> ('f, 'w) loop_world_scheme res" where
  "runEvery addTimer fl tv ival cb w =
     andthen (time_after fl tv ival) (\<lambda>time.
       case timerQueue w of None \<Rightarrow> Inl Null_deref | Some q \<Rightarrow> addTimer q cb time ival w)"

text \<open>
  No operation of the loop sets \<open>timerQueue_\<close>, so on a constructed loop every request for a timer
  dereferences the null pointer.
\<close>

lemma timers_unavailable:
  assumes "time_after fl tv delay = Inr time"
  shows "runAt addTimer time cb (fst (EventLoop_new this tid fd p t)) = Inl Null_deref"
    and "runAfter addTimer fl tv delay cb (fst (EventLoop_new this tid fd p t)) = Inl Null_deref"
    and "runEvery addTimer fl tv delay cb (fst (EventLoop_new this tid fd p t)) = Inl Null_deref"
  using assms
  by (simp_all add: runAt_def runAfter_def runEvery_def EventLoop_new_def poll_world.defs)

section \<open>The loop\<close>

text \<open>
  One turn: the outcome of \<open>epoll_wait\<close> and the time are arguments, \<open>dispatch\<close> is \<open>handleEvent\<close>
  of the channel at an address.
\<close>

definition loop_iteration ::
    "(int \<Rightarrow> nat \<Rightarrow> ('f, 'w) loop_world_scheme \<Rightarrow> ('f, 'w) loop_world_scheme res) \<Rightarrow>
     ('f \<Rightarrow> ('f, 'w) loop_world_scheme \<Rightarrow> ('f, 'w) loop_world_scheme res) \<Rightarrow>
     ('f \<Rightarrow> ('f, 'w) loop_world_scheme \<Rightarrow> ('f, 'w) loop_world_scheme res) \<Rightarrow>
     wait_result \<times> int \<Rightarrow> ('f, 'w) loop_world_scheme \<Rightarrow> ('f, 'w) loop_world_scheme res" where
  "loop_iteration dispatch exec destroy r w =
     andthen (epoll_poll (fst r) (snd r) [] (w\<lparr>activeChannels := []\<rparr>)) (\<lambda>(t, active, w1).
     andthen (fold_res (dispatch t) active (w1\<lparr>pollReturnTime := t, activeChannels := active\<rparr>)) (\<lambda>w2.
     doPendingFunctors exec destroy w2))"

definition loop_start :: "('f, 'w) loop_world_scheme \<Rightarrow> ('f, 'w) loop_world_scheme" where
  "loop_start w = w\<lparr>looping := True, quit := False\<rparr>"

definition loop_end :: "('f, 'w) loop_world_scheme \<Rightarrow> ('f, 'w) loop_world_scheme" where
  "loop_end w = w\<lparr>looping := False\<rparr>"

text \<open>\<open>body i\<close> is the turn number \<open>i\<close>. A loop that does not return is \<open>None\<close>.\<close>

partial_function (option) loop_from ::
    "(nat \<Rightarrow> ('f, 'w) loop_world_scheme \<Rightarrow> ('f, 'w) loop_world_scheme res) \<Rightarrow> nat \<Rightarrow>
     ('f, 'w) loop_world_scheme \<Rightarrow> ('f, 'w) loop_world_scheme res option" where
  "loop_from body i w =
     (if quit w then Some (Inr w)
      else case body i w of
             Inl f \<Rightarrow> Some (Inl f)
           | Inr w' \<Rightarrow> loop_from body (Suc i) w')"

definition EventLoop_loop ::
    "(int \<Rightarrow> nat \<Rightarrow> ('f, 'w) loop_world_scheme \<Rightarrow> ('f, 'w) loop_world_scheme res) \<Rightarrow>
     ('f \<Rightarrow> ('f, 'w) loop_world_scheme \<Rightarrow> ('f, 'w) loop_world_scheme res) \<Rightarrow>
     ('f \<Rightarrow> ('f, 'w) loop_world_scheme \<Rightarrow> ('f, 'w) loop_world_scheme res) \<Rightarrow>
     (nat \<Rightarrow> wait_result \<times> int) \<Rightarrow> int \<Rightarrow>
     ('f, 'w) loop_world_scheme \<Rightarrow> ('f, 'w) loop_world_scheme res option" where
  "EventLoop_loop dispatch exec destroy waits tid w =
     (if looping w then Some (Inl Assert_failed)
      else case assertInLoopThread tid w of
             Inl f \<Rightarrow> Some (Inl f)
           | Inr w0 \<Rightarrow>
               map_option (\<lambda>r. andthen r (\<lambda>w'. Inr (loop_end w')))
                 (loop_from (\<lambda>i. loop_iteration dispatch exec destroy (waits i)) 0 (loop_start w0)))"

text \<open>The states after each turn, for the statement of when the loop returns.\<close>

fun turns :: "(nat \<Rightarrow> 's \<Rightarrow> 's res) \<Rightarrow> nat \<Rightarrow> nat \<Rightarrow> 's \<Rightarrow> 's res" where
  "turns body i 0 w = Inr w"
| "turns body i (Suc n) w = andthen (body i w) (turns body (Suc i) n)"

definition stops :: "('f, 'w) loop_world_scheme res \<Rightarrow> bool" where
  "stops r \<longleftrightarrow> (case r of Inl _ \<Rightarrow> True | Inr w \<Rightarrow> quit w)"

lemma loop_from_stops:
  "stops (turns body i n w) \<Longrightarrow> (\<And>m. m < n \<Longrightarrow> \<not> stops (turns body i m w)) \<Longrightarrow>
   loop_from body i w = Some (turns body i n w)"
proof (induction n arbitrary: i w)
  case 0
  then show ?case by (subst loop_from.simps) (simp add: stops_def)
next
  case (Suc n)
  have "\<not> quit w" using Suc.prems(2) [of 0] by (simp add: stops_def)
  show ?case
  proof (cases "body i w")
    case (Inl f)
    with \<open>\<not> quit w\<close> show ?thesis by (subst loop_from.simps) simp
  next
    case (Inr v)
    have "loop_from body (Suc i) v = Some (turns body (Suc i) n v)"
    proof (rule Suc.IH)
      show "stops (turns body (Suc i) n v)" using Suc.prems(1) Inr by simp
      show "\<not> stops (turns body (Suc i) m v)" if "m < n" for m
        using Suc.prems(2) [of "Suc m"] that Inr by simp
    qed
    with \<open>\<not> quit w\<close> Inr show ?thesis by (subst loop_from.simps) simp
  qed
qed

lemma loop_from_Some:
  assumes "loop_from body i w = Some r"
  shows "\<exists>n. r = turns body i n w \<and> stops r \<and> (\<forall>m<n. \<not> stops (turns body i m w))"
proof (rule loop_from.raw_induct [of "\<lambda>b i w r.
    \<exists>n. r = turns b i n w \<and> stops r \<and> (\<forall>m<n. \<not> stops (turns b i m w))", OF _ assms])
  fix f :: "(nat \<Rightarrow> ('f, 'w) loop_world_scheme \<Rightarrow> ('f, 'w) loop_world_scheme res) \<Rightarrow> nat \<Rightarrow>
     ('f, 'w) loop_world_scheme \<Rightarrow> ('f, 'w) loop_world_scheme res option"
    and b i w r
  assume IH: "\<And>b i w r. f b i w = Some r \<Longrightarrow>
      \<exists>n. r = turns b i n w \<and> stops r \<and> (\<forall>m<n. \<not> stops (turns b i m w))"
    and eq: "(if quit w then Some (Inr w)
      else case b i w of Inl f \<Rightarrow> Some (Inl f) | Inr w' \<Rightarrow> f b (Suc i) w') = Some r"
  show "\<exists>n. r = turns b i n w \<and> stops r \<and> (\<forall>m<n. \<not> stops (turns b i m w))"
  proof (cases "quit w")
    case True
    with eq show ?thesis by (intro exI [of _ 0]) (auto simp: stops_def)
  next
    case q: False
    show ?thesis
    proof (cases "b i w")
      case (Inl g)
      with eq q show ?thesis by (intro exI [of _ 1]) (auto simp: stops_def)
    next
      case (Inr v)
      with eq q IH [of b "Suc i" v r] obtain n where
        n: "r = turns b (Suc i) n v" "stops r" "\<forall>m<n. \<not> stops (turns b (Suc i) m v)"
        by auto
      have "\<not> stops (turns b i m w)" if "m < Suc n" for m
        using that n(3) Inr q by (cases m) (auto simp: stops_def)
      with n Inr show ?thesis by (intro exI [of _ "Suc n"]) auto
    qed
  qed
qed

lemma loop_outcome:
  assumes "\<not> looping w"
  shows "EventLoop_loop dispatch exec destroy waits tid w = Some r \<longleftrightarrow>
     (\<exists>n. let t = (\<lambda>k. turns (\<lambda>i. loop_iteration dispatch exec destroy (waits i)) 0 k (loop_start w))
          in stops (t n) \<and> (\<forall>m<n. \<not> stops (t m)) \<and> r = andthen (t n) (\<lambda>v. Inr (loop_end v)))"
    and "EventLoop_loop dispatch exec destroy waits tid (EventLoop_quit w) =
     EventLoop_loop dispatch exec destroy waits tid w"
    and "EventLoop_loop dispatch exec destroy waits tid (loop_start w) = Some (Inl Assert_failed)"
proof -
  let ?body = "\<lambda>i. loop_iteration dispatch exec destroy (waits i)"
  have eq: "EventLoop_loop dispatch exec destroy waits tid w =
      map_option (\<lambda>r. andthen r (\<lambda>v. Inr (loop_end v))) (loop_from ?body 0 (loop_start w))"
    using assms(1) by (simp add: EventLoop_loop_def)
  show "EventLoop_loop dispatch exec destroy waits tid w = Some r \<longleftrightarrow>
     (\<exists>n. let t = (\<lambda>k. turns ?body 0 k (loop_start w))
          in stops (t n) \<and> (\<forall>m<n. \<not> stops (t m)) \<and> r = andthen (t n) (\<lambda>v. Inr (loop_end v)))"
    (is "?l \<longleftrightarrow> ?r")
  proof
    assume ?l
    then obtain r' where "loop_from ?body 0 (loop_start w) = Some r'"
        "r = andthen r' (\<lambda>v. Inr (loop_end v))"
      by (auto simp: eq)
    with loop_from_Some [of ?body 0 "loop_start w" r'] show ?r by (auto simp: Let_def)
  next
    assume ?r
    then show ?l using loop_from_stops [of ?body 0 _ "loop_start w"] by (auto simp: eq Let_def)
  qed
  show "EventLoop_loop dispatch exec destroy waits tid (EventLoop_quit w) =
     EventLoop_loop dispatch exec destroy waits tid w"
    using assms(1) by (simp add: EventLoop_loop_def EventLoop_quit_def loop_start_def)
  show "EventLoop_loop dispatch exec destroy waits tid (loop_start w) = Some (Inl Assert_failed)"
    by (simp add: EventLoop_loop_def loop_start_def)
qed


text \<open>A loop whose only functor asks it to quit returns after one turn.\<close>

definition sample_loop :: "string loop_world" where
  "sample_loop = fst (EventLoop_new 1 77 (-5) 10 None)"

definition quit_exec :: "string \<Rightarrow> string loop_world \<Rightarrow> string loop_world res" where
  "quit_exec f w = Inr (if f = ''quit'' then EventLoop_quit w else w)"


section \<open>Posting threads and the loop\<close>

text \<open>
  The steps are the critical sections of \<open>queueInLoop\<close> and \<open>doPendingFunctors\<close> and the calls in
  between. \<open>phase\<close> is where the loop thread is: in \<open>poll\<close>, handling the active channels, or
  calling the functors it took (those still to be called). \<open>waking\<close> counts the threads that have
  left the critical section of \<open>queueInLoop\<close> and have not called \<open>wakeup\<close> yet, \<open>unread\<close> the
  wakeup writes since \<open>poll\<close> last returned. \<open>posted\<close> and \<open>ran\<close> are the histories of the functors
  queued and called.
\<close>

datatype 'f phase = Polling | Handling | Running "'f list"

record 'f threads =
  world :: "'f loop_world"
  phase :: "'f phase"
  waking :: nat
  unread :: nat
  posted :: "'f list"
  ran :: "'f list"

inductive thread_step :: "'f threads \<Rightarrow> 'f threads \<Rightarrow> bool" where
  Other_push:
    "\<not> isInLoopThread tid (world s) \<Longrightarrow>
     thread_step s (s\<lparr>world := push_functor f (world s), waking := waking s + 1, posted := posted s @ [f]\<rparr>)"
| Other_wakeup:
    "0 < waking s \<Longrightarrow>
     thread_step s (s\<lparr>world := wakeup (world s), waking := waking s - 1, unread := unread s + 1\<rparr>)"
| Loop_queue:
    "phase s \<noteq> Polling \<Longrightarrow> isInLoopThread tid (world s) \<Longrightarrow>
     thread_step s (s\<lparr>world := queueInLoop tid f (world s), posted := posted s @ [f],
       unread := unread s + (length (wakeup_log (queueInLoop tid f (world s))) - length (wakeup_log (world s)))\<rparr>)"
| Poll_return:
    "phase s = Polling \<Longrightarrow> thread_step s (s\<lparr>phase := Handling, unread := 0\<rparr>)"
| Take_pending:
    "phase s = Handling \<Longrightarrow> take_pending (world s) = (fs, w') \<Longrightarrow>
     thread_step s (s\<lparr>world := w', phase := Running fs\<rparr>)"
| Run_functor:
    "phase s = Running (f # fs) \<Longrightarrow> thread_step s (s\<lparr>phase := Running fs, ran := ran s @ [f]\<rparr>)"
| End_pending:
    "phase s = Running [] \<Longrightarrow> thread_step s (s\<lparr>world := end_pending (world s), phase := Polling\<rparr>)"

inductive_cases thread_stepE: "thread_step s s'"

definition threads_init :: "'f loop_world \<Rightarrow> 'f threads" where
  "threads_init w = \<lparr>world = w, phase = Polling, waking = 0, unread = 0, posted = [], ran = []\<rparr>"

abbreviation thread_steps :: "'f threads \<Rightarrow> 'f threads \<Rightarrow> bool" where
  "thread_steps \<equiv> thread_step\<^sup>*\<^sup>*"

definition taken :: "'f phase \<Rightarrow> 'f list" where
  "taken ph = (case ph of Running fs \<Rightarrow> fs | _ \<Rightarrow> [])"

definition threads_inv :: "'f threads \<Rightarrow> bool" where
  "threads_inv s \<longleftrightarrow>
     posted s = ran s @ taken (phase s) @ pendingFunctors (world s) \<and>
     (callingPendingFunctors (world s) \<longleftrightarrow> (\<exists>fs. phase s = Running fs)) \<and>
     (phase s \<noteq> Handling \<longrightarrow> pendingFunctors (world s) \<noteq> [] \<longrightarrow> 0 < unread s + waking s)"

lemmas functor_ops = push_functor_def wakeup_def queueInLoop_def take_pending_def end_pending_def
  isInLoopThread_def

lemma threads_inv_step: "thread_step s s' \<Longrightarrow> threads_inv s \<Longrightarrow> threads_inv s'"
  by (erule thread_stepE; cases "phase s")
    (auto simp: threads_inv_def functor_ops taken_def Let_def)

lemma threads_inv_reachable:
  assumes "thread_steps (threads_init w) s" and "pendingFunctors w = []" and "\<not> callingPendingFunctors w"
  shows "threads_inv s"
  using assms(1)
proof (induction rule: rtranclp_induct)
  case base
  with assms(2,3) show ?case by (simp add: threads_inv_def threads_init_def taken_def)
next
  case (step y z)
  then show ?case by (blast intro: threads_inv_step)
qed

text \<open>
  Property C6. In every interleaving of posting threads with the loop, every functor that was queued is
  called at most once and in the order of the queueing: the functors posted are those called,
  then those taken and not yet called, then those still pending. Nothing is lost or duplicated
  by the swap under the lock, and what a running functor queues waits for the next round.
\<close>

theorem pending_fifo:
  assumes "thread_steps (threads_init (fst (EventLoop_new this tid fd p t))) s"
  shows "posted s = ran s @ taken (phase s) @ pendingFunctors (world s)"
  using threads_inv_reachable [OF assms] by (simp add: threads_inv_def EventLoop_new_def poll_world.defs)


text \<open>
  A run: another thread posts \<open>''a''\<close>, the loop takes it and calls it, \<open>''a''\<close> queues \<open>''b''\<close>, and the
  loop polls again.
\<close>

definition sample_run :: "string threads list" where
  "sample_run =
    (let s0 = threads_init sample_loop;
         s1 = s0\<lparr>world := push_functor ''a'' (world s0), waking := 1, posted := [''a'']\<rparr>;
         s2 = s1\<lparr>phase := Handling, unread := 0\<rparr>;
         s3 = s2\<lparr>world := snd (take_pending (world s2)), phase := Running [''a'']\<rparr>;
         s4 = s3\<lparr>phase := Running [], ran := [''a'']\<rparr>;
         s5 = s4\<lparr>world := queueInLoop 77 ''b'' (world s4), posted := [''a'', ''b''], unread := 1\<rparr>;
         s6 = s5\<lparr>world := end_pending (world s5), phase := Polling\<rparr>
     in [s0, s1, s2, s3, s4, s5, s6])"

lemmas sample_run_simps = sample_run_def Let_def threads_init_def sample_loop_def EventLoop_new_def
  poll_world.defs functor_ops

lemma sample_run_steps:
  "thread_steps (threads_init (fst (EventLoop_new 1 77 (-5) 10 None))) (sample_run ! 6)"
proof -
  have s: "threads_init (fst (EventLoop_new 1 77 (-5) 10 None)) = sample_run ! 0"
    by (simp add: sample_run_simps)
  have "thread_step (sample_run ! 0) (sample_run ! 1)"
    using Other_push [of 5 "sample_run ! 0" "''a''"] by (simp add: sample_run_simps)
  moreover have "thread_step (sample_run ! 1) (sample_run ! 2)"
    using Poll_return [of "sample_run ! 1"] by (simp add: sample_run_simps)
  moreover have "thread_step (sample_run ! 2) (sample_run ! 3)"
    using Take_pending [of "sample_run ! 2"] by (simp add: sample_run_simps)
  moreover have "thread_step (sample_run ! 3) (sample_run ! 4)"
    using Run_functor [of "sample_run ! 3" "''a''" "[]"] by (simp add: sample_run_simps)
  moreover have "thread_step (sample_run ! 4) (sample_run ! 5)"
    using Loop_queue [of "sample_run ! 4" 77 "''b''"] by (simp add: sample_run_simps)
  moreover have "thread_step (sample_run ! 5) (sample_run ! 6)"
    using End_pending [of "sample_run ! 5"] by (simp add: sample_run_simps)
  ultimately show ?thesis unfolding s by (meson converse_rtranclp_into_rtranclp rtranclp.rtrancl_refl)
qed

theorem pending_fifo_witness:
  "thread_steps (threads_init (fst (EventLoop_new 1 77 (-5) 10 None))) (sample_run ! 6) \<and>
   posted (sample_run ! 6) = ran (sample_run ! 6) @ taken (phase (sample_run ! 6)) @
     pendingFunctors (world (sample_run ! 6)) \<and> ran (sample_run ! 6) = [''a'']"
  using sample_run_steps pending_fifo [OF sample_run_steps] by (simp add: sample_run_simps)


text \<open>
  The calls of \<open>doPendingFunctors\<close> against the transition system: where calling a functor queues
  functors from the loop thread (\<open>spawns f\<close>), the whole call is a run of the system, from
  \<open>Handling\<close> back to \<open>Polling\<close>.
\<close>

definition spawn_exec ::
    "int \<Rightarrow> ('f \<Rightarrow> 'f list) \<Rightarrow> 'f \<Rightarrow> 'f loop_world \<Rightarrow> 'f loop_world res" where
  "spawn_exec tid spawns f w = Inr (fold (queueInLoop tid) (spawns f) w)"

lemma queueInLoop_keeps [simp]: "isInLoopThread tid (queueInLoop tid' f w) = isInLoopThread tid w"
  by (simp add: functor_ops Let_def)

lemma spawn_steps:
  assumes "phase s \<noteq> Polling" and "isInLoopThread tid (world s)"
  shows "\<exists>s'. thread_steps s s' \<and> world s' = fold (queueInLoop tid) fs (world s) \<and>
     phase s' = phase s \<and> ran s' = ran s \<and> posted s' = posted s @ fs"
  using assms
proof (induction fs arbitrary: s)
  case Nil
  then show ?case by auto
next
  case (Cons f fs)
  note st = Loop_queue [of s tid f, OF Cons.prems]
  let ?s = "s\<lparr>world := queueInLoop tid f (world s), posted := posted s @ [f],
       unread := unread s + (length (wakeup_log (queueInLoop tid f (world s))) - length (wakeup_log (world s)))\<rparr>"
  obtain s' where "thread_steps ?s s'" "world s' = fold (queueInLoop tid) fs (world ?s)"
      "phase s' = phase ?s" "ran s' = ran ?s" "posted s' = posted ?s @ fs"
    using Cons.IH [of ?s] Cons.prems by auto
  with st show ?case
    by (intro exI [of _ s']) (auto intro: converse_rtranclp_into_rtranclp)
qed

lemma running_steps:
  assumes "phase s = Running fs" and "isInLoopThread tid (world s)"
    and "fold_res (spawn_exec tid spawns) fs (world s) = Inr w'"
  shows "\<exists>s'. thread_steps s s' \<and> world s' = w' \<and> phase s' = Running [] \<and> ran s' = ran s @ fs \<and>
     posted s' = posted s @ concat (map spawns fs)"
  using assms
proof (induction fs arbitrary: s)
  case Nil
  then show ?case by auto
next
  case (Cons f fs)
  let ?s = "s\<lparr>phase := Running fs, ran := ran s @ [f]\<rparr>"
  have st: "thread_step s ?s" using Cons.prems(1) by (rule Run_functor)
  obtain s1 where s1: "thread_steps ?s s1" "world s1 = fold (queueInLoop tid) (spawns f) (world s)"
      "phase s1 = Running fs" "ran s1 = ran s @ [f]" "posted s1 = posted s @ spawns f"
    using spawn_steps [of ?s tid "spawns f"] Cons.prems(2) by auto
  have "isInLoopThread tid (fold (queueInLoop tid) gs w) = isInLoopThread tid w" for gs and w :: "'a loop_world"
    by (induction gs arbitrary: w) auto
  with s1 Cons.prems have "isInLoopThread tid (world s1)"
      "fold_res (spawn_exec tid spawns) fs (world s1) = Inr w'"
    by (auto simp: spawn_exec_def [of tid spawns f])
  then obtain s' where "thread_steps s1 s'" "world s' = w'" "phase s' = Running []"
      "ran s' = ran s1 @ fs" "posted s' = posted s1 @ concat (map spawns fs)"
    using Cons.IH [of s1] s1 by blast
  with s1 st show ?case
    by (intro exI [of _ s']) (auto intro: converse_rtranclp_into_rtranclp rtranclp_trans)
qed

text \<open>
  Property C14. \<open>doPendingFunctors\<close> implements the transition system: for functors that queue further
  functors from the loop thread, one call is a run from the handling of events back to \<open>poll\<close>
  which calls exactly the functors pending at its start, in order, and leaves exactly the
  functors they queued pending, in order.
\<close>

theorem doPendingFunctors_refines:
  assumes "phase s = Handling" and "isInLoopThread tid (world s)"
  shows "\<exists>s' w'. doPendingFunctors (spawn_exec tid spawns) (\<lambda>_. Inr) (world s) = Inr w' \<and>
     thread_steps s s' \<and> world s' = w' \<and> phase s' = Polling \<and>
     ran s' = ran s @ pendingFunctors (world s) \<and>
     pendingFunctors w' = concat (map spawns (pendingFunctors (world s))) \<and>
     posted s' = posted s @ pendingFunctors w'"
proof -
  let ?fs = "pendingFunctors (world s)" and ?w1 = "snd (take_pending (world s))"
  let ?s1 = "s\<lparr>world := ?w1, phase := Running ?fs\<rparr>"
  have st: "thread_step s ?s1"
    using assms(1) by (intro Take_pending) (simp_all add: take_pending_def)
  have total: "\<exists>v. fold_res (spawn_exec tid spawns) fs w = Inr v \<and>
      pendingFunctors v = pendingFunctors w @ concat (map spawns fs)" for fs and w :: "'a loop_world"
  proof (induction fs arbitrary: w)
    case (Cons f fs)
    have "pendingFunctors (fold (queueInLoop tid) gs v) = pendingFunctors v @ gs" for gs and v :: "'a loop_world"
      by (induction gs arbitrary: v) (auto simp: functor_ops Let_def)
    with Cons.IH [of "fold (queueInLoop tid) (spawns f) w"] show ?case
      by (auto simp: spawn_exec_def)
  qed simp
  obtain v where v: "fold_res (spawn_exec tid spawns) ?fs ?w1 = Inr v"
      "pendingFunctors v = concat (map spawns ?fs)"
    using total [of ?fs ?w1] by (auto simp: take_pending_def)
  obtain s2 where s2: "thread_steps ?s1 s2" "world s2 = v" "phase s2 = Running []"
      "ran s2 = ran s @ ?fs" "posted s2 = posted s @ concat (map spawns ?fs)"
    using running_steps [of ?s1 ?fs tid spawns v] v(1) assms(2)
    by (auto simp: take_pending_def isInLoopThread_def)
  let ?s' = "s2\<lparr>world := end_pending v, phase := Polling\<rparr>"
  have "thread_step s2 ?s'" using End_pending [OF s2(3)] s2(2) by simp
  with s2 st have "thread_steps s ?s'"
    by (meson converse_rtranclp_into_rtranclp rtranclp.rtrancl_into_rtrancl)
  moreover have destroys: "fold_res (\<lambda>_. Inr) gs u = Inr u" for gs :: "'a list" and u :: "'a loop_world"
    by (induction gs) auto
  have "doPendingFunctors (spawn_exec tid spawns) (\<lambda>_. Inr) (world s) = Inr (end_pending v)"
    using v(1) by (simp add: doPendingFunctors_def take_pending_def destroys)
  ultimately show ?thesis
    using s2 v(2) by (intro exI [of _ ?s'] exI [of _ "end_pending v"]) (simp add: end_pending_def)
qed

theorem doPendingFunctors_refines_witness:
  "\<exists>s' w'. doPendingFunctors (spawn_exec 77 (\<lambda>f. if f = ''a'' then [''b''] else [])) (\<lambda>_. Inr)
     (world (sample_run ! 2)) = Inr w' \<and> thread_steps (sample_run ! 2) s' \<and> world s' = w' \<and>
     phase s' = Polling \<and> ran s' = [''a''] \<and> pendingFunctors w' = [''b''] \<and> posted s' = [''a'', ''b'']"
proof -
  have s: "phase (sample_run ! 2) = Handling" "isInLoopThread 77 (world (sample_run ! 2))"
      "pendingFunctors (world (sample_run ! 2)) = [''a'']" "ran (sample_run ! 2) = []"
      "posted (sample_run ! 2) = [''a'']"
    by (simp_all add: sample_run_simps)
  show ?thesis
    using doPendingFunctors_refines [OF s(1,2), of "\<lambda>f. if f = ''a'' then [''b''] else []"] s(3-5)
    by auto
qed

end
