(* ===== verification/Buffer.thy ===== *)
theory Buffer
  imports Tractor_Prelude
begin

text \<open>
  The growable byte buffer of \<open>include/tractor/Buffer.h\<close> and \<open>src/Buffer.cpp\<close>: a vector with
  a reader and a writer index. A pointer into the vector (\<open>peek()\<close>, \<open>beginWrite()\<close>, the result
  of \<open>findCRLF()\<close>) is its offset from \<open>begin()\<close>. Every access to the vector goes through
  \<open>load_bytes\<close>, \<open>store_bytes\<close> and \<open>vector_resize\<close>, which fault where C++ has undefined
  behaviour or throws. The abstract view of a buffer is the sequence of its readable bytes
  (\<open>contents\<close>); the locale \<open>byte_queue\<close> states what the clients rely on.
\<close>

named_theorems buffer_simps "the operations of the buffer on its readable bytes"

section \<open>The vector of bytes\<close>

definition load_bytes :: "string \<Rightarrow> nat \<Rightarrow> nat \<Rightarrow> string res" where
  "load_bytes v i n = check Bad_access (i + n \<le> length v) (Inr (take n (drop i v)))"

definition store_bytes :: "string \<Rightarrow> nat \<Rightarrow> string \<Rightarrow> string res" where
  "store_bytes v i d =
     check Bad_access (i + length d \<le> length v) (Inr (take i v @ d @ drop (i + length d) v))"

definition vector_resize :: "string \<Rightarrow> nat \<Rightarrow> string res" where
  "vector_resize v n =
     check Length_error (n \<le> vector_max_size)
       (Inr (take n v @ replicate (n - length v) (CHR 0x00)))"

section \<open>State and operations\<close>

record Buffer =
  buffer :: string
  readerIndex :: nat
  writerIndex :: nat

definition kCheapPrepend :: nat where
  "kCheapPrepend = 8"

definition kInitialSize :: nat where
  "kInitialSize = 1024"

definition kCRLF :: string where
  "kCRLF = [CHR 0x0D, CHR 0x0A]"

definition readableBytes :: "Buffer \<Rightarrow> nat" where
  "readableBytes b = usize_sub (writerIndex b) (readerIndex b)"

definition writableBytes :: "Buffer \<Rightarrow> nat" where
  "writableBytes b = usize_sub (length (buffer b)) (writerIndex b)"

definition prependableBytes :: "Buffer \<Rightarrow> nat" where
  "prependableBytes b = readerIndex b"

definition Buffer_new :: "Buffer res" where
  "Buffer_new =
     (let b = \<lparr>buffer = replicate (kCheapPrepend + kInitialSize) (CHR 0x00),
               readerIndex = kCheapPrepend, writerIndex = kCheapPrepend\<rparr>
      in asserting (readableBytes b = 0)
          (asserting (writableBytes b = kInitialSize)
            (asserting (prependableBytes b = kCheapPrepend) (Inr b))))"

definition Buffer_swap :: "Buffer \<Rightarrow> Buffer \<Rightarrow> Buffer \<times> Buffer" where
  "Buffer_swap b rhs =
     (b\<lparr>buffer := buffer rhs, readerIndex := readerIndex rhs, writerIndex := writerIndex rhs\<rparr>,
      rhs\<lparr>buffer := buffer b, readerIndex := readerIndex b, writerIndex := writerIndex b\<rparr>)"

definition peek :: "Buffer \<Rightarrow> nat" where
  "peek b = readerIndex b"

definition beginWrite :: "Buffer \<Rightarrow> nat" where
  "beginWrite b = writerIndex b"

definition retrieve :: "nat \<Rightarrow> Buffer \<Rightarrow> Buffer res" where
  "retrieve len b =
     asserting (len \<le> readableBytes b)
       (Inr (b\<lparr>readerIndex := usize_add (readerIndex b) len\<rparr>))"

definition retrieveUntil :: "nat \<Rightarrow> Buffer \<Rightarrow> Buffer res" where
  "retrieveUntil e b =
     asserting (peek b \<le> e) (asserting (e \<le> beginWrite b) (retrieve (e - peek b) b))"

definition retrieveAll :: "Buffer \<Rightarrow> Buffer" where
  "retrieveAll b = b\<lparr>readerIndex := kCheapPrepend, writerIndex := kCheapPrepend\<rparr>"

definition retrieveAsString :: "Buffer \<Rightarrow> (string \<times> Buffer) res" where
  "retrieveAsString b =
     andthen (load_bytes (buffer b) (peek b) (readableBytes b))
       (\<lambda>str. Inr (str, retrieveAll b))"

definition makeSpace :: "nat \<Rightarrow> Buffer \<Rightarrow> Buffer res" where
  "makeSpace len b =
     (if usize_add (writableBytes b) (prependableBytes b) < usize_add len kCheapPrepend
      then andthen (vector_resize (buffer b) (usize_add (writerIndex b) len))
             (\<lambda>v. Inr (b\<lparr>buffer := v\<rparr>))
      else asserting (kCheapPrepend < readerIndex b)
        (let readable = readableBytes b
         in andthen (load_bytes (buffer b) (readerIndex b) readable) (\<lambda>d.
            andthen (store_bytes (buffer b) kCheapPrepend d) (\<lambda>v.
            let b' = b\<lparr>buffer := v, readerIndex := kCheapPrepend,
                       writerIndex := usize_add kCheapPrepend readable\<rparr>
            in asserting (readable = readableBytes b') (Inr b')))))"

definition ensureWritableBytes :: "nat \<Rightarrow> Buffer \<Rightarrow> Buffer res" where
  "ensureWritableBytes len b =
     andthen (if writableBytes b < len then makeSpace len b else Inr b)
       (\<lambda>b'. asserting (len \<le> writableBytes b') (Inr b'))"

definition hasWritten :: "nat \<Rightarrow> Buffer \<Rightarrow> Buffer" where
  "hasWritten len b = b\<lparr>writerIndex := usize_add (writerIndex b) len\<rparr>"

definition append_bytes :: "string \<Rightarrow> Buffer \<Rightarrow> Buffer res" where
  "append_bytes d b =
     andthen (ensureWritableBytes (length d) b) (\<lambda>b'.
     andthen (store_bytes (buffer b') (beginWrite b') d) (\<lambda>v.
     Inr (hasWritten (length d) (b'\<lparr>buffer := v\<rparr>))))"

definition prepend :: "string \<Rightarrow> Buffer \<Rightarrow> Buffer res" where
  "prepend d b =
     asserting (length d \<le> prependableBytes b)
       (let r = usize_sub (readerIndex b) (length d)
        in andthen (store_bytes (buffer b) r d)
             (\<lambda>v. Inr (b\<lparr>buffer := v, readerIndex := r\<rparr>)))"

definition shrink :: "nat \<Rightarrow> Buffer \<Rightarrow> Buffer res" where
  "shrink reserve b =
     andthen (vector_resize [] (usize_add (usize_add kCheapPrepend (readableBytes b)) reserve)) (\<lambda>buf.
     andthen (load_bytes (buffer b) (peek b) (readableBytes b)) (\<lambda>d.
     andthen (store_bytes buf kCheapPrepend d) (\<lambda>buf'.
     Inr (b\<lparr>buffer := buf'\<rparr>))))"

definition findCRLF :: "Buffer \<Rightarrow> nat option res" where
  "findCRLF b =
     andthen (load_bytes (buffer b) (peek b) (readableBytes b)) (\<lambda>d.
     Inr (case memmem d kCRLF of
            None \<Rightarrow> None
          | Some k \<Rightarrow> if peek b + k = beginWrite b then None else Some (peek b + k)))"

text \<open>
  \<open>readFd\<close> hands \<open>readv\<close> two areas: the writable part of the vector and \<open>extrabuf\<close>. The outcome
  of the system call is an argument: the bytes it delivered, which fill the first area before
  the second, or a failure with its \<open>errno\<close>. The results are the buffer, the return value and
  the saved \<open>errno\<close>.
\<close>

datatype readv_result = Readv_bytes string | Readv_failed int

definition extrabuf_size :: nat where
  "extrabuf_size = 65536"

definition readFd :: "readv_result \<Rightarrow> Buffer \<Rightarrow> (Buffer \<times> int \<times> int option) res" where
  "readFd r b =
     (case r of
        Readv_failed e \<Rightarrow> Inr (b, -1, Some e)
      | Readv_bytes d \<Rightarrow>
          (let writable = writableBytes b; n = length d
           in andthen (store_bytes (buffer b) (writerIndex b) (take writable d)) (\<lambda>v.
              let b' = b\<lparr>buffer := v\<rparr>
              in if n \<le> writable
                 then Inr (b'\<lparr>writerIndex := usize_add (writerIndex b') n\<rparr>, int n, None)
                 else andthen (append_bytes (drop writable d) (b'\<lparr>writerIndex := length v\<rparr>))
                        (\<lambda>b''. Inr (b'', int n, None)))))"

section \<open>Invariant and readable bytes\<close>

definition buf_ok :: "Buffer \<Rightarrow> bool" where
  "buf_ok b \<longleftrightarrow> kCheapPrepend \<le> length (buffer b) \<and> readerIndex b \<le> writerIndex b \<and>
     writerIndex b \<le> length (buffer b) \<and> length (buffer b) \<le> vector_max_size"

definition contents :: "Buffer \<Rightarrow> string" where
  "contents b = take (writerIndex b - readerIndex b) (drop (readerIndex b) (buffer b))"

lemma contents_update:
  "contents (b\<lparr>buffer := v, readerIndex := r, writerIndex := w\<rparr>) = take (w - r) (drop r v)"
  by (simp add: contents_def)

lemma vector_max_size_less: "n \<le> vector_max_size \<Longrightarrow> n < 2 ^ 64"
  by (simp add: vector_max_size_def)

lemma vector_max_size_add: "m \<le> vector_max_size \<Longrightarrow> n \<le> vector_max_size \<Longrightarrow> m + n < 2 ^ 64"
  by (simp add: vector_max_size_def)

lemma buf_ok_indices:
  "buf_ok b \<Longrightarrow> readerIndex b \<le> writerIndex b"
  "buf_ok b \<Longrightarrow> writerIndex b \<le> length (buffer b)"
  "buf_ok b \<Longrightarrow> length (buffer b) \<le> vector_max_size"
  "buf_ok b \<Longrightarrow> kCheapPrepend \<le> length (buffer b)"
  by (simp_all add: buf_ok_def)

lemma length_contents [simp]: "buf_ok b \<Longrightarrow> length (contents b) = writerIndex b - readerIndex b"
  by (auto simp: buf_ok_def contents_def)

lemma readableBytes_eq [buffer_simps]:
  "buf_ok b \<Longrightarrow> readableBytes b = writerIndex b - readerIndex b"
  unfolding readableBytes_def buf_ok_def
  by (rule usize_sub_bounded) (auto simp: vector_max_size_def)

lemma writableBytes_eq [buffer_simps]:
  "buf_ok b \<Longrightarrow> writableBytes b = length (buffer b) - writerIndex b"
  unfolding writableBytes_def buf_ok_def
  by (rule usize_sub_bounded) (auto simp: vector_max_size_def)

lemma load_readable [buffer_simps]:
  "buf_ok b \<Longrightarrow> load_bytes (buffer b) (peek b) (readableBytes b) = Inr (contents b)"
  by (simp add: load_bytes_def peek_def readableBytes_eq contents_def buf_ok_def)

lemma Buffer_new_ok:
  "\<exists>b. Buffer_new = Inr b \<and> buf_ok b \<and> contents b = [] \<and> writerIndex b = kCheapPrepend"
  by (simp add: Buffer_new_def readableBytes_def writableBytes_def prependableBytes_def
      kCheapPrepend_def kInitialSize_def usize_sub_def buf_ok_def contents_def
      vector_max_size_def Let_def)

lemma retrieve_ok:
  assumes "buf_ok b" and "n \<le> length (contents b)"
  shows "\<exists>b'. retrieve n b = Inr b' \<and> buf_ok b' \<and> contents b' = drop n (contents b) \<and>
      writerIndex b' = writerIndex b \<and> readerIndex b' = readerIndex b + n"
proof -
  have n: "readerIndex b + n \<le> writerIndex b"
    using assms buf_ok_indices(1) [OF assms(1)] by simp
  then have "readerIndex b + n < 2 ^ 64"
    using buf_ok_indices(2,3) [OF assms(1)] vector_max_size_less [of "writerIndex b"] by linarith
  then have "usize_add (readerIndex b) n = readerIndex b + n" by (rule usize_add_bounded)
  with assms n show ?thesis
    by (auto simp: retrieve_def readableBytes_eq buf_ok_def contents_def drop_take add.commute)
qed

lemma retrieve_too_much:
  "buf_ok b \<Longrightarrow> length (contents b) < n \<Longrightarrow> retrieve n b = Inl Assert_failed"
  by (simp add: retrieve_def readableBytes_eq)

lemma retrieveAll_ok:
  "buf_ok b \<Longrightarrow> buf_ok (retrieveAll b)" "contents (retrieveAll b) = []"
  by (simp_all add: buf_ok_def retrieveAll_def contents_def)

lemma retrieveAsString_ok:
  "buf_ok b \<Longrightarrow> retrieveAsString b = Inr (contents b, retrieveAll b)"
  by (simp add: retrieveAsString_def load_readable)

section \<open>Growing\<close>

text \<open>
  Replacing part of the vector: what the readable bytes become when a block is stored at the
  writer index, in front of the reader index, or moved to the front.
\<close>

lemma store_bytes_fits:
  "i + length d \<le> length v \<Longrightarrow> store_bytes v i d = Inr (take i v @ d @ drop (i + length d) v)"
  by (simp add: store_bytes_def)

lemma contents_store_write:
  assumes "r \<le> w" and "w + length d \<le> length v"
  shows "take (w + length d - r) (drop r (take w v @ d @ drop (w + length d) v)) =
      take (w - r) (drop r v) @ d"
proof -
  have "w + length d - r = (w - r) + length d" using assms(1) by simp
  moreover have "drop r (take w v @ d @ drop (w + length d) v) =
      take (w - r) (drop r v) @ d @ drop (w + length d) v"
    using assms by (simp add: drop_take)
  ultimately show ?thesis using assms by simp
qed

lemma contents_store_front:
  assumes "length d \<le> r" and "r \<le> w" and "w \<le> length v"
  shows "take (w - (r - length d)) (drop (r - length d) (take (r - length d) v @ d @ drop r v)) =
      d @ take (w - r) (drop r v)"
  using assms by simp

text \<open>
  \<open>makeSpace\<close> is called with less room behind the writer than is asked for. It moves the
  readable bytes to the front or enlarges the vector, and keeps them in either case.
\<close>

lemma makeSpace_grows:
  assumes "buf_ok b" and "length (buffer b) - writerIndex b < n" and "n \<le> vector_max_size"
    and "length (buffer b) - writerIndex b + readerIndex b < n + kCheapPrepend"
  shows "makeSpace n b =
      (if writerIndex b + n \<le> vector_max_size
       then Inr (b\<lparr>buffer := buffer b @ replicate (writerIndex b + n - length (buffer b)) (CHR 0x00)\<rparr>)
       else Inl Length_error)"
proof -
  note i = buf_ok_indices [OF assms(1)]
  have "usize_add (writableBytes b) (prependableBytes b) =
      length (buffer b) - writerIndex b + readerIndex b"
    using i by (simp add: writableBytes_eq assms(1) prependableBytes_def usize_add_bounded
        vector_max_size_def)
  moreover have "usize_add n kCheapPrepend = n + kCheapPrepend"
    using assms(3) by (simp add: usize_add_bounded kCheapPrepend_def vector_max_size_def)
  moreover have "usize_add (writerIndex b) n = writerIndex b + n"
    using i assms(3) by (simp add: usize_add_bounded vector_max_size_def)
  ultimately show ?thesis
    using assms i by (simp add: makeSpace_def vector_resize_def check_def)
qed

lemma makeSpace_moves:
  assumes "buf_ok b" and "length (buffer b) - writerIndex b < n" and "n \<le> vector_max_size"
    and "n + kCheapPrepend \<le> length (buffer b) - writerIndex b + readerIndex b"
  shows "\<exists>b'. makeSpace n b = Inr b' \<and> buf_ok b' \<and> contents b' = contents b \<and>
      length (buffer b') = length (buffer b) \<and> n \<le> length (buffer b') - writerIndex b' \<and>
      writerIndex b' \<le> writerIndex b"
proof -
  note i = buf_ok_indices [OF assms(1)]
  let ?d = "contents b"
  have add1: "usize_add (writableBytes b) (prependableBytes b) =
      length (buffer b) - writerIndex b + readerIndex b"
    using i by (simp add: writableBytes_eq assms(1) prependableBytes_def usize_add_bounded
        vector_max_size_def)
  have add2: "usize_add n kCheapPrepend = n + kCheapPrepend"
    using assms(3) by (simp add: usize_add_bounded kCheapPrepend_def vector_max_size_def)
  have r: "kCheapPrepend < readerIndex b" using assms(2,4) by linarith
  have len: "length ?d = writerIndex b - readerIndex b" using assms(1) by simp
  have load: "load_bytes (buffer b) (readerIndex b) (writerIndex b - readerIndex b) = Inr ?d"
    using load_readable [OF assms(1)] by (simp add: peek_def readableBytes_eq assms(1))
  have fits: "kCheapPrepend + length ?d \<le> length (buffer b)" using len r i by linarith
  have add3: "usize_add kCheapPrepend (length ?d) = kCheapPrepend + length ?d"
    using fits i by (simp add: usize_add_bounded vector_max_size_def)
  define v where "v = take kCheapPrepend (buffer b) @ ?d @ drop (kCheapPrepend + length ?d) (buffer b)"
  define b' where "b' = b\<lparr>buffer := v, readerIndex := kCheapPrepend,
                          writerIndex := kCheapPrepend + length ?d\<rparr>"
  have lv: "length v = length (buffer b)" using fits by (simp add: v_def)
  have ok: "buf_ok b'" using fits lv i by (simp add: buf_ok_def b'_def)
  have c: "contents b' = ?d"
    using contents_store_write [of kCheapPrepend kCheapPrepend ?d "buffer b"] fits
    by (simp add: contents_update b'_def v_def)
  have "makeSpace n b = Inr b'"
    using add1 add2 add3 r assms(1,4) fits ok len load
    by (simp add: makeSpace_def readableBytes_eq store_bytes_fits Let_def v_def b'_def)
  moreover have "n \<le> length (buffer b') - writerIndex b'" and "writerIndex b' \<le> writerIndex b"
    using assms(4) r len lv i by (simp_all add: b'_def)
  ultimately show ?thesis using ok c lv by (auto simp: b'_def)
qed

lemma ensureWritableBytes_ok:
  assumes "buf_ok b" and "n \<le> vector_max_size"
  shows "case ensureWritableBytes n b of
      Inl f \<Rightarrow> f = Length_error \<and> vector_max_size < writerIndex b + n
    | Inr b' \<Rightarrow> buf_ok b' \<and> contents b' = contents b \<and>
        n \<le> length (buffer b') - writerIndex b' \<and> writerIndex b' \<le> writerIndex b"
proof (cases "length (buffer b) - writerIndex b < n")
  case False
  with assms show ?thesis by (simp add: ensureWritableBytes_def writableBytes_eq)
next
  case less: True
  note i = buf_ok_indices [OF assms(1)]
  show ?thesis
  proof (cases "length (buffer b) - writerIndex b + readerIndex b < n + kCheapPrepend")
    case grow: True
    show ?thesis
    proof (cases "writerIndex b + n \<le> vector_max_size")
      case True
      let ?b = "b\<lparr>buffer := buffer b @ replicate (writerIndex b + n - length (buffer b)) (CHR 0x00)\<rparr>"
      have "makeSpace n b = Inr ?b"
        using makeSpace_grows [OF assms(1) less assms(2) grow] True by simp
      moreover have "buf_ok ?b" using True less i by (simp add: buf_ok_def)
      moreover have "contents ?b = contents b" using i by (simp add: contents_def)
      ultimately show ?thesis
        using less i assms(1) by (simp add: ensureWritableBytes_def writableBytes_eq)
    next
      case False
      with makeSpace_grows [OF assms(1) less assms(2) grow] less assms(1) show ?thesis
        by (simp add: ensureWritableBytes_def writableBytes_eq)
    qed
  next
    case False
    then have "n + kCheapPrepend \<le> length (buffer b) - writerIndex b + readerIndex b" by simp
    from makeSpace_moves [OF assms(1) less assms(2) this] less assms(1) show ?thesis
      by (auto simp: ensureWritableBytes_def writableBytes_eq)
  qed
qed

lemma append_bytes_cases:
  assumes "buf_ok b" and "length d \<le> vector_max_size"
  shows "case append_bytes d b of
      Inl f \<Rightarrow> f = Length_error \<and> vector_max_size < writerIndex b + length d
    | Inr b' \<Rightarrow> buf_ok b' \<and> contents b' = contents b @ d \<and>
        writerIndex b' \<le> writerIndex b + length d"
proof (cases "ensureWritableBytes (length d) b")
  case (Inl f)
  with ensureWritableBytes_ok [OF assms] show ?thesis by (simp add: append_bytes_def)
next
  case (Inr b1)
  with ensureWritableBytes_ok [OF assms] have
    ok: "buf_ok b1" and c: "contents b1 = contents b" and
    room: "length d \<le> length (buffer b1) - writerIndex b1" and
    w: "writerIndex b1 \<le> writerIndex b" by auto
  note i = buf_ok_indices [OF ok]
  have fits: "writerIndex b1 + length d \<le> length (buffer b1)" using room i(2) by linarith
  have add: "usize_add (writerIndex b1) (length d) = writerIndex b1 + length d"
    using fits i(3) by (simp add: usize_add_bounded vector_max_size_def)
  let ?v = "take (writerIndex b1) (buffer b1) @ d @ drop (writerIndex b1 + length d) (buffer b1)"
  let ?b = "b1\<lparr>buffer := ?v, writerIndex := writerIndex b1 + length d\<rparr>"
  have "append_bytes d b = Inr ?b"
    using Inr fits add by (simp add: append_bytes_def store_bytes_fits beginWrite_def hasWritten_def)
  moreover have "buf_ok ?b" using fits i by (simp add: buf_ok_def)
  moreover have "contents ?b = contents b1 @ d"
    using contents_store_write [OF i(1) fits] by (simp add: contents_def)
  ultimately show ?thesis using c w by simp
qed

lemma append_bytes_ok:
  assumes "buf_ok b" and "writerIndex b + length d \<le> vector_max_size"
  shows "\<exists>b'. append_bytes d b = Inr b' \<and> buf_ok b' \<and> contents b' = contents b @ d \<and>
      writerIndex b' \<le> writerIndex b + length d"
  using append_bytes_cases [OF assms(1), of d] assms(2) by (auto split: sum.splits)

lemma append_bytes_Inr:
  assumes "buf_ok b" and "length d \<le> vector_max_size" and "append_bytes d b = Inr b'"
  shows "buf_ok b' \<and> contents b' = contents b @ d"
  using append_bytes_cases [OF assms(1,2)] assms(3) by simp

section \<open>The other operations on the readable bytes\<close>

lemma prepend_ok:
  assumes "buf_ok b" and "length d \<le> readerIndex b"
  shows "\<exists>b'. prepend d b = Inr b' \<and> buf_ok b' \<and> contents b' = d @ contents b \<and>
      writerIndex b' = writerIndex b"
proof -
  note i = buf_ok_indices [OF assms(1)]
  have sub: "usize_sub (readerIndex b) (length d) = readerIndex b - length d"
    using assms(2) i by (simp add: usize_sub_bounded vector_max_size_def)
  have fits: "readerIndex b - length d + length d \<le> length (buffer b)"
    using assms(2) i by linarith
  let ?v = "take (readerIndex b - length d) (buffer b) @ d @ drop (readerIndex b) (buffer b)"
  let ?b = "b\<lparr>buffer := ?v, readerIndex := readerIndex b - length d\<rparr>"
  have "prepend d b = Inr ?b"
    using assms(2) sub fits
    by (simp add: prepend_def prependableBytes_def store_bytes_fits Let_def)
  moreover have "buf_ok ?b" using assms(2) i by (simp add: buf_ok_def)
  moreover have "contents ?b = d @ contents b"
    using contents_store_front [OF assms(2) i(1,2)] by (simp add: contents_def)
  ultimately show ?thesis by simp
qed

lemma findCRLF_eq:
  assumes "buf_ok b"
  shows "findCRLF b = Inr (map_option (\<lambda>k. readerIndex b + k) (memmem (contents b) kCRLF))"
proof (cases "memmem (contents b) kCRLF")
  case None
  with assms show ?thesis by (simp add: findCRLF_def load_readable)
next
  case (Some k)
  from memmem_SomeD [OF Some] assms have "k + 2 \<le> writerIndex b - readerIndex b"
    by (simp add: kCRLF_def)
  then have "peek b + k \<noteq> beginWrite b" by (simp add: peek_def beginWrite_def)
  with Some assms show ?thesis
    by (simp add: findCRLF_def load_readable) (simp add: peek_def)
qed

lemma retrieveUntil_ok:
  assumes "buf_ok b" and "k \<le> length (contents b)"
  shows "\<exists>b'. retrieveUntil (readerIndex b + k) b = Inr b' \<and> buf_ok b' \<and>
      contents b' = drop k (contents b) \<and> writerIndex b' = writerIndex b"
proof -
  have "readerIndex b + k \<le> writerIndex b"
    using assms buf_ok_indices(1) [OF assms(1)] by simp
  with retrieve_ok [OF assms] show ?thesis
    by (auto simp: retrieveUntil_def peek_def beginWrite_def)
qed

lemma store_at_writer_ok:
  assumes "buf_ok b" and "length d \<le> length (buffer b) - writerIndex b"
  defines "v \<equiv> take (writerIndex b) (buffer b) @ d @ drop (writerIndex b + length d) (buffer b)"
  shows "buf_ok (b\<lparr>buffer := v, writerIndex := writerIndex b + length d\<rparr>)"
    and "contents (b\<lparr>buffer := v, writerIndex := writerIndex b + length d\<rparr>) = contents b @ d"
    and "length v = length (buffer b)"
    and "store_bytes (buffer b) (writerIndex b) d = Inr v"
proof -
  note i = buf_ok_indices [OF assms(1)]
  have fits: "writerIndex b + length d \<le> length (buffer b)" using assms(2) i(2) by linarith
  show "length v = length (buffer b)" using fits by (simp add: v_def)
  then show "buf_ok (b\<lparr>buffer := v, writerIndex := writerIndex b + length d\<rparr>)"
    using fits i by (simp add: buf_ok_def)
  show "contents (b\<lparr>buffer := v, writerIndex := writerIndex b + length d\<rparr>) = contents b @ d"
    using contents_store_write [OF i(1) fits] by (simp add: contents_def v_def)
  show "store_bytes (buffer b) (writerIndex b) d = Inr v"
    using fits by (simp add: store_bytes_fits v_def)
qed

lemma readFd_ok:
  assumes "buf_ok b" and "length (buffer b) + length d \<le> vector_max_size"
  shows "\<exists>b'. readFd (Readv_bytes d) b = Inr (b', int (length d), None) \<and> buf_ok b' \<and>
      contents b' = contents b @ d"
proof (cases "length d \<le> length (buffer b) - writerIndex b")
  case True
  have "usize_add (writerIndex b) (length d) = writerIndex b + length d"
    using assms buf_ok_indices [OF assms(1)] by (simp add: usize_add_bounded vector_max_size_def)
  with True store_at_writer_ok [OF assms(1) True] show ?thesis
    by (simp add: readFd_def writableBytes_eq assms(1) Let_def)
next
  case False
  let ?n = "length (buffer b) - writerIndex b"
  let ?d = "take ?n d"
  have le: "length ?d \<le> ?n" by simp
  note st = store_at_writer_ok [OF assms(1) le]
  let ?v = "take (writerIndex b) (buffer b) @ ?d @ drop (writerIndex b + length ?d) (buffer b)"
  let ?b = "b\<lparr>buffer := ?v, writerIndex := writerIndex b + length ?d\<rparr>"
  have w: "writerIndex b + length ?d = length ?v"
    using False buf_ok_indices(2) [OF assms(1)] st(3) by simp
  have "writerIndex ?b + length (drop ?n d) \<le> vector_max_size"
    using assms(2) w st(3) False by simp
  from append_bytes_ok [OF st(1) this] obtain b' where b': "append_bytes (drop ?n d) ?b = Inr b'"
    "buf_ok b'" "contents b' = contents ?b @ drop ?n d" by blast
  have "readFd (Readv_bytes d) b = Inr (b', int (length d), None)"
    using False b'(1) st(4) w by (simp add: readFd_def writableBytes_eq assms(1) Let_def)
  moreover have "contents b' = contents b @ d"
    using b'(3) st(2) by simp
  ultimately show ?thesis using b'(2) by blast
qed

section \<open>The interface of a byte queue\<close>

text \<open>
  What the HTTP layer and the connection rely on: a queue of bytes with a capacity, to which
  blocks are added at the end and from which bytes are taken at the front. \<open>used\<close> bounds the
  room already taken: a block is accepted while \<open>used\<close> stays below the capacity.
\<close>

locale byte_queue =
  fixes ok :: "'b \<Rightarrow> bool"
    and bytes :: "'b \<Rightarrow> string"
    and used :: "'b \<Rightarrow> nat"
    and cap :: nat
    and put :: "string \<Rightarrow> 'b \<Rightarrow> 'b res"
    and discard :: "nat \<Rightarrow> 'b \<Rightarrow> 'b res"
    and take_all :: "'b \<Rightarrow> (string \<times> 'b) res"
  assumes put_ok: "ok b \<Longrightarrow> used b + length d \<le> cap \<Longrightarrow>
      \<exists>b'. put d b = Inr b' \<and> ok b' \<and> bytes b' = bytes b @ d \<and> used b' \<le> used b + length d"
    and discard_ok: "ok b \<Longrightarrow> n \<le> length (bytes b) \<Longrightarrow>
      \<exists>b'. discard n b = Inr b' \<and> ok b' \<and> bytes b' = drop n (bytes b) \<and> used b' \<le> used b"
    and take_all_ok: "ok b \<Longrightarrow>
      \<exists>b'. take_all b = Inr (bytes b, b') \<and> ok b' \<and> bytes b' = []"
begin

lemma put_all_ok:
  assumes "ok b" and "used b + length (concat ds) \<le> cap"
  shows "\<exists>b'. fold_res put ds b = Inr b' \<and> ok b' \<and> bytes b' = bytes b @ concat ds \<and>
      used b' \<le> used b + length (concat ds)"
  using assms
proof (induction ds arbitrary: b)
  case (Cons d ds)
  from Cons.prems have "used b + length d \<le> cap" by simp
  from put_ok [OF Cons.prems(1) this] obtain b1 where
    b1: "put d b = Inr b1" "ok b1" "bytes b1 = bytes b @ d" "used b1 \<le> used b + length d" by blast
  with Cons.prems(2) have "used b1 + length (concat ds) \<le> cap" by simp
  from Cons.IH [OF b1(2) this] b1 show ?case by auto
qed simp

lemma put_all_take_all:
  assumes "ok b" and "used b + length (concat ds) \<le> cap"
  shows "\<exists>b'. andthen (fold_res put ds b) take_all = Inr (bytes b @ concat ds, b') \<and> bytes b' = []"
proof -
  from put_all_ok [OF assms] obtain b1 where
    "fold_res put ds b = Inr b1" "ok b1" "bytes b1 = bytes b @ concat ds" by blast
  with take_all_ok [of b1] show ?thesis by auto
qed

lemma put_all_discard_take_all:
  assumes "ok b" and "used b + length (concat ds) \<le> cap"
    and "n \<le> length (bytes b @ concat ds)"
  shows "\<exists>b'. andthen (fold_res put ds b) (\<lambda>b1. andthen (discard n b1) take_all) =
      Inr (drop n (bytes b @ concat ds), b') \<and> bytes b' = []"
proof -
  from put_all_ok [OF assms(1,2)] obtain b1 where
    b1: "fold_res put ds b = Inr b1" "ok b1" "bytes b1 = bytes b @ concat ds" by blast
  with assms(3) discard_ok [of b1 n] obtain b2 where
    "discard n b1 = Inr b2" "ok b2" "bytes b2 = drop n (bytes b @ concat ds)" by auto
  with b1 take_all_ok [of b2] show ?thesis by auto
qed

end

interpretation bq: byte_queue buf_ok contents writerIndex vector_max_size
  append_bytes retrieve retrieveAsString
proof unfold_locales
  fix b :: Buffer and n
  assume "buf_ok b" and "n \<le> length (contents b)"
  from retrieve_ok [OF this] show "\<exists>b'. retrieve n b = Inr b' \<and> buf_ok b' \<and>
      contents b' = drop n (contents b) \<and> writerIndex b' \<le> writerIndex b" by auto
qed (auto intro: append_bytes_ok simp: retrieveAsString_ok retrieveAll_ok)

section \<open>Sequences of operations\<close>

text \<open>
  The operations a client may perform between construction and destruction. \<open>hasWritten\<close> and
  \<open>shrink\<close> are left out: the first is meant for a caller that has filled the area itself, and
  the second does not keep the invariant (see \<open>shrink_spec\<close>).
\<close>

datatype buf_op =
    Append string
  | Prepend string
  | Retrieve nat
  | RetrieveAll
  | EnsureWritable nat
  | ReadFd readv_result

fun buf_step :: "buf_op \<Rightarrow> Buffer \<Rightarrow> Buffer res" where
  "buf_step (Append d) b = append_bytes d b"
| "buf_step (Prepend d) b = prepend d b"
| "buf_step (Retrieve n) b = retrieve n b"
| "buf_step RetrieveAll b = Inr (retrieveAll b)"
| "buf_step (EnsureWritable n) b = ensureWritableBytes n b"
| "buf_step (ReadFd r) b = andthen (readFd r b) (\<lambda>(b', _, _). Inr b')"

text \<open>A block of bytes lives in memory, so it is no longer than a vector can be.\<close>

fun op_fits :: "buf_op \<Rightarrow> bool" where
  "op_fits (Append d) = (length d \<le> vector_max_size)"
| "op_fits (EnsureWritable n) = (n \<le> vector_max_size)"
| "op_fits (ReadFd (Readv_bytes d)) = (length d \<le> vector_max_size)"
| "op_fits _ = True"

definition defined_outcome :: "Buffer res \<Rightarrow> bool" where
  "defined_outcome r \<longleftrightarrow> (case r of Inl f \<Rightarrow> f = Assert_failed \<or> f = Length_error | Inr b \<Rightarrow> buf_ok b)"

lemma prepend_too_much: "readerIndex b < length d \<Longrightarrow> prepend d b = Inl Assert_failed"
  by (simp add: prepend_def prependableBytes_def)

lemma readFd_outcome:
  assumes "buf_ok b" and "length d \<le> vector_max_size"
  shows "readFd (Readv_bytes d) b = Inl Length_error \<or>
      (\<exists>b'. readFd (Readv_bytes d) b = Inr (b', int (length d), None) \<and> buf_ok b')"
proof (cases "length d \<le> length (buffer b) - writerIndex b")
  case True
  have "usize_add (writerIndex b) (length d) = writerIndex b + length d"
    using assms buf_ok_indices [OF assms(1)] by (simp add: usize_add_bounded vector_max_size_def)
  with True store_at_writer_ok [OF assms(1) True] show ?thesis
    by (simp add: readFd_def writableBytes_eq assms(1) Let_def)
next
  case False
  let ?n = "length (buffer b) - writerIndex b"
  have le: "length (take ?n d) \<le> ?n" by simp
  note st = store_at_writer_ok [OF assms(1) le]
  let ?v = "take (writerIndex b) (buffer b) @ take ?n d @
    drop (writerIndex b + length (take ?n d)) (buffer b)"
  let ?b = "b\<lparr>buffer := ?v, writerIndex := writerIndex b + length (take ?n d)\<rparr>"
  have w: "writerIndex b + length (take ?n d) = length ?v"
    using False buf_ok_indices(2) [OF assms(1)] st(3) by simp
  have eq: "readFd (Readv_bytes d) b =
      andthen (append_bytes (drop ?n d) ?b) (\<lambda>b'. Inr (b', int (length d), None))"
    using False st(4) w by (simp add: readFd_def writableBytes_eq assms(1) Let_def)
  have "length (drop ?n d) \<le> vector_max_size" using assms(2) by simp
  from append_bytes_cases [OF st(1) this] show ?thesis
    unfolding eq by (cases "append_bytes (drop ?n d) ?b") auto
qed

lemma buf_step_defined:
  assumes "buf_ok b" and "op_fits x"
  shows "defined_outcome (buf_step x b)"
proof (cases x)
  case (Append d)
  with assms append_bytes_cases [of b d] show ?thesis
    by (auto simp: defined_outcome_def split: sum.splits)
next
  case (Prepend d)
  with assms prepend_ok [of b d] prepend_too_much [of b d] show ?thesis
    by (cases "length d \<le> readerIndex b") (auto simp: defined_outcome_def)
next
  case (Retrieve n)
  with assms retrieve_ok [of b n] retrieve_too_much [of b n] show ?thesis
    by (cases "n \<le> length (contents b)") (auto simp: defined_outcome_def)
next
  case RetrieveAll
  with assms retrieveAll_ok show ?thesis by (simp add: defined_outcome_def)
next
  case (EnsureWritable n)
  with assms ensureWritableBytes_ok [of b n] show ?thesis
    by (auto simp: defined_outcome_def split: sum.splits)
next
  case (ReadFd r)
  show ?thesis
  proof (cases r)
    case (Readv_bytes d)
    with ReadFd assms readFd_outcome [of b d] show ?thesis by (auto simp: defined_outcome_def)
  next
    case (Readv_failed e)
    with ReadFd assms show ?thesis by (simp add: defined_outcome_def readFd_def)
  qed
qed

lemma buf_run_defined:
  "buf_ok b \<Longrightarrow> list_all op_fits xs \<Longrightarrow> defined_outcome (fold_res buf_step xs b)"
proof (induction xs arbitrary: b)
  case Nil
  then show ?case by (simp add: defined_outcome_def)
next
  case (Cons x xs)
  then have "defined_outcome (buf_step x b)" by (simp add: buf_step_defined)
  with Cons show ?case by (cases "buf_step x b") (auto simp: defined_outcome_def)
qed

section \<open>Properties\<close>

text \<open>A small buffer for the witnesses: two bytes consumed, three readable, three writable.\<close>

definition sample_buffer :: Buffer where
  "sample_buffer = \<lparr>buffer = ''........xxabc---'', readerIndex = 10, writerIndex = 13\<rparr>"

lemma sample_buffer_ok [simp]: "buf_ok sample_buffer" "contents sample_buffer = ''abc''"
  by (simp_all add: sample_buffer_def buf_ok_def kCheapPrepend_def vector_max_size_def contents_def)

text \<open>
  Property C9. \<open>append\<close> on a well-formed buffer adds the block at the end of the readable bytes,
  keeping everything that was readable, whether it fits, is made to fit by moving the readable
  bytes to the front, or the vector is enlarged. No assertion of \<open>ensureWritableBytes\<close> and
  \<open>makeSpace\<close> fails and no byte outside the vector is touched; the only failure is the
  \<open>length_error\<close> of a vector that would exceed its maximal size.
\<close>

theorem append_spec:
  assumes "buf_ok b" and "length d \<le> vector_max_size"
  shows "case append_bytes d b of
      Inl f \<Rightarrow> f = Length_error \<and> vector_max_size < writerIndex b + length d
    | Inr b' \<Rightarrow> buf_ok b' \<and> contents b' = contents b @ d \<and>
        writerIndex b' \<le> writerIndex b + length d"
  using assms by (rule append_bytes_cases)

theorem append_spec_witness:
  "\<exists>b'. append_bytes ''defgh'' sample_buffer = Inr b' \<and> contents b' = ''abcdefgh''"
proof -
  have h: "length ''defgh'' \<le> vector_max_size" by (simp add: vector_max_size_def)
  have "writerIndex sample_buffer = 13" by (simp add: sample_buffer_def)
  with append_spec [OF sample_buffer_ok(1) h] show ?thesis
    by (cases "append_bytes ''defgh'' sample_buffer") (auto simp: vector_max_size_def)
qed

text \<open>
  The buffer is a first-in first-out queue of bytes: after any sequence of appended
  blocks, discarding \<open>n\<close> bytes and taking the rest as a string yields the readable bytes
  followed by all blocks in order, without the first \<open>n\<close>, and leaves nothing.
\<close>

theorem Buffer_fifo:
  assumes "buf_ok b" and "writerIndex b + length (concat ds) \<le> vector_max_size"
    and "n \<le> length (contents b @ concat ds)"
  shows "\<exists>b'. andthen (fold_res append_bytes ds b) (\<lambda>b1. andthen (retrieve n b1) retrieveAsString) =
      Inr (drop n (contents b @ concat ds), b') \<and> contents b' = []"
  using assms by (rule bq.put_all_discard_take_all)

theorem Buffer_fifo_witness:
  "\<exists>b'. andthen (fold_res append_bytes [''de'', ''fgh''] sample_buffer)
      (\<lambda>b1. andthen (retrieve 4 b1) retrieveAsString) = Inr (''efgh'', b') \<and> contents b' = []"
  using Buffer_fifo [OF sample_buffer_ok(1), of "[''de'', ''fgh'']" 4]
  by (simp add: sample_buffer_def vector_max_size_def contents_def)

text \<open>
  \<open>readFd\<close> appends exactly the bytes \<open>readv\<close> delivered, also when they overflow the
  writable part of the vector into \<open>extrabuf\<close>, and returns their number; when \<open>readv\<close> fails the
  buffer is unchanged and the error number is saved.
\<close>

theorem readFd_spec:
  assumes "buf_ok b" and "length (buffer b) + length d \<le> vector_max_size"
  shows "(\<exists>b'. readFd (Readv_bytes d) b = Inr (b', int (length d), None) \<and> buf_ok b' \<and>
      contents b' = contents b @ d) \<and> readFd (Readv_failed e) b = Inr (b, -1, Some e)"
  using readFd_ok [OF assms] by (simp add: readFd_def)

theorem readFd_spec_witness:
  "\<exists>b'. readFd (Readv_bytes ''GET /index'') sample_buffer = Inr (b', 10, None) \<and>
      contents b' = ''abcGET /index''"
  using readFd_spec [OF sample_buffer_ok(1), of "''GET /index''" 0]
  by (auto simp: sample_buffer_def vector_max_size_def contents_def)



text \<open>
  \<open>shrink\<close> moves the readable bytes to offset \<open>kCheapPrepend\<close> of a new vector but does not
  move the two indices. When nothing was consumed the readable bytes are kept; otherwise the
  result is well formed exactly if the reserve makes up for the consumed bytes, and the writer
  index points past the end of the vector if it does not.
\<close>

theorem shrink_spec:
  assumes "buf_ok b" and "kCheapPrepend + length (contents b) + reserve \<le> vector_max_size"
  shows "\<exists>b'. shrink reserve b = Inr b' \<and>
      (buf_ok b' \<longleftrightarrow> readerIndex b \<le> kCheapPrepend + reserve) \<and>
      (readerIndex b = kCheapPrepend \<longrightarrow> contents b' = contents b)"
proof -
  note i = buf_ok_indices [OF assms(1)]
  let ?n = "kCheapPrepend + length (contents b) + reserve"
  have add: "usize_add (usize_add kCheapPrepend (readableBytes b)) reserve = ?n"
    using assms i by (simp add: usize_add_bounded readableBytes_eq vector_max_size_def)
  let ?v = "replicate kCheapPrepend (CHR 0x00) @ contents b @ replicate reserve (CHR 0x00)"
  have "shrink reserve b = Inr (b\<lparr>buffer := ?v\<rparr>)"
    unfolding shrink_def add using assms
    by (simp add: vector_resize_def load_readable store_bytes_def check_def del: length_contents)
  moreover have "buf_ok (b\<lparr>buffer := ?v\<rparr>) \<longleftrightarrow> readerIndex b \<le> kCheapPrepend + reserve"
    using assms i by (auto simp: buf_ok_def [of "b\<lparr>buffer := ?v\<rparr>"])
  moreover have "readerIndex b = kCheapPrepend \<Longrightarrow> contents (b\<lparr>buffer := ?v\<rparr>) = contents b"
    using assms(1) by (simp add: contents_def [of "b\<lparr>buffer := ?v\<rparr>"])
  ultimately show ?thesis by blast
qed

theorem shrink_spec_witness:
  "\<exists>b'. shrink 0 sample_buffer = Inr b' \<and> \<not> buf_ok b'"
  using shrink_spec [OF sample_buffer_ok(1), of 0]
  by (auto simp: sample_buffer_def kCheapPrepend_def vector_max_size_def contents_def)

end
