(* ===== verification/Sock_Addr.thy ===== *)
theory Sock_Addr
  imports Tractor_Prelude
begin

unbundle bit_operations_syntax

text \<open>
  \<open>include/tractor/SockAddr.h\<close> and \<open>src/SockAddr.cpp\<close>: the wrapper of \<open>sockaddr_in\<close>. The fields hold
  their values in network byte order; the host is little-endian, so \<open>htons\<close> and \<open>ntohs\<close> swap the
  two bytes. \<open>inet_aton\<close> is an argument of the constructor that uses it.
\<close>

section \<open>Byte order\<close>

definition htons :: "16 word \<Rightarrow> 16 word" where
  "htons x = push_bit 8 x OR drop_bit 8 x"

definition ntohs :: "16 word \<Rightarrow> 16 word" where
  "ntohs x = push_bit 8 x OR drop_bit 8 x"

lemma ntohs_htons [simp]: "ntohs (htons x) = x"
  unfolding ntohs_def htons_def
  by (rule bit_word_eqI) (auto simp: bit_simps)

section \<open>The address\<close>

record sockaddr_in =
  sin_family :: "16 word"
  sin_port :: "16 word"
  sin_addr :: "32 word"

definition AF_INET :: "16 word" where
  "AF_INET = 2"

definition SockAddr_ip :: "(string \<Rightarrow> 32 word option) \<Rightarrow> string \<Rightarrow> 16 word \<Rightarrow> sockaddr_in" where
  "SockAddr_ip inet_aton ip port =
     \<lparr>sin_family = AF_INET, sin_port = port,
      sin_addr = (case inet_aton ip of None \<Rightarrow> 0 | Some a \<Rightarrow> a)\<rparr>"

definition SockAddr_port :: "16 word \<Rightarrow> sockaddr_in" where
  "SockAddr_port port = \<lparr>sin_family = AF_INET, sin_port = htons port, sin_addr = 0\<rparr>"

definition SockAddr_copy :: "sockaddr_in \<Rightarrow> sockaddr_in" where
  "SockAddr_copy addr = addr"

definition family :: "sockaddr_in \<Rightarrow> 16 word" where
  "family a = sin_family a"

text \<open>\<open>inet_ntop\<close> prints the four bytes of the address in memory order.\<close>

definition addr_byte :: "nat \<Rightarrow> 32 word \<Rightarrow> nat" where
  "addr_byte i a = unat (take_bit 8 (drop_bit (8 * i) a))"

definition inet_ntop :: "32 word \<Rightarrow> string" where
  "inet_ntop a = print_nat (addr_byte 0 a) @ ''.'' @ print_nat (addr_byte 1 a) @ ''.'' @
     print_nat (addr_byte 2 a) @ ''.'' @ print_nat (addr_byte 3 a)"

definition SockAddr_toString :: "sockaddr_in \<Rightarrow> string" where
  "SockAddr_toString a =
     (let host = inet_ntop (sin_addr a); port = ntohs (sin_port a)
      in snprintf 32 (host @ '':'' @ print_nat (unat port)))"

section \<open>Lemmas\<close>

lemma addr_byte_bound: "addr_byte i a < 256"
  using take_bit_nat_less_exp [of 8 "unat (drop_bit (8 * i) a)"]
  by (simp add: addr_byte_def unsigned_take_bit_eq)

lemma length_inet_ntop: "length (inet_ntop a) \<le> 15"
proof -
  have "length (print_nat (addr_byte i a)) \<le> 3" for i
    using addr_byte_bound [of i a] by (intro length_print_nat) auto
  from this [of 0] this [of 1] this [of 2] this [of 3] show ?thesis by (simp add: inet_ntop_def)
qed

lemma toString_fits:
  "SockAddr_toString a = inet_ntop (sin_addr a) @ '':'' @ print_nat (unat (ntohs (sin_port a)))"
proof -
  have "unat (ntohs (sin_port a)) < 10 ^ 5"
    using unsigned_less [where 'a = nat, of "ntohs (sin_port a)"] by simp
  then have "length (print_nat (unat (ntohs (sin_port a)))) \<le> 5" by (intro length_print_nat) auto
  with length_inet_ntop [of "sin_addr a"] show ?thesis
    by (simp add: SockAddr_toString_def snprintf_fits)
qed

section \<open>Properties\<close>

text \<open>
  \<open>toString\<close> is never truncated by its buffer of 32 bytes. For an address made from a port
  it is the wildcard address and that port; for an address made from a dotted address and a
  port it shows the port with its two bytes exchanged, because that constructor stores the port
  without \<open>htons\<close>: the printed (and bound) port is right only if the two bytes are equal.
\<close>

theorem SockAddr_toString_ports:
  "SockAddr_toString (SockAddr_port port) = ''0.0.0.0:'' @ print_nat (unat port) \<and>
   SockAddr_toString (SockAddr_ip aton ip port) =
     inet_ntop (sin_addr (SockAddr_ip aton ip port)) @ '':'' @ print_nat (unat (htons port)) \<and>
   length (SockAddr_toString a) < 32"
proof (intro conjI)
  have "digit_char 0 = CHR ''0''" by code_simp
  then have "inet_ntop 0 = ''0.0.0.0''"
    by (simp add: inet_ntop_def addr_byte_def print_nat_def dec_digits.simps)
  then show "SockAddr_toString (SockAddr_port port) = ''0.0.0.0:'' @ print_nat (unat port)"
    by (simp add: toString_fits SockAddr_port_def)
  show "SockAddr_toString (SockAddr_ip aton ip port) =
     inet_ntop (sin_addr (SockAddr_ip aton ip port)) @ '':'' @ print_nat (unat (htons port))"
    by (simp add: toString_fits SockAddr_ip_def htons_def ntohs_def)
  show "length (SockAddr_toString a) < 32"
    by (simp add: SockAddr_toString_def snprintf_def Let_def)
qed

lemma htons_8000: "htons 8000 = 16415"
  by (simp add: htons_def)

end
