(* ===== verification/Tcp_Connection.thy ===== *)
theory Tcp_Connection
  imports Event_Loop Buffer Sock_Addr
begin

text \<open>
  \<open>include/tractor/Socket.h\<close>, \<open>src/Socket.cpp\<close>, \<open>include/tractor/TcpConnection.h\<close> and
  \<open>src/TcpConnection.cpp\<close>. The state extends that of the loop: connections are heap objects
  (\<open>conns\<close>), \<open>wire fd\<close> is what the kernel has accepted on a descriptor, \<open>sysret\<close> and \<open>rdret\<close>
  are the outcomes that the coming calls of \<open>write\<close> and \<open>readv\<close> will have, and \<open>sys_log\<close> records the
  other system calls. A \<open>write\<close> never accepts more than it was given. The functors that the
  library queues are the datatype \<open>tcp_functor\<close>. The callbacks of a connection are functions on
  the state, passed to the operations that call them; an empty \<open>std::function\<close> is \<open>None\<close>.
\<close>

section \<open>State\<close>

datatype ConnectState = kConnecting | kConnected | kDisconnected | kDisconnecting

datatype tcp_functor =
    Fn_sendInLoop nat string
  | Fn_shutdownInLoop nat
  | Fn_writeComplete nat
  | Fn_connectEstablished nat
  | Fn_connectDestroyed nat
  | Fn_removeConnectionInLoop nat
  | Fn_Listen

datatype sys_call =
    Sys_bind int sockaddr_in
  | Sys_listen int
  | Sys_shutdown_wr int
  | Sys_nodelay int int
  | Sys_close int

record 'ctx TcpConnection =
  conn_loop :: nat
  name :: string
  conn_state :: ConnectState
  localAddr :: sockaddr_in
  peerAddr :: sockaddr_in
  channel :: nat
  socketFd :: int
  inputBuffer :: Buffer
  outputBuffer :: Buffer
  highWaterMark :: "nat option"
  conn_context :: "'ctx option"

record 'ctx tcp_world = "tcp_functor loop_world" +
  conns :: "nat \<Rightarrow> 'ctx TcpConnection option"
  wire :: "int \<Rightarrow> string"
  sysret :: "int list"
  rdret :: "readv_result list"
  sys_log :: "sys_call list"

type_synonym ('ctx, 'w) nworld = "('ctx, 'w) tcp_world_scheme"

record 'w conn_callbacks =
  connectionCallback :: "(nat \<Rightarrow> 'w \<Rightarrow> 'w res) option"
  messageCallback :: "(nat \<Rightarrow> int \<Rightarrow> 'w \<Rightarrow> 'w res) option"
  connCloseCallback :: "(nat \<Rightarrow> 'w \<Rightarrow> 'w res) option"
  writeCompleteCallback :: "(nat \<Rightarrow> 'w \<Rightarrow> 'w res) option"

definition invoke :: "'c option \<Rightarrow> ('c \<Rightarrow> 'a res) \<Rightarrow> 'a res" where
  "invoke cb k = (case cb of None \<Rightarrow> Inl Bad_function_call | Some f \<Rightarrow> k f)"

definition with_conn :: "nat \<Rightarrow> ('ctx, 'w) nworld \<Rightarrow> ('ctx TcpConnection \<Rightarrow> 'a res) \<Rightarrow> 'a res" where
  "with_conn c w k = (case conns w c of None \<Rightarrow> Inl Use_after_free | Some cn \<Rightarrow> k cn)"

definition put_conn :: "nat \<Rightarrow> 'ctx TcpConnection \<Rightarrow> ('ctx, 'w) nworld \<Rightarrow> ('ctx, 'w) nworld" where
  "put_conn c cn w = w\<lparr>conns := (conns w)(c \<mapsto> cn)\<rparr>"

section \<open>Sockets\<close>

definition syscall :: "sys_call \<Rightarrow> ('ctx, 'w) nworld \<Rightarrow> ('ctx, 'w) nworld" where
  "syscall x w = w\<lparr>sys_log := sys_log w @ [x]\<rparr>"

definition Socket_delete :: "int \<Rightarrow> ('ctx, 'w) nworld \<Rightarrow> ('ctx, 'w) nworld" where
  "Socket_delete fd w = syscall (Sys_close fd) w"

definition Socket_Bind :: "int \<Rightarrow> sockaddr_in \<Rightarrow> ('ctx, 'w) nworld \<Rightarrow> ('ctx, 'w) nworld" where
  "Socket_Bind fd serverAddr w = syscall (Sys_bind fd serverAddr) w"

definition Socket_Listen :: "int \<Rightarrow> ('ctx, 'w) nworld \<Rightarrow> ('ctx, 'w) nworld" where
  "Socket_Listen fd w = syscall (Sys_listen fd) w"

definition shutdownWrite :: "int \<Rightarrow> ('ctx, 'w) nworld \<Rightarrow> ('ctx, 'w) nworld" where
  "shutdownWrite fd w = syscall (Sys_shutdown_wr fd) w"

definition Socket_setTcpNoDelay :: "int \<Rightarrow> bool \<Rightarrow> ('ctx, 'w) nworld \<Rightarrow> ('ctx, 'w) nworld" where
  "Socket_setTcpNoDelay fd enable w =
     (let optval = (if enable then 1 else 0) in syscall (Sys_nodelay fd optval) w)"

text \<open>\<open>write\<close> and \<open>readv\<close>; with nothing left in the list they would block.\<close>

definition sys_write :: "int \<Rightarrow> string \<Rightarrow> ('ctx, 'w) nworld \<Rightarrow> int \<times> ('ctx, 'w) nworld" where
  "sys_write fd d w =
     (case sysret w of
        [] \<Rightarrow> (-1, w)
      | r # rs \<Rightarrow>
          if r < 0 then (-1, w\<lparr>sysret := rs\<rparr>)
          else (let n = min (nat r) (length d)
                in (int n, w\<lparr>sysret := rs, wire := (wire w)(fd := wire w fd @ take n d)\<rparr>)))"

definition sys_readv :: "('ctx, 'w) nworld \<Rightarrow> readv_result \<times> ('ctx, 'w) nworld" where
  "sys_readv w =
     (case rdret w of [] \<Rightarrow> (Readv_failed 11, w) | r # rs \<Rightarrow> (r, w\<lparr>rdret := rs\<rparr>))"

section \<open>The connection\<close>

text \<open>The constructor allocates the channel at the address \<open>p\<close>; the buffers are those of \<open>Buffer_new\<close>.\<close>

definition TcpConnection_new ::
    "nat \<Rightarrow> nat \<Rightarrow> nat \<Rightarrow> string \<Rightarrow> int \<Rightarrow> sockaddr_in \<Rightarrow> sockaddr_in \<Rightarrow>
     ('ctx, 'w) nworld \<Rightarrow> ('ctx, 'w) nworld res" where
  "TcpConnection_new c p loop nm sockfd local peer w =
     andthen Buffer_new (\<lambda>ib. andthen Buffer_new (\<lambda>ob.
       Inr (put_conn c \<lparr>conn_loop = loop, name = nm, conn_state = kConnecting, localAddr = local,
              peerAddr = peer, channel = p, socketFd = sockfd, inputBuffer = ib, outputBuffer = ob,
              highWaterMark = None, conn_context = None\<rparr>
            (put_chan p (Channel_new loop sockfd) w))))"

text \<open>The destructor: members die in the reverse order of declaration, the socket before the channel.\<close>

definition TcpConnection_delete :: "nat \<Rightarrow> ('ctx, 'w) nworld \<Rightarrow> ('ctx, 'w) nworld res" where
  "TcpConnection_delete c w =
     with_conn c w (\<lambda>cn.
       let w1 = Socket_delete (socketFd cn) w
       in with_chan (channel cn) w1 (\<lambda>ch.
            andthen (Channel_delete ch) (\<lambda>_.
              Inr (w1\<lparr>chans := (chans w1)(channel cn := None), conns := (conns w1)(c := None)\<rparr>))))"

definition setState :: "nat \<Rightarrow> ConnectState \<Rightarrow> ('ctx, 'w) nworld \<Rightarrow> ('ctx, 'w) nworld res" where
  "setState c s w = with_conn c w (\<lambda>cn. Inr (put_conn c (cn\<lparr>conn_state := s\<rparr>) w))"

definition connected :: "nat \<Rightarrow> ('ctx, 'w) nworld \<Rightarrow> bool res" where
  "connected c w = with_conn c w (\<lambda>cn. Inr (conn_state cn = kConnected))"

definition setContext :: "nat \<Rightarrow> 'ctx \<Rightarrow> ('ctx, 'w) nworld \<Rightarrow> ('ctx, 'w) nworld res" where
  "setContext c x w = with_conn c w (\<lambda>cn. Inr (put_conn c (cn\<lparr>conn_context := Some x\<rparr>) w))"

definition setHighWaterMark :: "nat \<Rightarrow> nat \<Rightarrow> ('ctx, 'w) nworld \<Rightarrow> ('ctx, 'w) nworld res" where
  "setHighWaterMark c n w = with_conn c w (\<lambda>cn. Inr (put_conn c (cn\<lparr>highWaterMark := Some n\<rparr>) w))"

definition setTcpNoDelay :: "nat \<Rightarrow> bool \<Rightarrow> ('ctx, 'w) nworld \<Rightarrow> ('ctx, 'w) nworld res" where
  "setTcpNoDelay c on w = with_conn c w (\<lambda>cn. Inr (Socket_setTcpNoDelay (socketFd cn) on w))"

definition connectEstablished ::
    "('ctx, 'w) nworld conn_callbacks \<Rightarrow> nat \<Rightarrow> ('ctx, 'w) nworld \<Rightarrow> ('ctx, 'w) nworld res" where
  "connectEstablished cbs c w =
     with_conn c w (\<lambda>cn.
       asserting (conn_state cn = kConnecting)
        (andthen (setState c kConnected w) (\<lambda>w1.
         andthen (enableReading (channel cn) w1) (\<lambda>w2.
         invoke (connectionCallback cbs) (\<lambda>f. f c w2)))))"

definition handleClose ::
    "('ctx, 'w) nworld conn_callbacks \<Rightarrow> nat \<Rightarrow> ('ctx, 'w) nworld \<Rightarrow> ('ctx, 'w) nworld res" where
  "handleClose cbs c w =
     with_conn c w (\<lambda>cn.
       asserting (conn_state cn = kConnected \<or> conn_state cn = kDisconnecting)
        (andthen (disableAll (channel cn) w) (\<lambda>w1.
         invoke (connCloseCallback cbs) (\<lambda>f. f c w1))))"

text \<open>\<open>handleError_\<close> asks for the pending error of the socket and prints it.\<close>

definition handleError :: "nat \<Rightarrow> ('ctx, 'w) nworld \<Rightarrow> ('ctx, 'w) nworld res" where
  "handleError c w = with_conn c w (\<lambda>cn. with_chan (channel cn) w (\<lambda>ch. Inr w))"

definition conn_handleRead ::
    "('ctx, 'w) nworld conn_callbacks \<Rightarrow> nat \<Rightarrow> int \<Rightarrow> ('ctx, 'w) nworld \<Rightarrow> ('ctx, 'w) nworld res" where
  "conn_handleRead cbs c receiveTime w =
     with_conn c w (\<lambda>cn. with_chan (channel cn) w (\<lambda>ch.
       let (r, w1) = sys_readv w
       in andthen (readFd r (inputBuffer cn)) (\<lambda>(ib, n, savedErrno).
          let w2 = put_conn c (cn\<lparr>inputBuffer := ib\<rparr>) w1
          in if 0 < n then invoke (messageCallback cbs) (\<lambda>f. f c receiveTime w2)
             else if n = 0 then handleClose cbs c w2
             else handleError c w2)))"

definition connectDestroyed ::
    "('ctx, 'w) nworld conn_callbacks \<Rightarrow> nat \<Rightarrow> ('ctx, 'w) nworld \<Rightarrow> ('ctx, 'w) nworld res" where
  "connectDestroyed cbs c w =
     with_conn c w (\<lambda>cn.
       asserting (conn_state cn = kConnected \<or> conn_state cn = kDisconnecting)
        (andthen (setState c kDisconnected w) (\<lambda>w1.
         andthen (disableAll (channel cn) w1) (\<lambda>w2.
         andthen (invoke (connectionCallback cbs) (\<lambda>f. f c w2)) (\<lambda>w3.
         loop_removeChannel (channel cn) w3)))))"

definition shutdownInLoop :: "nat \<Rightarrow> ('ctx, 'w) nworld \<Rightarrow> ('ctx, 'w) nworld res" where
  "shutdownInLoop c w =
     with_conn c w (\<lambda>cn. with_chan (channel cn) w (\<lambda>ch.
       Inr (if \<not> isWriting ch then shutdownWrite (socketFd cn) w else w)))"

definition conn_shutdown :: "int \<Rightarrow> nat \<Rightarrow> ('ctx, 'w) nworld \<Rightarrow> ('ctx, 'w) nworld res" where
  "conn_shutdown tid c w =
     with_conn c w (\<lambda>cn.
       if conn_state cn = kConnected
       then andthen (setState c kDisconnecting w)
              (runInLoop (\<lambda>_. shutdownInLoop c) tid (Fn_shutdownInLoop c))
       else Inr w)"

text \<open>\<open>wc\<close> is whether \<open>writeCompleteCallback_\<close> is set.\<close>

definition queue_writeComplete :: "int \<Rightarrow> bool \<Rightarrow> nat \<Rightarrow> ('ctx, 'w) nworld \<Rightarrow> ('ctx, 'w) nworld" where
  "queue_writeComplete tid wc c w = (if wc then queueInLoop tid (Fn_writeComplete c) w else w)"

definition conn_handleWrite :: "int \<Rightarrow> bool \<Rightarrow> nat \<Rightarrow> ('ctx, 'w) nworld \<Rightarrow> ('ctx, 'w) nworld res" where
  "conn_handleWrite tid wc c w =
     with_conn c w (\<lambda>cn. with_chan (channel cn) w (\<lambda>ch.
       if isWriting ch
       then
         andthen (load_bytes (buffer (outputBuffer cn)) (peek (outputBuffer cn)) (readableBytes (outputBuffer cn)))
         (\<lambda>d.
           let (n, w1) = sys_write (chan_fd ch) d w
           in if 0 < n
              then andthen (retrieve (nat n) (outputBuffer cn)) (\<lambda>ob.
                   let w2 = put_conn c (cn\<lparr>outputBuffer := ob\<rparr>) w1
                   in if readableBytes ob = 0
                      then andthen (disableWriting (channel cn) w2) (\<lambda>w3.
                           let w4 = queue_writeComplete tid wc c w3
                           in if conn_state cn = kDisconnecting then shutdownInLoop c w4 else Inr w4)
                      else Inr w2)
              else Inr w1)
       else Inr w))"

definition sendInLoop ::
    "int \<Rightarrow> bool \<Rightarrow> nat \<Rightarrow> string \<Rightarrow> ('ctx, 'w) nworld \<Rightarrow> ('ctx, 'w) nworld res" where
  "sendInLoop tid wc c message w =
     with_conn c w (\<lambda>cn. with_chan (channel cn) w (\<lambda>ch.
       let direct = (\<not> isWriting ch \<and> readableBytes (outputBuffer cn) = 0);
           (r, w1) = (if direct then sys_write (chan_fd ch) message w else (0, w));
           w2 = (if direct \<and> 0 \<le> r \<and> length message \<le> nat r then queue_writeComplete tid wc c w1 else w1);
           nwrote = (if r < 0 then 0 else r)
       in asserting (0 \<le> nwrote)
            (if nat nwrote < length message
             then andthen (append_bytes (drop (nat nwrote) message) (outputBuffer cn)) (\<lambda>ob.
                  let w3 = put_conn c (cn\<lparr>outputBuffer := ob\<rparr>) w2
                  in if \<not> isWriting ch then enableWriting (channel cn) w3 else Inr w3)
             else Inr w2)))"

definition send ::
    "int \<Rightarrow> bool \<Rightarrow> nat \<Rightarrow> string \<Rightarrow> ('ctx, 'w) nworld \<Rightarrow> ('ctx, 'w) nworld res" where
  "send tid wc c message w =
     with_conn c w (\<lambda>cn.
       if conn_state cn = kConnected
       then (if isInLoopThread tid w then sendInLoop tid wc c message w
             else runInLoop (\<lambda>_. sendInLoop tid wc c message) tid (Fn_sendInLoop c message) w)
       else Inr w)"

definition send_buffer ::
    "int \<Rightarrow> bool \<Rightarrow> nat \<Rightarrow> Buffer \<Rightarrow> ('ctx, 'w) nworld \<Rightarrow> (Buffer \<times> ('ctx, 'w) nworld) res" where
  "send_buffer tid wc c buf w =
     with_conn c w (\<lambda>cn.
       if conn_state cn = kConnected
       then andthen (retrieveAsString buf) (\<lambda>(message, buf1).
            if isInLoopThread tid w
            then andthen (sendInLoop tid wc c message w) (\<lambda>w1. Inr (retrieveAll buf1, w1))
            else andthen (runInLoop (\<lambda>_. sendInLoop tid wc c message) tid (Fn_sendInLoop c message) w)
                   (\<lambda>w1. Inr (buf1, w1)))
       else Inr (buf, w))"

text \<open>
  The callbacks that the constructor gives to the channel, and the dispatch of the events that
  \<open>poll\<close> stored in the channel.
\<close>

definition conn_channel_callbacks ::
    "('ctx, 'w) nworld conn_callbacks \<Rightarrow> int \<Rightarrow> nat \<Rightarrow> ('ctx, 'w) nworld callbacks" where
  "conn_channel_callbacks cbs tid c =
     setErrorCallback (handleError c)
      (setCloseCallback (handleClose cbs c)
        (setWriteCallback (conn_handleWrite tid (writeCompleteCallback cbs \<noteq> None) c)
          (setReadCallback (conn_handleRead cbs c) no_callbacks)))"

definition mark_handling :: "nat \<Rightarrow> bool \<Rightarrow> 'w poll_world_scheme \<Rightarrow> 'w poll_world_scheme" where
  "mark_handling p h w =
     (case chans w p of None \<Rightarrow> w | Some ch \<Rightarrow> put_chan p (ch\<lparr>eventHandling := Some h\<rparr>) w)"

definition conn_dispatch ::
    "('ctx, 'w) nworld conn_callbacks \<Rightarrow> int \<Rightarrow> nat \<Rightarrow> int \<Rightarrow> ('ctx, 'w) nworld \<Rightarrow> ('ctx, 'w) nworld res" where
  "conn_dispatch cbs tid c receiveTime w =
     with_conn c w (\<lambda>cn. with_chan (channel cn) w (\<lambda>ch.
       handleEvent (mark_handling (channel cn)) (revents ch) (conn_channel_callbacks cbs tid c)
         receiveTime w))"

text \<open>
  What calling a queued functor does. \<open>server\<close> stands for the functors of \<open>TcpServer\<close> and
  \<open>Acceptor\<close>, which are in the theory \<open>Tcp_Server\<close>.
\<close>

definition tcp_exec ::
    "(tcp_functor \<Rightarrow> ('ctx, 'w) nworld \<Rightarrow> ('ctx, 'w) nworld res) \<Rightarrow> ('ctx, 'w) nworld conn_callbacks \<Rightarrow>
     int \<Rightarrow> tcp_functor \<Rightarrow> ('ctx, 'w) nworld \<Rightarrow> ('ctx, 'w) nworld res" where
  "tcp_exec server cbs tid f w =
     (case f of
        Fn_sendInLoop c message \<Rightarrow> sendInLoop tid (writeCompleteCallback cbs \<noteq> None) c message w
      | Fn_shutdownInLoop c \<Rightarrow> shutdownInLoop c w
      | Fn_writeComplete c \<Rightarrow> invoke (writeCompleteCallback cbs) (\<lambda>g. g c w)
      | Fn_connectEstablished c \<Rightarrow> connectEstablished cbs c w
      | Fn_connectDestroyed c \<Rightarrow> connectDestroyed cbs c w
      | _ \<Rightarrow> server f w)"

section \<open>Invariant\<close>

text \<open>
  An open connection: its channel is registered and reads, its buffers are well-formed, and the
  channel waits for writability exactly when bytes are queued.
\<close>

definition conn_ok :: "nat \<Rightarrow> ('ctx, 'w) nworld \<Rightarrow> bool" where
  "conn_ok c w \<longleftrightarrow>
     (case conns w c of None \<Rightarrow> False
      | Some cn \<Rightarrow> (case chans w (channel cn) of None \<Rightarrow> False
        | Some ch \<Rightarrow> epoll_inv w \<and> index ch = kAdded \<and> chan_fd ch = socketFd cn \<and>
            chan_loop ch = ownerLoop w \<and> bit (events ch) 0 \<and> buf_ok (inputBuffer cn) \<and>
            buf_ok (outputBuffer cn) \<and> (isWriting ch \<longleftrightarrow> contents (outputBuffer cn) \<noteq> [])))"

definition state_of :: "nat \<Rightarrow> ('ctx, 'w) nworld \<Rightarrow> ConnectState option" where
  "state_of c w = map_option conn_state (conns w c)"

definition fd_of :: "nat \<Rightarrow> ('ctx, 'w) nworld \<Rightarrow> int option" where
  "fd_of c w = map_option socketFd (conns w c)"

text \<open>The bytes the kernel has taken, and the bytes that wait in the output buffer.\<close>

definition written :: "nat \<Rightarrow> ('ctx, 'w) nworld \<Rightarrow> string" where
  "written c w = (case fd_of c w of None \<Rightarrow> [] | Some fd \<Rightarrow> wire w fd)"

definition unsent :: "nat \<Rightarrow> ('ctx, 'w) nworld \<Rightarrow> string" where
  "unsent c w = (case conns w c of None \<Rightarrow> [] | Some cn \<Rightarrow> contents (outputBuffer cn))"

definition out_used :: "nat \<Rightarrow> ('ctx, 'w) nworld \<Rightarrow> nat" where
  "out_used c w = (case conns w c of None \<Rightarrow> 0 | Some cn \<Rightarrow> writerIndex (outputBuffer cn))"

definition half_closed :: "nat \<Rightarrow> ('ctx, 'w) nworld \<Rightarrow> bool" where
  "half_closed c w \<longleftrightarrow> (case fd_of c w of None \<Rightarrow> False | Some fd \<Rightarrow> Sys_shutdown_wr fd \<in> set (sys_log w))"

text \<open>What the outgoing side of a connection has no business with.\<close>

definition input_of :: "nat \<Rightarrow> ('ctx, 'w) nworld \<Rightarrow> (Buffer \<times> 'ctx option) option" where
  "input_of c w = map_option (\<lambda>cn. (inputBuffer cn, conn_context cn)) (conns w c)"

lemmas conn_view = input_of_def state_of_def fd_of_def written_def unsent_def out_used_def half_closed_def

lemma conn_okE:
  assumes "conn_ok c w"
  obtains cn ch where "conns w c = Some cn" "chans w (channel cn) = Some ch" "epoll_inv w"
    "index ch = kAdded" "chan_fd ch = socketFd cn" "chan_loop ch = ownerLoop w" "bit (events ch) 0"
    "buf_ok (inputBuffer cn)" "buf_ok (outputBuffer cn)" "isWriting ch \<longleftrightarrow> contents (outputBuffer cn) \<noteq> []"
  using assms by (auto simp: conn_ok_def split: option.splits)

lemma epoll_inv_cong:
  assumes "channels w' = channels w" and "chans w' = chans w" and "ctl_log w' = ctl_log w"
  shows "epoll_inv w' = epoll_inv w"
  unfolding epoll_inv_def channels_inv_def registered_def assms by (rule refl)

lemma epoll_inv_frame [simp]:
  "epoll_inv (w\<lparr>conns := a\<rparr>) = epoll_inv w" "epoll_inv (w\<lparr>wire := b\<rparr>) = epoll_inv w"
  "epoll_inv (w\<lparr>sysret := d\<rparr>) = epoll_inv w" "epoll_inv (w\<lparr>rdret := e\<rparr>) = epoll_inv w"
  "epoll_inv (w\<lparr>sys_log := f\<rparr>) = epoll_inv w"
  by (rule epoll_inv_cong; simp)+

lemma epoll_inv_loop_frame [simp]:
  "epoll_inv (w\<lparr>pendingFunctors := a\<rparr>) = epoll_inv w" "epoll_inv (w\<lparr>wakeup_log := b\<rparr>) = epoll_inv w"
  "epoll_inv (w\<lparr>callingPendingFunctors := d\<rparr>) = epoll_inv w"
  by (rule epoll_inv_cong; simp)+

lemma change_conn:
  assumes "chans w p = Some ch" and "epoll_inv w" and "index ch = kAdded"
    and "chan_loop ch = ownerLoop w" and "remasks f" and "\<not> isNoneEvent (f ch)"
  defines "w' \<equiv> w\<lparr>chans := (chans w)(p \<mapsto> f ch), ctl_log := ctl_log w @ [update_call p (f ch)]\<rparr>"
  shows "change_events f p w = Inr w'" and "epoll_inv w'"
proof -
  have r: "ready p w ch" using assms(1,3,4) by (simp add: ready_def index_values)
  note ff = remasks_fields [OF assms(5), of ch]
  have eq: "updated p (f ch) w = w'"
    using assms(3,6) ff by (simp add: updated_def w'_def index_values setIndex_same)
  have "channels_inv w" using assms(2) by (simp add: epoll_inv_def)
  from change_events_eq [OF this r assms(5)] show "change_events f p w = Inr w'" by (simp add: eq)
  from epoll_inv_updated [OF assms(2) r assms(5)] show "epoll_inv w'" by (simp add: eq)
qed

lemma reading_masks:
  assumes "bit (events ch) 0"
  shows "bit (events (with_writing ch)) 0" "bit (events (without_writing ch)) 0"
    "\<not> isNoneEvent (with_writing ch)" "\<not> isNoneEvent (without_writing ch)"
proof -
  show b: "bit (events (with_writing ch)) 0" "bit (events (without_writing ch)) 0"
    using assms by (simp_all add: with_writing_def without_writing_def kWriteEvent_def bit_simps bit_POLLOUT)
  show "\<not> isNoneEvent (with_writing ch)" "\<not> isNoneEvent (without_writing ch)"
    using b by (auto simp: isNoneEvent_def kNoneEvent_def)
qed

lemma readable_empty: "buf_ok b \<Longrightarrow> readableBytes b = 0 \<longleftrightarrow> contents b = []"
  using length_contents [of b] by (auto simp: readableBytes_eq simp flip: length_0_conv)

text \<open>
  What an operation on an open connection does to the outgoing stream: it stays open, \<open>d\<close> is added
  at the end, and the rest of the connection is kept.
\<close>

definition adds :: "nat \<Rightarrow> string \<Rightarrow> ('ctx, 'w) nworld \<Rightarrow> ('ctx, 'w) nworld \<Rightarrow> bool" where
  "adds c d w w' \<longleftrightarrow> conn_ok c w' \<and> state_of c w' = state_of c w \<and> fd_of c w' = fd_of c w \<and>
     input_of c w' = input_of c w \<and>
     written c w' @ unsent c w' = written c w @ unsent c w @ d \<and>
     out_used c w' \<le> out_used c w + length d \<and> threadId w' = threadId w"

lemma sys_write_eq:
  "\<exists>r k rs. sys_write fd d w = (r, w\<lparr>sysret := rs, wire := (wire w)(fd := wire w fd @ take k d)\<rparr>) \<and>
     k \<le> length d \<and> (r = -1 \<and> k = 0 \<or> r = int k)"
proof (cases "sysret w")
  case Nil
  then show ?thesis by (intro exI [of _ "-1"] exI [of _ 0] exI [of _ "[]"]) (simp add: sys_write_def)
next
  case (Cons r rs)
  show ?thesis
  proof (cases "r < 0")
    case True
    with Cons show ?thesis
      by (intro exI [of _ "-1"] exI [of _ 0] exI [of _ rs]) (simp add: sys_write_def)
  next
    case False
    with Cons show ?thesis
      by (intro exI [of _ "int (min (nat r) (length d))"] exI [of _ "min (nat r) (length d)"] exI [of _ rs])
        (simp add: sys_write_def Let_def)
  qed
qed

lemma write_attempt:
  "\<exists>r k rs. (if direct then sys_write fd d w else (0, w)) =
       (r, w\<lparr>sysret := rs, wire := (wire w)(fd := wire w fd @ take k d)\<rparr>) \<and>
     k \<le> length d \<and> (if r < 0 then 0 else r) = int k \<and> (\<not> direct \<longrightarrow> k = 0)"
proof (cases direct)
  case True
  obtain r k rs where "sys_write fd d w = (r, w\<lparr>sysret := rs, wire := (wire w)(fd := wire w fd @ take k d)\<rparr>)"
      "k \<le> length d" "r = -1 \<and> k = 0 \<or> r = int k"
    using sys_write_eq [of fd d w] by blast
  with True show ?thesis by (intro exI [of _ r] exI [of _ k] exI [of _ rs]) auto
next
  case False
  then show ?thesis by (intro exI [of _ 0] exI [of _ "sysret w"]) simp
qed

lemma sendInLoop_adds:
  assumes "conn_ok c w" and "out_used c w + length m \<le> vector_max_size"
  shows "\<exists>w'. sendInLoop tid False c m w = Inr w' \<and> adds c m w w' \<and> sys_log w' = sys_log w \<and>
     pendingFunctors w' = pendingFunctors w"
proof -
  obtain cn ch where cn: "conns w c = Some cn" "chans w (channel cn) = Some ch" and inv: "epoll_inv w"
    and ch: "index ch = kAdded" "chan_fd ch = socketFd cn" "chan_loop ch = ownerLoop w" "bit (events ch) 0"
    and buf: "buf_ok (inputBuffer cn)" "buf_ok (outputBuffer cn)"
      "isWriting ch \<longleftrightarrow> contents (outputBuffer cn) \<noteq> []"
    using assms(1) by (rule conn_okE)
  let ?out = "contents (outputBuffer cn)"
  let ?direct = "\<not> isWriting ch \<and> readableBytes (outputBuffer cn) = 0"
  have direct: "?direct \<longleftrightarrow> ?out = []" using buf readable_empty by auto
  obtain r k rs where wr: "(if ?direct then sys_write (socketFd cn) m w else (0, w)) =
       (r, w\<lparr>sysret := rs, wire := (wire w)(socketFd cn := wire w (socketFd cn) @ take k m)\<rparr>)"
     and k: "k \<le> length m" "(if r < 0 then 0 else r) = int k" "?out \<noteq> [] \<longrightarrow> k = 0"
    using write_attempt [of ?direct "socketFd cn" m w] direct by blast
  define w1 where "w1 = w\<lparr>sysret := rs, wire := (wire w)(socketFd cn := wire w (socketFd cn) @ take k m)\<rparr>"
  have inv1: "epoll_inv w1" using inv by (simp add: w1_def)
  have eq: "sendInLoop tid False c m w =
      (if k < length m
       then andthen (append_bytes (drop k m) (outputBuffer cn)) (\<lambda>ob.
            let w3 = put_conn c (cn\<lparr>outputBuffer := ob\<rparr>) w1
            in if \<not> isWriting ch then enableWriting (channel cn) w3 else Inr w3)
       else Inr w1)"
    unfolding sendInLoop_def with_conn_def with_chan_def cn option.case Let_def ch(2) wr prod.case
      queue_writeComplete_def k(2) w1_def
    by simp
  show ?thesis
  proof (cases "k < length m")
    case False
    then have "sendInLoop tid False c m w = Inr w1" "k = length m" using eq k(1) by auto
    moreover have "adds c m w w1"
      using \<open>k = length m\<close> cn ch buf inv1 k(3)
      by (auto simp: adds_def conn_ok_def conn_view w1_def)
    ultimately show ?thesis by (simp add: w1_def)
  next
    case True
    have "writerIndex (outputBuffer cn) + length (drop k m) \<le> vector_max_size"
      using assms(2) cn by (simp add: out_used_def)
    from append_bytes_ok [OF buf(2) this] obtain ob where
      ob: "append_bytes (drop k m) (outputBuffer cn) = Inr ob" "buf_ok ob"
        "contents ob = ?out @ drop k m" "writerIndex ob \<le> writerIndex (outputBuffer cn) + length (drop k m)"
      by blast
    let ?w3 = "put_conn c (cn\<lparr>outputBuffer := ob\<rparr>) w1"
    have inv3: "epoll_inv ?w3" using inv1 by (simp add: put_conn_def)
    have w3: "chans ?w3 (channel cn) = Some ch" "chan_loop ch = ownerLoop ?w3"
      using cn ch(3) by (simp_all add: put_conn_def w1_def)
    have ne: "contents ob \<noteq> []" using ob(3) True by simp
    show ?thesis
    proof (cases "isWriting ch")
      case wt: True
      have "adds c m w ?w3"
        using cn ch buf inv3 k(3) wt ob ne True
        by (auto simp: adds_def conn_ok_def conn_view put_conn_def w1_def)
      then show ?thesis using eq True ob(1) wt by (simp add: put_conn_def w1_def)
    next
      case wf: False
      note en = change_conn [OF w3(1) inv3 ch(1) w3(2) remasks_ops(2) reading_masks(3) [OF ch(4)]]
      have "adds c m w (?w3\<lparr>chans := (chans ?w3)(channel cn \<mapsto> with_writing ch),
          ctl_log := ctl_log ?w3 @ [update_call (channel cn) (with_writing ch)]\<rparr>)"
        using cn ch buf en(2) k(3) wf ob ne True reading_masks(1) [OF ch(4)]
          remasks_fields [OF remasks_ops(2), of ch]
        by (auto simp: adds_def conn_ok_def conn_view put_conn_def w1_def)
      then show ?thesis using eq True ob(1) wf en(1) by (simp add: enableWriting_def put_conn_def w1_def)
    qed
  qed
qed

lemma adds_refl: "conn_ok c w \<Longrightarrow> adds c [] w w"
  by (simp add: adds_def)

lemma adds_trans: "adds c d w w1 \<Longrightarrow> adds c e w1 w2 \<Longrightarrow> adds c (d @ e) w w2"
  by (auto simp: adds_def)

lemma shutdownInLoop_eq:
  assumes "conn_ok c w"
  shows "\<exists>fd. fd_of c w = Some fd \<and> shutdownInLoop c w =
     Inr (if unsent c w = [] then w\<lparr>sys_log := sys_log w @ [Sys_shutdown_wr fd]\<rparr> else w)"
proof -
  obtain cn ch where "conns w c = Some cn" "chans w (channel cn) = Some ch"
      "isWriting ch \<longleftrightarrow> contents (outputBuffer cn) \<noteq> []"
    using assms by (rule conn_okE)
  then show ?thesis
    by (simp add: shutdownInLoop_def with_conn_def with_chan_def conn_view shutdownWrite_def syscall_def)
qed

lemma adds_log: "conn_ok c w \<Longrightarrow> adds c [] w (w\<lparr>sys_log := l\<rparr>)"
  by (erule conn_okE) (simp add: adds_def conn_ok_def conn_view)

lemma conn_handleWrite_adds:
  assumes "conn_ok c w"
  shows "\<exists>w'. conn_handleWrite tid False c w = Inr w' \<and> adds c [] w w' \<and>
     pendingFunctors w' = pendingFunctors w \<and>
     (unsent c w = [] \<longrightarrow> w' = w) \<and>
     (\<exists>fd. fd_of c w = Some fd \<and> sys_log w' = sys_log w @
        (if unsent c w \<noteq> [] \<and> unsent c w' = [] \<and> state_of c w = Some kDisconnecting
         then [Sys_shutdown_wr fd] else []))"
proof -
  obtain cn ch where cn: "conns w c = Some cn" "chans w (channel cn) = Some ch" and inv: "epoll_inv w"
    and ch: "index ch = kAdded" "chan_fd ch = socketFd cn" "chan_loop ch = ownerLoop w" "bit (events ch) 0"
    and buf: "buf_ok (inputBuffer cn)" "buf_ok (outputBuffer cn)"
      "isWriting ch \<longleftrightarrow> contents (outputBuffer cn) \<noteq> []"
    using assms(1) by (rule conn_okE)
  let ?out = "contents (outputBuffer cn)"
  have view: "unsent c w = ?out" "fd_of c w = Some (socketFd cn)" "state_of c w = Some (conn_state cn)"
    using cn by (simp_all add: conn_view)
  show ?thesis
  proof (cases "?out = []")
    case True
    then have "conn_handleWrite tid False c w = Inr w"
      using cn buf(3) by (simp add: conn_handleWrite_def with_conn_def with_chan_def)
    with True view assms show ?thesis by (simp add: adds_refl)
  next
    case False
    obtain r k rs where wr: "sys_write (socketFd cn) ?out w =
        (r, w\<lparr>sysret := rs, wire := (wire w)(socketFd cn := wire w (socketFd cn) @ take k ?out)\<rparr>)"
      and k: "k \<le> length ?out" "r = -1 \<and> k = 0 \<or> r = int k"
      using sys_write_eq [of "socketFd cn" ?out w] by blast
    define w1 where "w1 = w\<lparr>sysret := rs, wire := (wire w)(socketFd cn := wire w (socketFd cn) @ take k ?out)\<rparr>"
    have eq: "conn_handleWrite tid False c w =
       (if 0 < r
        then andthen (retrieve (nat r) (outputBuffer cn)) (\<lambda>ob.
             let w2 = put_conn c (cn\<lparr>outputBuffer := ob\<rparr>) w1
             in if readableBytes ob = 0
                then andthen (disableWriting (channel cn) w2) (\<lambda>w3.
                     if conn_state cn = kDisconnecting then shutdownInLoop c w3 else Inr w3)
                else Inr w2)
        else Inr w1)"
      unfolding conn_handleWrite_def with_conn_def with_chan_def cn option.case Let_def ch(2)
        load_readable [OF buf(2)] andthen.simps wr prod.case queue_writeComplete_def if_False w1_def
      using False buf(3) by simp
    show ?thesis
    proof (cases "0 < r")
      case nr: False
      then have "k = 0" using k by auto
      then have "adds c [] w w1"
        using cn ch buf inv by (simp add: adds_def conn_ok_def conn_view w1_def)
      then show ?thesis using eq nr False view cn by (auto simp: w1_def conn_view)
    next
      case pos: True
      then have r: "nat r = k" using k by auto
      obtain ob where ob: "retrieve k (outputBuffer cn) = Inr ob" "buf_ok ob"
          "contents ob = drop k ?out" "writerIndex ob = writerIndex (outputBuffer cn)"
        using retrieve_ok [OF buf(2) k(1)] by blast
      let ?w2 = "put_conn c (cn\<lparr>outputBuffer := ob\<rparr>) w1"
      have inv2: "epoll_inv ?w2" using inv by (simp add: put_conn_def w1_def)
      show ?thesis
      proof (cases "contents ob = []")
        case more_left: False
        have "adds c [] w ?w2"
          using cn ch buf inv2 ob more_left False
          by (auto simp: adds_def conn_ok_def conn_view put_conn_def w1_def)
        moreover have "unsent c ?w2 \<noteq> []" using more_left by (simp add: conn_view put_conn_def)
        ultimately show ?thesis
          using eq pos r ob(1) more_left False view readable_empty [OF ob(2)]
          by (simp add: put_conn_def w1_def)
      next
        case drained: True
        let ?w3 = "?w2\<lparr>chans := (chans ?w2)(channel cn \<mapsto> without_writing ch),
          ctl_log := ctl_log ?w2 @ [update_call (channel cn) (without_writing ch)]\<rparr>"
        have w2: "chans ?w2 (channel cn) = Some ch" "chan_loop ch = ownerLoop ?w2"
          using cn ch(3) by (simp_all add: put_conn_def w1_def)
        note dis = change_conn [OF w2(1) inv2 ch(1) w2(2) remasks_ops(3) reading_masks(4) [OF ch(4)]]
        have a3: "adds c [] w ?w3"
          using cn ch buf dis(2) ob drained reading_masks(2) [OF ch(4)]
            remasks_fields [OF remasks_ops(3), of ch]
          by (auto simp: adds_def conn_ok_def conn_view put_conn_def w1_def)
        have v3: "unsent c ?w3 = []" "fd_of c ?w3 = Some (socketFd cn)" "sys_log ?w3 = sys_log w"
            "pendingFunctors ?w3 = pendingFunctors w"
          using drained by (simp_all add: conn_view put_conn_def w1_def)
        have eq3: "conn_handleWrite tid False c w =
            (if conn_state cn = kDisconnecting then shutdownInLoop c ?w3 else Inr ?w3)"
          unfolding eq using pos r ob(1) drained readable_empty [OF ob(2)] dis(1)
          by (simp add: disableWriting_def)
        have ok3: "conn_ok c ?w3" using a3 by (simp add: adds_def)
        show ?thesis
        proof (cases "conn_state cn = kDisconnecting")
          case True
          let ?w4 = "?w3\<lparr>sys_log := sys_log ?w3 @ [Sys_shutdown_wr (socketFd cn)]\<rparr>"
          have "conn_handleWrite tid False c w = Inr ?w4"
            using eq3 True shutdownInLoop_eq [OF ok3] v3 by auto
          moreover have "adds c [] w ?w4"
            using adds_trans [OF a3 adds_log [OF ok3]] by simp
          moreover have "unsent c ?w4 = []" "pendingFunctors ?w4 = pendingFunctors w"
              "sys_log ?w4 = sys_log w @ [Sys_shutdown_wr (socketFd cn)]"
            using v3 by (simp_all add: conn_view)
          ultimately show ?thesis using False True view by (intro exI [of _ ?w4]) simp
        next
          case st: False
          then show ?thesis using eq3 a3 v3 False view by (intro exI [of _ ?w3]) simp
        qed
      qed
    qed
  qed
qed

section \<open>Sequences of operations\<close>

text \<open>
  Threads send on a connection and shut it down, its descriptor becomes writable, and the loop
  runs the functors that are pending.
\<close>

datatype conn_op = Op_send int string | Op_shutdown int | Op_writable | Op_run_pending

definition conn_step ::
    "(tcp_functor \<Rightarrow> ('ctx, 'w) nworld \<Rightarrow> ('ctx, 'w) nworld res) \<Rightarrow> ('ctx, 'w) nworld conn_callbacks \<Rightarrow>
     nat \<Rightarrow> conn_op \<Rightarrow> ('ctx, 'w) nworld \<Rightarrow> ('ctx, 'w) nworld res" where
  "conn_step server cbs c x w =
     (case x of
        Op_send tid m \<Rightarrow> send tid (writeCompleteCallback cbs \<noteq> None) c m w
      | Op_shutdown tid \<Rightarrow> conn_shutdown tid c w
      | Op_writable \<Rightarrow> conn_handleWrite (threadId w) (writeCompleteCallback cbs \<noteq> None) c w
      | Op_run_pending \<Rightarrow> doPendingFunctors (tcp_exec server cbs (threadId w)) (\<lambda>_. Inr) w)"

text \<open>The thread of an operation that several threads may call.\<close>

fun op_thread :: "conn_op \<Rightarrow> int option" where
  "op_thread (Op_send tid m) = Some tid"
| "op_thread (Op_shutdown tid) = Some tid"
| "op_thread _ = None"

text \<open>The bytes that \<open>send\<close> accepts: those sent before the first \<open>shutdown\<close>.\<close>

fun sent :: "conn_op list \<Rightarrow> string" where
  "sent [] = []"
| "sent (Op_send tid m # xs) = m @ sent xs"
| "sent (Op_shutdown tid # xs) = []"
| "sent (_ # xs) = sent xs"

definition functor_bytes :: "nat \<Rightarrow> tcp_functor \<Rightarrow> string" where
  "functor_bytes c f = (case f of Fn_sendInLoop c' m \<Rightarrow> if c' = c then m else [] | _ \<Rightarrow> [])"

definition in_flight :: "nat \<Rightarrow> ('ctx, 'w) nworld \<Rightarrow> string" where
  "in_flight c w = concat (map (functor_bytes c) (pendingFunctors w))"

definition own :: "nat \<Rightarrow> tcp_functor \<Rightarrow> bool" where
  "own c f \<longleftrightarrow> (case f of Fn_sendInLoop c' m \<Rightarrow> c' = c | Fn_shutdownInLoop c' \<Rightarrow> c' = c | _ \<Rightarrow> False)"

lemma run_own:
  assumes "writeCompleteCallback cbs = None" and "conn_ok c w" and "list_all (own c) fs"
    and "out_used c w + length (concat (map (functor_bytes c) fs)) \<le> vector_max_size"
  shows "\<exists>w'. fold_res (tcp_exec server cbs tid) fs w = Inr w' \<and>
     adds c (concat (map (functor_bytes c) fs)) w w' \<and> pendingFunctors w' = pendingFunctors w"
  using assms(2-4)
proof (induction fs arbitrary: w)
  case Nil
  then show ?case by (simp add: adds_refl)
next
  case (Cons f fs)
  have "\<exists>w1. tcp_exec server cbs tid f w = Inr w1 \<and> adds c (functor_bytes c f) w w1 \<and>
      pendingFunctors w1 = pendingFunctors w"
  proof (cases f)
    case (Fn_sendInLoop c' m)
    then show ?thesis
      using Cons.prems sendInLoop_adds [of c w m tid] assms(1)
      by (auto simp: tcp_exec_def own_def functor_bytes_def)
  next
    case (Fn_shutdownInLoop c')
    then show ?thesis
      using Cons.prems shutdownInLoop_eq [of c w] adds_refl [of c w] adds_log [of c w]
      by (auto simp: tcp_exec_def own_def functor_bytes_def)
  qed (use Cons.prems in \<open>auto simp: own_def\<close>)
  then obtain w1 where w1: "tcp_exec server cbs tid f w = Inr w1" "adds c (functor_bytes c f) w w1"
      "pendingFunctors w1 = pendingFunctors w" by blast
  obtain w' where "fold_res (tcp_exec server cbs tid) fs w1 = Inr w'"
      "adds c (concat (map (functor_bytes c) fs)) w1 w'" "pendingFunctors w' = pendingFunctors w1"
    using Cons.IH [of w1] Cons.prems w1(2) by (auto simp: adds_def)
  then show ?case using w1 adds_trans [OF w1(2)] by auto
qed

text \<open>
  One step on an open connection: what it adds to the stream, and what it keeps. \<open>total\<close> is the
  stream of the connection with the messages still in the queue of the loop.
\<close>

definition total :: "nat \<Rightarrow> ('ctx, 'w) nworld \<Rightarrow> string" where
  "total c w = written c w @ unsent c w @ in_flight c w"

definition steady :: "nat \<Rightarrow> ('ctx, 'w) nworld \<Rightarrow> bool" where
  "steady c w \<longleftrightarrow> conn_ok c w \<and> list_all (own c) (pendingFunctors w) \<and>
     (state_of c w = Some kConnected \<or> state_of c w = Some kDisconnecting)"

definition op_bytes :: "nat \<Rightarrow> ('ctx, 'w) nworld \<Rightarrow> conn_op \<Rightarrow> string" where
  "op_bytes c w x =
     (case x of Op_send tid m \<Rightarrow> if state_of c w = Some kConnected then m else [] | _ \<Rightarrow> [])"

definition advances :: "nat \<Rightarrow> string \<Rightarrow> ('ctx, 'w) nworld \<Rightarrow> ('ctx, 'w) nworld \<Rightarrow> bool" where
  "advances c d w w' \<longleftrightarrow> steady c w' \<and> threadId w' = threadId w \<and> fd_of c w' = fd_of c w \<and>
     input_of c w' = input_of c w \<and> total c w' = total c w @ d \<and>
     out_used c w' + length (in_flight c w') \<le> out_used c w + length (in_flight c w) + length d"

lemma conn_ok_frame:
  assumes "conns w' = conns w" and "chans w' = chans w" and "channels w' = channels w"
    and "ctl_log w' = ctl_log w" and "ownerLoop w' = ownerLoop w"
  shows "conn_ok c w' = conn_ok c w"
  unfolding conn_ok_def assms epoll_inv_cong [OF assms(3,2,4)] by (rule refl)

lemma view_frame:
  assumes "conns w' = conns w" and "wire w' = wire w"
  shows "written c w' = written c w" "unsent c w' = unsent c w" "out_used c w' = out_used c w"
    "state_of c w' = state_of c w" "fd_of c w' = fd_of c w" "input_of c w' = input_of c w"
  unfolding conn_view assms by (rule refl)+

lemma queue_advances:
  assumes "steady c w" and "own c f"
  shows "advances c (functor_bytes c f) w (queueInLoop tid f w)" (is "advances _ _ _ ?w")
proof -
  have eqs: "conns ?w = conns w" "chans ?w = chans w" "channels ?w = channels w" "ctl_log ?w = ctl_log w"
      "ownerLoop ?w = ownerLoop w" "wire ?w = wire w" "threadId ?w = threadId w"
      "pendingFunctors ?w = pendingFunctors w @ [f]"
    by (simp_all add: functor_ops Let_def)
  show ?thesis
    using assms conn_ok_frame [OF eqs(1-5)] view_frame [OF eqs(1,6)]
    by (simp add: advances_def steady_def total_def in_flight_def eqs)
qed

lemma adds_advances:
  assumes "adds c d w w'" and "steady c w" and "pendingFunctors w' = pendingFunctors w"
    and "in_flight c w = [] \<or> d = []"
  shows "advances c d w w'"
proof -
  have f: "in_flight c w' = in_flight c w" using assms(3) by (simp add: in_flight_def)
  have "total c w' = (written c w @ unsent c w @ d) @ in_flight c w"
    using assms(1) f unfolding adds_def total_def by (metis append_assoc)
  with f assms show ?thesis by (auto simp: adds_def advances_def steady_def total_def)
qed

lemma steady_conn:
  assumes "steady c w"
  obtains cn where "conns w c = Some cn" "conn_ok c w"
    "state_of c w = Some (conn_state cn)" "conn_state cn = kConnected \<or> conn_state cn = kDisconnecting"
  using assms unfolding steady_def by (auto simp: state_of_def)

lemma send_advances:
  assumes "steady c w" and "writeCompleteCallback cbs = None"
    and "out_used c w + length m \<le> vector_max_size"
    and "tid = threadId w \<longrightarrow> in_flight c w = []"
  shows "\<exists>w'. conn_step server cbs c (Op_send tid m) w = Inr w' \<and>
     advances c (op_bytes c w (Op_send tid m)) w w' \<and> state_of c w' = state_of c w \<and>
     (tid = threadId w \<longrightarrow> pendingFunctors w' = pendingFunctors w \<and> sys_log w' = sys_log w)"
proof -
  obtain cn where cn: "conns w c = Some cn" "conn_ok c w" "state_of c w = Some (conn_state cn)"
    using assms(1) by (rule steady_conn)
  consider "conn_state cn \<noteq> kConnected" | "conn_state cn = kConnected" "tid = threadId w"
    | "conn_state cn = kConnected" "tid \<noteq> threadId w" by blast
  then show ?thesis
  proof cases
    case 1
    then show ?thesis
      using cn assms(1) by (simp add: conn_step_def send_def with_conn_def op_bytes_def advances_def)
  next
    case 2
    obtain w' where w': "sendInLoop tid False c m w = Inr w'" "adds c m w w'" "sys_log w' = sys_log w"
        "pendingFunctors w' = pendingFunctors w"
      using sendInLoop_adds [OF cn(2) assms(3)] by blast
    have "advances c m w w'" using adds_advances [OF w'(2) assms(1) w'(4)] assms(4) 2 by simp
    then show ?thesis
      using 2 cn w' assms(2)
      by (auto simp: conn_step_def send_def with_conn_def op_bytes_def isInLoopThread_def adds_def)
  next
    case 3
    have "advances c m w (queueInLoop tid (Fn_sendInLoop c m) w)"
      using queue_advances [OF assms(1), of "Fn_sendInLoop c m" tid] by (simp add: own_def functor_bytes_def)
    then show ?thesis
      using 3 cn by (simp add: conn_step_def send_def with_conn_def op_bytes_def runInLoop_def
          isInLoopThread_def state_of_def queueInLoop_def push_functor_def wakeup_def Let_def)
  qed
qed

lemma put_state_ok:
  assumes "conns w c = Some cn"
  shows "conn_ok c (put_conn c (cn\<lparr>conn_state := st\<rparr>) w) = conn_ok c w"
    and "written c (put_conn c (cn\<lparr>conn_state := st\<rparr>) w) = written c w"
    and "unsent c (put_conn c (cn\<lparr>conn_state := st\<rparr>) w) = unsent c w"
    and "out_used c (put_conn c (cn\<lparr>conn_state := st\<rparr>) w) = out_used c w"
    and "state_of c (put_conn c (cn\<lparr>conn_state := st\<rparr>) w) = Some st"
    and "fd_of c (put_conn c (cn\<lparr>conn_state := st\<rparr>) w) = fd_of c w"
    and "input_of c (put_conn c (cn\<lparr>conn_state := st\<rparr>) w) = input_of c w"
  using assms by (simp_all add: conn_ok_def conn_view put_conn_def cong: option.case_cong)

lemma shutdown_advances:
  assumes "steady c w"
  shows "\<exists>w'. conn_step server cbs c (Op_shutdown tid) w = Inr w' \<and> advances c [] w w' \<and>
     state_of c w' = Some kDisconnecting \<and>
     (tid = threadId w \<longrightarrow> pendingFunctors w' = pendingFunctors w \<and>
       (\<exists>fd. fd_of c w = Some fd \<and> sys_log w' = sys_log w @
         (if state_of c w = Some kConnected \<and> unsent c w = [] then [Sys_shutdown_wr fd] else [])) \<and>
       unsent c w' = unsent c w)"
proof -
  obtain cn where cn: "conns w c = Some cn" "conn_ok c w" "state_of c w = Some (conn_state cn)"
      "conn_state cn = kConnected \<or> conn_state cn = kDisconnecting"
    using assms by (rule steady_conn)
  show ?thesis
  proof (cases "conn_state cn = kConnected")
    case False
    then show ?thesis
      using cn assms by (simp add: conn_step_def conn_shutdown_def with_conn_def advances_def fd_of_def)
  next
    case True
    let ?w1 = "put_conn c (cn\<lparr>conn_state := kDisconnecting\<rparr>) w"
    note p = put_state_ok [OF cn(1), of kDisconnecting]
    have pend: "pendingFunctors ?w1 = pendingFunctors w" "threadId ?w1 = threadId w" "sys_log ?w1 = sys_log w"
      by (simp_all add: put_conn_def)
    have eq: "conn_step server cbs c (Op_shutdown tid) w =
        runInLoop (\<lambda>_. shutdownInLoop c) tid (Fn_shutdownInLoop c) ?w1"
      using True cn(1) by (simp add: conn_step_def conn_shutdown_def with_conn_def setState_def)
    have st1: "steady c ?w1" using assms p pend by (simp add: steady_def)
    have a1: "advances c [] w ?w1" using st1 p pend by (simp add: advances_def total_def in_flight_def)
    show ?thesis
    proof (cases "tid = threadId w")
      case other: False
      have "advances c [] ?w1 (queueInLoop tid (Fn_shutdownInLoop c) ?w1)"
        using queue_advances [OF st1, of "Fn_shutdownInLoop c" tid] by (simp add: own_def functor_bytes_def)
      moreover have "state_of c (queueInLoop tid (Fn_shutdownInLoop c) ?w1) = Some kDisconnecting"
        using p(5) by (simp add: state_of_def queueInLoop_def push_functor_def wakeup_def Let_def)
      ultimately show ?thesis
        using eq other a1 pend by (auto simp: runInLoop_def isInLoopThread_def advances_def)
    next
      case here: True
      obtain fd where fd: "fd_of c ?w1 = Some fd" "shutdownInLoop c ?w1 =
          Inr (if unsent c ?w1 = [] then ?w1\<lparr>sys_log := sys_log ?w1 @ [Sys_shutdown_wr fd]\<rparr> else ?w1)"
        using shutdownInLoop_eq [of c ?w1] p(1) cn(2) by blast
      have fdw: "fd_of c w = Some fd" using fd(1) p(6) by simp
      define w' where "w' = (if unsent c w = [] then ?w1\<lparr>sys_log := sys_log w @ [Sys_shutdown_wr fd]\<rparr> else ?w1)"
      have w': "conns w' = conns ?w1" "wire w' = wire ?w1" "pendingFunctors w' = pendingFunctors w"
          "adds c [] ?w1 w'"
        using pend p(1) cn(2) adds_refl [of c ?w1] adds_log [of c ?w1]
        by (simp_all add: w'_def)
      have "advances c [] ?w1 w'"
        using adds_advances [OF w'(4) st1] w'(3) pend by simp
      moreover have "conn_step server cbs c (Op_shutdown tid) w = Inr w'"
        using eq here fd(2) pend p(3) by (simp add: runInLoop_def isInLoopThread_def w'_def)
      moreover have "sys_log w' = sys_log w @ (if unsent c w = [] then [Sys_shutdown_wr fd] else [])"
        using pend by (simp add: w'_def)
      ultimately show ?thesis
        using a1 fdw p(3,5) w'(3) view_frame [OF w'(1,2), of c] cn(3) True
        by (auto simp: advances_def)
    qed
  qed
qed

lemma writable_advances:
  assumes "steady c w" and "writeCompleteCallback cbs = None"
  shows "\<exists>w'. conn_step server cbs c Op_writable w = Inr w' \<and> advances c [] w w' \<and>
     state_of c w' = state_of c w \<and> pendingFunctors w' = pendingFunctors w \<and>
     (unsent c w = [] \<longrightarrow> w' = w) \<and>
     (\<exists>fd. fd_of c w = Some fd \<and> sys_log w' = sys_log w @
        (if unsent c w \<noteq> [] \<and> unsent c w' = [] \<and> state_of c w = Some kDisconnecting
         then [Sys_shutdown_wr fd] else []))"
proof -
  have ok: "conn_ok c w" using assms(1) by (simp add: steady_def)
  obtain w' where w': "conn_handleWrite (threadId w) False c w = Inr w'" "adds c [] w w'"
      "pendingFunctors w' = pendingFunctors w" "unsent c w = [] \<longrightarrow> w' = w"
      "\<exists>fd. fd_of c w = Some fd \<and> sys_log w' = sys_log w @
        (if unsent c w \<noteq> [] \<and> unsent c w' = [] \<and> state_of c w = Some kDisconnecting
         then [Sys_shutdown_wr fd] else [])"
    using conn_handleWrite_adds [OF ok, of "threadId w"] by blast
  have "advances c [] w w'" by (rule adds_advances [OF w'(2) assms(1) w'(3)]) simp
  moreover have "state_of c w' = state_of c w" using w'(2) by (simp add: adds_def)
  ultimately show ?thesis using w' assms(2) by (auto simp: conn_step_def)
qed

lemma run_pending_advances:
  assumes "steady c w" and "writeCompleteCallback cbs = None"
    and "out_used c w + length (in_flight c w) \<le> vector_max_size"
  shows "\<exists>w'. conn_step server cbs c Op_run_pending w = Inr w' \<and> advances c [] w w' \<and>
     state_of c w' = state_of c w \<and> pendingFunctors w' = [] \<and>
     (pendingFunctors w = [] \<longrightarrow> sys_log w' = sys_log w \<and> unsent c w' = unsent c w \<and> fd_of c w' = fd_of c w)"
proof -
  let ?fs = "pendingFunctors w" and ?w1 = "w\<lparr>callingPendingFunctors := True, pendingFunctors := []\<rparr>"
  have v1: "written c ?w1 = written c w" "unsent c ?w1 = unsent c w" "out_used c ?w1 = out_used c w"
      "state_of c ?w1 = state_of c w" "fd_of c ?w1 = fd_of c w" "input_of c ?w1 = input_of c w"
    by (rule view_frame; simp)+
  have ok1: "conn_ok c ?w1" using assms(1) conn_ok_frame [of ?w1 w c] by (simp add: steady_def)
  obtain w2 where w2: "fold_res (tcp_exec server cbs (threadId w)) ?fs ?w1 = Inr w2"
      "adds c (in_flight c w) ?w1 w2" "pendingFunctors w2 = []"
    using run_own [OF assms(2) ok1, of ?fs] assms(1,3) v1(3)
    by (auto simp: steady_def in_flight_def)
  let ?w' = "end_pending w2"
  have frame: "conns ?w' = conns w2" "wire ?w' = wire w2" by (simp_all add: end_pending_def)
  have ok': "conn_ok c ?w'"
    using w2(2) conn_ok_frame [of ?w' w2 c] by (simp add: end_pending_def adds_def)
  have destroys: "fold_res (\<lambda>_. Inr) gs u = Inr u" for gs :: "tcp_functor list" and u :: "('a, 'b) nworld"
    by (induction gs) auto
  have "conn_step server cbs c Op_run_pending w = Inr ?w'"
    using w2(1) by (simp add: conn_step_def doPendingFunctors_def take_pending_def destroys)
  moreover have "advances c [] w ?w'"
    using w2(2,3) assms(1) ok' v1 view_frame [OF frame, of c]
    by (auto simp: advances_def steady_def total_def in_flight_def adds_def end_pending_def)
  moreover have "sys_log ?w' = sys_log w \<and> unsent c ?w' = unsent c w \<and> fd_of c ?w' = fd_of c w" if "?fs = []"
    using w2(1) that v1 view_frame [OF frame, of c] by (auto simp: end_pending_def)
  ultimately show ?thesis
    using w2(2,3) v1 view_frame [OF frame, of c] by (auto simp: adds_def end_pending_def)
qed

lemma conn_step_advances:
  assumes "steady c w" and "writeCompleteCallback cbs = None"
    and "out_used c w + length (in_flight c w) + length (op_bytes c w x) \<le> vector_max_size"
    and "op_thread x = Some (threadId w) \<longrightarrow> in_flight c w = []"
  shows "\<exists>w'. conn_step server cbs c x w = Inr w' \<and> advances c (op_bytes c w x) w w' \<and>
     state_of c w' = (case x of Op_shutdown _ \<Rightarrow> Some kDisconnecting | _ \<Rightarrow> state_of c w) \<and>
     (op_thread x = None \<or> op_thread x = Some (threadId w) \<longrightarrow> in_flight c w = [] \<longrightarrow> in_flight c w' = [])"
proof (cases x)
  case (Op_send tid m)
  show ?thesis
  proof (cases "state_of c w = Some kConnected")
    case True
    then show ?thesis
      using send_advances [OF assms(1,2), of m tid server] assms(3,4) Op_send
      by (auto simp: op_bytes_def in_flight_def)
  next
    case False
    moreover obtain cn where "conns w c = Some cn" "state_of c w = Some (conn_state cn)"
      using assms(1) by (rule steady_conn)
    ultimately show ?thesis
      using assms(1) Op_send by (auto simp: conn_step_def send_def with_conn_def op_bytes_def advances_def)
  qed
next
  case (Op_shutdown tid)
  then show ?thesis
    using shutdown_advances [OF assms(1), of server cbs tid] by (auto simp: op_bytes_def in_flight_def)
next
  case Op_writable
  then show ?thesis
    using writable_advances [OF assms(1,2), of server] by (auto simp: op_bytes_def in_flight_def)
next
  case Op_run_pending
  then show ?thesis
    using run_pending_advances [OF assms(1,2), of server] assms(3)
    by (auto simp: op_bytes_def in_flight_def)
qed

definition accepted :: "nat \<Rightarrow> ('ctx, 'w) nworld \<Rightarrow> conn_op list \<Rightarrow> string" where
  "accepted c w xs = (if state_of c w = Some kConnected then sent xs else [])"

lemma accepted_Cons:
  assumes "steady c w"
    and "state_of c w' = (case x of Op_shutdown _ \<Rightarrow> Some kDisconnecting | _ \<Rightarrow> state_of c w)"
  shows "accepted c w (x # xs) = op_bytes c w x @ accepted c w' xs"
  using assms by (cases x) (auto simp: accepted_def op_bytes_def steady_def)

text \<open>Whether the sends all come from the loop thread, or all from other threads.\<close>

definition one_side :: "int \<Rightarrow> conn_op list \<Rightarrow> bool \<Rightarrow> bool" where
  "one_side loop_tid xs here \<longleftrightarrow>
     list_all (\<lambda>x. case op_thread x of None \<Rightarrow> True | Some tid \<Rightarrow> (tid = loop_tid) = here) xs"

lemma conn_steps_stream:
  assumes "steady c w" and "writeCompleteCallback cbs = None"
    and "one_side (threadId w) xs here" and "here \<longrightarrow> in_flight c w = []"
    and "out_used c w + length (in_flight c w) + length (accepted c w xs) \<le> vector_max_size"
  shows "\<exists>w'. fold_res (conn_step server cbs c) xs w = Inr w' \<and> steady c w' \<and>
     total c w' = total c w @ accepted c w xs"
  using assms
proof (induction xs arbitrary: w)
  case Nil
  then show ?case by (simp add: accepted_def)
next
  case (Cons x xs)
  have thr: "op_thread x = Some (threadId w) \<longrightarrow> here"
      "here \<longrightarrow> op_thread x = None \<or> op_thread x = Some (threadId w)"
    using Cons.prems(3) by (auto simp: one_side_def split: option.splits)
  have len: "out_used c w + length (in_flight c w) + length (op_bytes c w x) \<le> vector_max_size"
    using Cons.prems(5) by (cases x) (auto simp: accepted_def op_bytes_def split: if_splits)
  obtain w1 where w1: "conn_step server cbs c x w = Inr w1" "advances c (op_bytes c w x) w w1"
      "state_of c w1 = (case x of Op_shutdown _ \<Rightarrow> Some kDisconnecting | _ \<Rightarrow> state_of c w)"
      "here \<longrightarrow> in_flight c w1 = []"
    using conn_step_advances [OF Cons.prems(1,2) len, of server] thr Cons.prems(4) by blast
  note acc = accepted_Cons [OF Cons.prems(1) w1(3), of xs]
  have st1: "steady c w1" "threadId w1 = threadId w" using w1(2) by (simp_all add: advances_def)
  obtain w' where "fold_res (conn_step server cbs c) xs w1 = Inr w'" "steady c w'"
      "total c w' = total c w1 @ accepted c w1 xs"
    using Cons.IH [OF st1(1) Cons.prems(2) _ w1(4)] Cons.prems(3,5) st1(2) w1(2) acc
    by (auto simp: one_side_def advances_def)
  then show ?case using w1(1,2) acc by (auto simp: advances_def)
qed

section \<open>The interface of a connection\<close>

text \<open>
  What a protocol on top of a connection relies on: on the loop thread \<open>send\<close> adds its message to the
  outgoing stream, \<open>shutdown\<close> closes it for further messages, which are then ignored, and neither
  touches the incoming side. The client's lemma: a reply, followed by a shutdown or not.
\<close>

locale stream_connection =
  fixes ok :: "'w \<Rightarrow> bool"
    and stream :: "'w \<Rightarrow> string"
    and used :: "'w \<Rightarrow> nat"
    and incoming :: "'w \<Rightarrow> 'i"
    and open_for :: "'w \<Rightarrow> bool"
    and send_msg :: "string \<Rightarrow> 'w \<Rightarrow> 'w res"
    and close_msg :: "'w \<Rightarrow> 'w res"
  assumes send_law: "ok w \<Longrightarrow> open_for w \<Longrightarrow> used w + length m \<le> vector_max_size \<Longrightarrow>
      \<exists>w'. send_msg m w = Inr w' \<and> ok w' \<and> open_for w' \<and> stream w' = stream w @ m \<and> incoming w' = incoming w"
    and ignore_law: "ok w \<Longrightarrow> \<not> open_for w \<Longrightarrow> send_msg m w = Inr w"
    and close_law: "ok w \<Longrightarrow>
      \<exists>w'. close_msg w = Inr w' \<and> ok w' \<and> \<not> open_for w' \<and> stream w' = stream w \<and> incoming w' = incoming w"
begin

lemma reply:
  assumes "ok w" and "open_for w" and "used w + length m \<le> vector_max_size"
  shows "\<exists>w'. andthen (send_msg m w) (\<lambda>w1. if final then close_msg w1 else Inr w1) = Inr w' \<and> ok w' \<and>
      open_for w' = (\<not> final) \<and> stream w' = stream w @ m \<and> incoming w' = incoming w"
proof -
  obtain w1 where "send_msg m w = Inr w1" "ok w1" "open_for w1" "stream w1 = stream w @ m"
      "incoming w1 = incoming w"
    using send_law [OF assms] by blast
  then show ?thesis using close_law [of w1] by (cases final) auto
qed

lemma closed_is_silent:
  assumes "ok w"
  shows "\<exists>w'. andthen (close_msg w) (send_msg m) = Inr w' \<and> stream w' = stream w"
  using close_law [OF assms] ignore_law by fastforce

end

definition conn_calm :: "int \<Rightarrow> nat \<Rightarrow> ('ctx, 'w) nworld \<Rightarrow> bool" where
  "conn_calm tid c w \<longleftrightarrow> steady c w \<and> threadId w = tid \<and> in_flight c w = []"

interpretation tcp: stream_connection "conn_calm tid c :: ('ctx, 'w) nworld \<Rightarrow> bool"
  "\<lambda>w. written c w @ unsent c w" "out_used c" "input_of c" "\<lambda>w. state_of c w = Some kConnected"
  "send tid False c" "conn_shutdown tid c" for tid c
proof unfold_locales
  fix w :: "('ctx, 'w) nworld" and m
  let ?cbs = "\<lparr>connectionCallback = None, messageCallback = None, connCloseCallback = None,
      writeCompleteCallback = None\<rparr> :: ('ctx, 'w) nworld conn_callbacks"
  assume calm: "conn_calm tid c w"
  then have st: "steady c w" "threadId w = tid" "in_flight c w = []" by (simp_all add: conn_calm_def)
  have stream: "total c v = written c v @ unsent c v" if "in_flight c v = []" for v :: "('ctx, 'w) nworld"
    using that by (simp add: total_def)
  show "\<exists>w'. send tid False c m w = Inr w' \<and> conn_calm tid c w' \<and> state_of c w' = Some kConnected \<and>
      written c w' @ unsent c w' = (written c w @ unsent c w) @ m \<and> input_of c w' = input_of c w"
    if o: "state_of c w = Some kConnected" and u: "out_used c w + length m \<le> vector_max_size"
  proof -
    obtain w' where w': "conn_step (\<lambda>_. Inr) ?cbs c (Op_send tid m) w = Inr w'"
        "advances c m w w'" "state_of c w' = state_of c w" "pendingFunctors w' = pendingFunctors w"
      using send_advances [OF st(1) _ u, of ?cbs tid "\<lambda>_. Inr"] st(2,3) o by (auto simp: op_bytes_def)
    moreover from w'(4) st(3) have "in_flight c w' = []" by (simp add: in_flight_def)
    ultimately show ?thesis
      using o st stream by (auto simp: conn_step_def conn_calm_def advances_def)
  qed
  show "send tid False c m w = Inr w" if "state_of c w \<noteq> Some kConnected"
    using st(1) that by (auto elim!: steady_conn simp: send_def with_conn_def)
  show "\<exists>w'. conn_shutdown tid c w = Inr w' \<and> conn_calm tid c w' \<and> state_of c w' \<noteq> Some kConnected \<and>
      written c w' @ unsent c w' = written c w @ unsent c w \<and> input_of c w' = input_of c w"
  proof -
    obtain w' where w': "conn_step (\<lambda>_. Inr) ?cbs c (Op_shutdown tid) w = Inr w'" "advances c [] w w'"
        "state_of c w' = Some kDisconnecting" "pendingFunctors w' = pendingFunctors w"
      using shutdown_advances [OF st(1), of "\<lambda>_. Inr" ?cbs tid] st(2) by auto
    moreover from w'(4) st(3) have "in_flight c w' = []" by (simp add: in_flight_def)
    ultimately show ?thesis
      using st stream by (auto simp: conn_step_def conn_calm_def advances_def)
  qed
qed

section \<open>Properties\<close>

definition sample_conn :: "unit tcp_world" where
  "sample_conn =
     (let b = \<lparr>buffer = replicate 1032 (CHR 0x00), readerIndex = 8, writerIndex = 8\<rparr>;
          a = SockAddr_port 0;
          ch = \<lparr>chan_loop = 1, chan_fd = 7, events = kReadEvent, revents = 0, index = kAdded,
                eventHandling = None\<rparr>
      in loop_world.extend
           ((fst (EventLoop_new 1 77 (-5) 10 None))
              \<lparr>chans := [12 \<mapsto> ch], channels := [(7, 12)],
               ctl_log := [Epoll_ctl CTL_ADD 7 kReadEvent 12]\<rparr>)
           \<lparr>conns = [3 \<mapsto> \<lparr>conn_loop = 1, name = ''s#1'', conn_state = kConnected, localAddr = a,
              peerAddr = a, channel = 12, socketFd = 7, inputBuffer = b, outputBuffer = b,
              highWaterMark = None, conn_context = None\<rparr>],
            wire = (\<lambda>_. []), sysret = [2, -1, 3], rdret = [], sys_log = []\<rparr>)"

definition sample_callbacks :: "'w conn_callbacks" where
  "sample_callbacks = \<lparr>connectionCallback = None, messageCallback = None, connCloseCallback = None,
     writeCompleteCallback = None\<rparr>"

lemma kReadEvent_bits: "bit kReadEvent 0" "\<not> bit kReadEvent 2"
  by (simp_all add: kReadEvent_def poll_flags bit_simps)

lemma sample_conn_ok:
  "steady 3 sample_conn" "in_flight 3 sample_conn = []" "out_used 3 sample_conn = 8"
  "state_of 3 sample_conn = Some kConnected" "threadId sample_conn = 77" "total 3 sample_conn = []"
  "pendingFunctors sample_conn = []" "written 3 sample_conn = []" "unsent 3 sample_conn = []"
  "\<not> half_closed 3 sample_conn"
proof -
  note defs = sample_conn_def Let_def EventLoop_new_def poll_world.defs loop_world.defs EPoller_new_def
    put_chan_def
  show p: "in_flight 3 sample_conn = []" "out_used 3 sample_conn = 8"
    "state_of 3 sample_conn = Some kConnected" "threadId sample_conn = 77"
    "pendingFunctors sample_conn = []" "written 3 sample_conn = []" "unsent 3 sample_conn = []"
    "\<not> half_closed 3 sample_conn"
    by (simp_all add: defs conn_view in_flight_def contents_def)
  then show "total 3 sample_conn = []" by (simp add: total_def)
  have "epoll_inv sample_conn"
    by (auto simp: defs epoll_inv_def channels_inv_def index_values interest_def registered_def fun_eq_iff)
  then have "conn_ok 3 sample_conn"
    by (simp add: conn_ok_def defs isWriting_bit kReadEvent_bits buf_ok_def contents_def
        kCheapPrepend_def vector_max_size_def)
  with p show "steady 3 sample_conn" by (simp add: steady_def)
qed



text \<open>The write side is shut down exactly when the connection is closing and nothing waits.\<close>

definition half_close_ok :: "nat \<Rightarrow> ('ctx, 'w) nworld \<Rightarrow> bool" where
  "half_close_ok c w \<longleftrightarrow> (half_closed c w \<longleftrightarrow> state_of c w = Some kDisconnecting \<and> unsent c w = [])"

lemma loop_step_half_close:
  assumes "steady c w" and "writeCompleteCallback cbs = None" and "pendingFunctors w = []"
    and "out_used c w + length (op_bytes c w x) \<le> vector_max_size"
    and "op_thread x = None \<or> op_thread x = Some (threadId w)" and "half_close_ok c w"
  shows "\<exists>w'. conn_step server cbs c x w = Inr w' \<and> advances c (op_bytes c w x) w w' \<and>
     pendingFunctors w' = [] \<and> half_close_ok c w'"
proof -
  have fl: "in_flight c w = []" using assms(3) by (simp add: in_flight_def)
  obtain cn where cn: "conns w c = Some cn" "state_of c w = Some (conn_state cn)"
      "conn_state cn = kConnected \<or> conn_state cn = kDisconnecting"
    using assms(1) by (rule steady_conn)
  then have fd: "fd_of c w = Some (socketFd cn)" by (simp add: fd_of_def)
  show ?thesis
  proof (cases x)
    case (Op_send tid m)
    show ?thesis
    proof (cases "conn_state cn = kConnected")
      case True
      then have st: "state_of c w = Some kConnected" using cn(2) by simp
      have room: "out_used c w + length m \<le> vector_max_size" using assms(4) Op_send st by (simp add: op_bytes_def)
      obtain w' where w': "conn_step server cbs c x w = Inr w'" "advances c (op_bytes c w x) w w'"
          "state_of c w' = state_of c w" "pendingFunctors w' = []" "sys_log w' = sys_log w"
        using send_advances [OF assms(1,2) room, of tid server] fl assms(3,5) Op_send by auto
      then have "half_close_ok c w'"
        using assms(6) st fd by (simp add: half_close_ok_def half_closed_def advances_def)
      with w' show ?thesis by blast
    next
      case False
      then show ?thesis
        using cn Op_send assms by (simp add: conn_step_def send_def with_conn_def op_bytes_def advances_def)
    qed
  next
    case (Op_shutdown tid)
    then show ?thesis
      using shutdown_advances [OF assms(1), of server cbs tid] assms(3,5,6) fd cn(2,3)
      by (auto simp: half_close_ok_def half_closed_def advances_def op_bytes_def)
  next
    case Op_writable
    then show ?thesis
      using writable_advances [OF assms(1,2), of server] assms(3,6) fd
      by (auto simp: half_close_ok_def half_closed_def advances_def op_bytes_def)
  next
    case Op_run_pending
    then show ?thesis
      using run_pending_advances [OF assms(1,2), of server] assms(3,4,6) fl fd
      by (auto simp: half_close_ok_def half_closed_def op_bytes_def)
  qed
qed

lemma loop_steps_half_close:
  assumes "steady c w" and "writeCompleteCallback cbs = None" and "pendingFunctors w = []"
    and "one_side (threadId w) xs True" and "half_close_ok c w"
    and "out_used c w + length (accepted c w xs) \<le> vector_max_size"
  shows "\<exists>w'. fold_res (conn_step server cbs c) xs w = Inr w' \<and> steady c w' \<and>
     pendingFunctors w' = [] \<and> half_close_ok c w' \<and> total c w' = total c w @ accepted c w xs"
  using assms
proof (induction xs arbitrary: w)
  case Nil
  then show ?case by (simp add: accepted_def)
next
  case (Cons x xs)
  have thr: "op_thread x = None \<or> op_thread x = Some (threadId w)"
    using Cons.prems(4) by (auto simp: one_side_def split: option.splits)
  have fl: "in_flight c w = []" using Cons.prems(3) by (simp add: in_flight_def)
  have len: "out_used c w + length (op_bytes c w x) \<le> vector_max_size"
    using Cons.prems(6) by (cases x) (auto simp: accepted_def op_bytes_def split: if_splits)
  obtain w1 where w1: "conn_step server cbs c x w = Inr w1" "advances c (op_bytes c w x) w w1"
      "pendingFunctors w1 = []" "half_close_ok c w1"
    using loop_step_half_close [OF Cons.prems(1-3) len thr Cons.prems(5), of server] by blast
  have "state_of c w1 = (case x of Op_shutdown _ \<Rightarrow> Some kDisconnecting | _ \<Rightarrow> state_of c w)"
    using conn_step_advances [OF Cons.prems(1,2), of x server] len fl w1(1) by auto
  note acc = accepted_Cons [OF Cons.prems(1) this, of xs]
  have st1: "steady c w1" "threadId w1 = threadId w" using w1(2) by (simp_all add: advances_def)
  have "one_side (threadId w1) xs True" using Cons.prems(4) st1(2) by (simp add: one_side_def)
  moreover have "out_used c w1 + length (accepted c w1 xs) \<le> vector_max_size"
    using Cons.prems(6) acc w1(2) fl by (simp add: advances_def)
  ultimately obtain w' where "fold_res (conn_step server cbs c) xs w1 = Inr w'" "steady c w'"
      "pendingFunctors w' = []" "half_close_ok c w'" "total c w' = total c w1 @ accepted c w1 xs"
    using Cons.IH [OF st1(1) Cons.prems(2) w1(3) _ w1(4)] by blast
  then show ?case using w1(1,2) acc by (auto simp: advances_def)
qed

text \<open>
  Property C12. Orderly shutdown on the loop thread: along every sequence of sends, shutdowns, writability
  events and loop turns, \<open>SHUT_WR\<close> has been requested exactly when \<open>shutdown\<close> was called and the
  output buffer has drained; at that moment the kernel holds every byte sent before the
  \<open>shutdown\<close>.
\<close>

theorem shutdown_after_flush:
  assumes "steady c w" and "state_of c w = Some kConnected" and "writeCompleteCallback cbs = None"
    and "pendingFunctors w = []" and "one_side (threadId w) xs True" and "\<not> half_closed c w"
    and "out_used c w + length (sent xs) \<le> vector_max_size"
  shows "\<exists>w'. fold_res (conn_step server cbs c) xs w = Inr w' \<and>
     (half_closed c w' \<longleftrightarrow> state_of c w' = Some kDisconnecting \<and> unsent c w' = []) \<and>
     (half_closed c w' \<longrightarrow> written c w' = written c w @ unsent c w @ sent xs)"
proof -
  have fl: "in_flight c w = []" using assms(4) by (simp add: in_flight_def)
  obtain w' where w': "fold_res (conn_step server cbs c) xs w = Inr w'" "pendingFunctors w' = []"
      "half_close_ok c w'" "total c w' = total c w @ sent xs"
    using loop_steps_half_close [OF assms(1,3,4,5), of server] assms(2,6,7)
    by (auto simp: half_close_ok_def accepted_def)
  then show ?thesis using fl by (auto simp: half_close_ok_def total_def in_flight_def)
qed

theorem shutdown_after_flush_witness:
  "\<exists>w'. fold_res (conn_step (\<lambda>_. Inr) sample_callbacks 3)
      [Op_send 77 ''abcd'', Op_shutdown 77, Op_writable, Op_writable] sample_conn = Inr w' \<and>
     (half_closed 3 w' \<longrightarrow> written 3 w' = ''abcd'')"
  using shutdown_after_flush [OF sample_conn_ok(1,4), of sample_callbacks
      "[Op_send 77 ''abcd'', Op_shutdown 77, Op_writable, Op_writable]" "\<lambda>_. Inr"]
  by (auto simp: sample_callbacks_def one_side_def sample_conn_ok vector_max_size_def)

text \<open>
  With senders on another thread the write side can be shut down too early: \<open>shutdown\<close> sets the
  state at once while a message accepted before is still queued, and \<open>handleWrite_\<close> shuts down
  as soon as the output buffer drains.
\<close>

lemma shutdown_race:
  assumes "steady c w" and "writeCompleteCallback cbs = None" and "state_of c w = Some kDisconnecting"
    and "unsent c w \<noteq> []" and "conn_step server cbs c Op_writable w = Inr w'" and "unsent c w' = []"
  shows "half_closed c w' \<and> in_flight c w' = in_flight c w"
  using writable_advances [OF assms(1,2), of server] assms(3-6)
  by (auto simp: half_closed_def advances_def in_flight_def)

end
