(* ===== verification/Thread_Pool.thy ===== *)
theory Thread_Pool
  imports Event_Loop
begin

text \<open>
  \<open>include/tractor/ThreadPool.h\<close> and \<open>src/ThreadPool.cpp\<close>. \<open>ThreadPool\<close> hands out its loops in turn;
  loops are addresses. The handshake of \<open>Thread::startLoop\<close> with \<open>Thread::threadFunc_\<close> is a
  transition system of the two threads, the mutex and the condition variable.
\<close>

section \<open>The pool\<close>

record ThreadPool =
  baseLoop :: nat
  pool_started :: bool
  numThreads :: int
  next_loop :: int
  threads_count :: nat
  loops :: "nat list"

definition ThreadPool_new :: "nat \<Rightarrow> ThreadPool" where
  "ThreadPool_new base = \<lparr>baseLoop = base, pool_started = False, numThreads = 0, next_loop = 0,
     threads_count = 0, loops = []\<rparr>"

definition pool_setThreadNum :: "int \<Rightarrow> ThreadPool \<Rightarrow> ThreadPool" where
  "pool_setThreadNum n p = p\<lparr>numThreads := n\<rparr>"

text \<open>\<open>startLoop i\<close> is the loop that the thread number \<open>i\<close> returns from the handshake below.\<close>

fun start_threads :: "(nat \<Rightarrow> nat) \<Rightarrow> nat \<Rightarrow> nat \<Rightarrow> ThreadPool \<Rightarrow> ThreadPool" where
  "start_threads startLoop i 0 p = p"
| "start_threads startLoop i (Suc n) p =
     start_threads startLoop (Suc i) n
       (p\<lparr>threads_count := threads_count p + 1, loops := loops p @ [startLoop i]\<rparr>)"

definition ThreadPool_start :: "(nat \<Rightarrow> nat) \<Rightarrow> ThreadPool \<Rightarrow> ThreadPool res" where
  "ThreadPool_start startLoop p =
     asserting (\<not> pool_started p)
       (Inr (start_threads startLoop 0 (nat (numThreads p)) (p\<lparr>pool_started := True\<rparr>)))"

definition getNextLoop :: "ThreadPool \<Rightarrow> (nat \<times> ThreadPool) res" where
  "getNextLoop p =
     (if loops p \<noteq> []
      then check Bad_access (0 \<le> next_loop p \<and> nat (next_loop p) < length (loops p))
             (let n = next_loop p + 1
              in Inr (loops p ! nat (next_loop p),
                      p\<lparr>next_loop := (if int (length (loops p)) \<le> n then 0 else n)\<rparr>))
      else Inr (baseLoop p, p))"

fun next_loops :: "nat \<Rightarrow> ThreadPool \<Rightarrow> (nat list \<times> ThreadPool) res" where
  "next_loops 0 p = Inr ([], p)"
| "next_loops (Suc k) p =
     andthen (getNextLoop p) (\<lambda>(l, p1). andthen (next_loops k p1) (\<lambda>(ls, p2). Inr (l # ls, p2)))"

lemma start_threads_eq:
  "start_threads f i n p =
     p\<lparr>threads_count := threads_count p + n, loops := loops p @ map f [i..<i + n]\<rparr>"
  by (induction n arbitrary: i p) (simp_all add: upt_conv_Cons del: upt_Suc)

lemma getNextLoop_turn:
  assumes "loops p \<noteq> []" and "next_loop p = int (i mod length (loops p))"
  shows "getNextLoop p = Inr (loops p ! (i mod length (loops p)),
     p\<lparr>next_loop := int (Suc i mod length (loops p))\<rparr>)"
proof -
  let ?n = "length (loops p)"
  have n: "0 < ?n" using assms(1) by simp
  have "int (Suc i mod ?n) = (if int ?n \<le> int (i mod ?n) + 1 then 0 else int (i mod ?n) + 1)"
    using mod_less_divisor [OF n, of i] by (auto simp: mod_Suc)
  with assms n show ?thesis by (simp add: getNextLoop_def Let_def)
qed

lemma next_loops_turn:
  assumes "loops p \<noteq> []" and "next_loop p = int (i mod length (loops p))"
  shows "next_loops k p = Inr (map (\<lambda>j. loops p ! (j mod length (loops p))) [i..<i + k],
     p\<lparr>next_loop := int ((i + k) mod length (loops p))\<rparr>)"
  using assms
proof (induction k arbitrary: i p)
  case 0
  then show ?case by simp
next
  case (Suc k)
  let ?p = "p\<lparr>next_loop := int (Suc i mod length (loops p))\<rparr>"
  have "next_loops k ?p = Inr (map (\<lambda>j. loops ?p ! (j mod length (loops ?p))) [Suc i..<Suc i + k],
     ?p\<lparr>next_loop := int ((Suc i + k) mod length (loops ?p))\<rparr>)"
    using Suc.prems by (intro Suc.IH) simp_all
  then show ?case using getNextLoop_turn [OF Suc.prems] by (simp add: upt_conv_Cons del: upt_Suc)
qed

lemma next_loops_started:
  assumes "0 < n"
  shows "\<exists>p p'. ThreadPool_start f (pool_setThreadNum n (ThreadPool_new base)) = Inr p \<and>
     next_loops k p = Inr (map (\<lambda>j. f (j mod nat n)) [0..<k], p') \<and> loops p' = map f [0..<nat n] \<and>
     ThreadPool_start f p' = Inl Assert_failed"
    and "next_loops k (ThreadPool_new base) = Inr (replicate k base, ThreadPool_new base)"
proof -
  let ?p = "\<lparr>baseLoop = base, pool_started = True, numThreads = n, next_loop = 0,
     threads_count = nat n, loops = map f [0..<nat n]\<rparr>"
  have "ThreadPool_start f (pool_setThreadNum n (ThreadPool_new base)) = Inr ?p"
    by (simp add: ThreadPool_start_def pool_setThreadNum_def ThreadPool_new_def start_threads_eq)
  moreover have "next_loops k ?p = Inr (map (\<lambda>j. f (j mod nat n)) [0..<k],
      ?p\<lparr>next_loop := int (k mod nat n)\<rparr>)"
    using next_loops_turn [of ?p 0 k] assms by (auto simp: map_eq_conv)
  ultimately show "\<exists>p p'. ThreadPool_start f (pool_setThreadNum n (ThreadPool_new base)) = Inr p \<and>
     next_loops k p = Inr (map (\<lambda>j. f (j mod nat n)) [0..<k], p') \<and> loops p' = map f [0..<nat n] \<and>
     ThreadPool_start f p' = Inl Assert_failed"
    by (auto simp: ThreadPool_start_def)
  show "next_loops k (ThreadPool_new base) = Inr (replicate k base, ThreadPool_new base)"
    by (induction k) (simp_all add: getNextLoop_def ThreadPool_new_def)
qed

text \<open>
  Round robin: after \<open>start\<close> with \<open>n\<close> threads, \<open>k\<close> calls of \<open>getNextLoop\<close> return the loop
  of thread \<open>j mod n\<close> at call \<open>j\<close>, so that the numbers of uses of two loops differ by at most
  one turn; with no threads every call returns the loop of the caller. No access is out of
  bounds, and a second \<open>start\<close> stops at the assertion.
\<close>

theorem getNextLoop_round_robin:
  assumes "0 < n"
  shows "(\<exists>p p'. ThreadPool_start f (pool_setThreadNum n (ThreadPool_new base)) = Inr p \<and>
     next_loops k p = Inr (map (\<lambda>j. f (j mod nat n)) [0..<k], p') \<and> loops p' = map f [0..<nat n] \<and>
     ThreadPool_start f p' = Inl Assert_failed) \<and>
    next_loops k (ThreadPool_new base) = Inr (replicate k base, ThreadPool_new base)"
  by (intro conjI next_loops_started [OF assms])

theorem getNextLoop_round_robin_witness:
  "\<exists>p p'. ThreadPool_start (\<lambda>i. 100 + i) (pool_setThreadNum 3 (ThreadPool_new 1)) = Inr p \<and>
     next_loops 5 p = Inr ([100, 101, 102, 100, 101], p')"
proof -
  have "map (\<lambda>j. 100 + j mod nat 3) [0..<5] = [100, 101, 102, 100, 101 :: nat]" by (simp add: upt_rec)
  then show ?thesis using getNextLoop_round_robin [of 3 "\<lambda>i. 100 + i" 1 5] by auto
qed

section \<open>Starting a thread\<close>

text \<open>
  The caller of \<open>startLoop\<close> and the new thread. \<open>addr\<close> is the address of the \<open>EventLoop\<close> on the stack
  of the new thread. \<open>Sleep\<close> is the wait on the condition variable, which may also wake up for
  no reason.
\<close>

datatype caller_pc = Spawn | Acquire | Check | Sleep | Returned "nat option"

datatype worker_pc = Absent | Construct | Enter | Publish | Loop_entered

datatype holder = Nobody | Caller | Worker

record handshake =
  caller :: caller_pc
  worker :: worker_pc
  mutex :: holder
  loop_ptr :: "nat option"

definition handshake_init :: handshake where
  "handshake_init = \<lparr>caller = Spawn, worker = Absent, mutex = Nobody, loop_ptr = None\<rparr>"

inductive hand_step :: "nat \<Rightarrow> handshake \<Rightarrow> handshake \<Rightarrow> bool" for addr where
  Make_thread:
    "caller s = Spawn \<Longrightarrow> hand_step addr s (s\<lparr>caller := Acquire, worker := Construct\<rparr>)"
| Caller_locks:
    "caller s = Acquire \<Longrightarrow> mutex s = Nobody \<Longrightarrow> hand_step addr s (s\<lparr>caller := Check, mutex := Caller\<rparr>)"
| Caller_waits:
    "caller s = Check \<Longrightarrow> loop_ptr s = None \<Longrightarrow> hand_step addr s (s\<lparr>caller := Sleep, mutex := Nobody\<rparr>)"
| Caller_returns:
    "caller s = Check \<Longrightarrow> loop_ptr s \<noteq> None \<Longrightarrow>
     hand_step addr s (s\<lparr>caller := Returned (loop_ptr s), mutex := Nobody\<rparr>)"
| Caller_spurious:
    "caller s = Sleep \<Longrightarrow> hand_step addr s (s\<lparr>caller := Acquire\<rparr>)"
| Worker_constructs:
    "worker s = Construct \<Longrightarrow> hand_step addr s (s\<lparr>worker := Enter\<rparr>)"
| Worker_locks:
    "worker s = Enter \<Longrightarrow> mutex s = Nobody \<Longrightarrow> hand_step addr s (s\<lparr>worker := Publish, mutex := Worker\<rparr>)"
| Worker_notifies:
    "worker s = Publish \<Longrightarrow>
     hand_step addr s (s\<lparr>worker := Loop_entered, loop_ptr := Some addr, mutex := Nobody,
       caller := (if caller s = Sleep then Acquire else caller s)\<rparr>)"

inductive_cases hand_stepE: "hand_step addr s s'"

definition hand_inv :: "nat \<Rightarrow> handshake \<Rightarrow> bool" where
  "hand_inv addr s \<longleftrightarrow>
     (caller s = Spawn \<longleftrightarrow> worker s = Absent) \<and>
     (mutex s = Caller \<longleftrightarrow> caller s = Check) \<and> (mutex s = Worker \<longleftrightarrow> worker s = Publish) \<and>
     (loop_ptr s = (if worker s = Loop_entered then Some addr else None)) \<and>
     (caller s = Sleep \<longrightarrow> worker s \<noteq> Loop_entered) \<and>
     (\<forall>r. caller s = Returned r \<longrightarrow> worker s = Loop_entered \<and> r = Some addr)"

lemma hand_inv_step: "hand_step addr s s' \<Longrightarrow> hand_inv addr s \<Longrightarrow> hand_inv addr s'"
  by (erule hand_stepE) (auto simp: hand_inv_def split: if_splits)

lemma hand_inv_reachable:
  assumes "(hand_step addr)\<^sup>*\<^sup>* handshake_init s"
  shows "hand_inv addr s"
  using assms
proof (induction rule: rtranclp_induct)
  case base
  show ?case by (simp add: hand_inv_def handshake_init_def)
next
  case (step y z)
  then show ?case by (blast intro: hand_inv_step)
qed

text \<open>
  Property C17. The handshake of \<open>startLoop\<close> in every interleaving: the pointer it returns is the loop of the
  new thread and never null; the notification cannot be lost, since a sleeping caller implies
  that the notification is still to come; and until the caller has returned some step other
  than a spurious wakeup is possible, so the two threads cannot deadlock.
\<close>

theorem startLoop_handshake:
  assumes "(hand_step addr)\<^sup>*\<^sup>* handshake_init s"
  shows "(\<forall>r. caller s = Returned r \<longrightarrow> r = Some addr) \<and>
     (caller s = Sleep \<longrightarrow> loop_ptr s = None \<and> worker s \<in> {Construct, Enter, Publish}) \<and>
     ((\<nexists>r. caller s = Returned r) \<longrightarrow>
        (\<exists>s'. hand_step addr s s' \<and> \<not> (caller s = Sleep \<and> worker s' = worker s)))"
proof -
  have inv: "hand_inv addr s" using assms by (rule hand_inv_reachable)
  have "\<exists>s'. hand_step addr s s' \<and> \<not> (caller s = Sleep \<and> worker s' = worker s)"
    if "\<nexists>r. caller s = Returned r"
  proof (cases "mutex s")
    case Worker
    then have "worker s = Publish" using inv by (simp add: hand_inv_def)
    then show ?thesis using Worker_notifies [of s addr] by fastforce
  next
    case Caller
    then have c: "caller s = Check" using inv by (simp add: hand_inv_def)
    then show ?thesis
      using Caller_waits [of s addr] Caller_returns [of s addr] by (cases "loop_ptr s") auto
  next
    case Nobody
    show ?thesis
    proof (cases "caller s")
      case Spawn
      then show ?thesis using Make_thread [of s addr] by auto
    next
      case Acquire
      then show ?thesis using Caller_locks [of s addr] Nobody by auto
    next
      case Check
      then show ?thesis using Nobody inv by (simp add: hand_inv_def)
    next
      case Sleep
      then have "worker s = Construct \<or> worker s = Enter"
        using Nobody inv by (cases "worker s") (auto simp: hand_inv_def)
      then show ?thesis
      proof
        assume "worker s = Construct"
        then show ?thesis using Worker_constructs [of s addr] by fastforce
      next
        assume "worker s = Enter"
        then show ?thesis using Worker_locks [of s addr] Nobody by fastforce
      qed
    next
      case (Returned r)
      with that show ?thesis by simp
    qed
  qed
  with inv show ?thesis by (cases "worker s") (auto simp: hand_inv_def)
qed

theorem startLoop_handshake_witness:
  "\<exists>s. (hand_step 50)\<^sup>*\<^sup>* handshake_init s \<and> caller s = Sleep \<and> worker s \<in> {Construct, Enter, Publish}"
proof -
  let ?s1 = "handshake_init\<lparr>caller := Acquire, worker := Construct\<rparr>"
  let ?s2 = "?s1\<lparr>caller := Check, mutex := Caller\<rparr>" and ?s3 = "?s1\<lparr>caller := Sleep, mutex := Nobody\<rparr>"
  have "hand_step 50 handshake_init ?s1" by (rule Make_thread) (simp add: handshake_init_def)
  moreover have "hand_step 50 ?s1 ?s2" by (rule Caller_locks) (simp_all add: handshake_init_def)
  moreover have "hand_step 50 ?s2 ?s3"
    using Caller_waits [of ?s2 50] by (simp add: handshake_init_def)
  ultimately have r: "(hand_step 50)\<^sup>*\<^sup>* handshake_init ?s3"
    by (meson converse_rtranclp_into_rtranclp rtranclp.rtrancl_refl)
  show ?thesis using r startLoop_handshake [OF r] by (intro exI [of _ ?s3]) auto
qed

section \<open>Destroying a thread\<close>

text \<open>
  \<open>~Thread\<close>: \<open>loop_\<close> and \<open>thread_\<close> are dereferenced without a test; on a thread that was never started
  both are null. \<open>alive\<close> is whether the loop of the thread is still alive.
\<close>

definition Thread_delete :: "nat option \<Rightarrow> bool \<Rightarrow> ('f, 'w) loop_world_scheme \<Rightarrow> ('f, 'w) loop_world_scheme res" where
  "Thread_delete ptr alive w =
     (case ptr of
        None \<Rightarrow> Inl Null_deref
      | Some l \<Rightarrow> if alive then Inr (EventLoop_quit w) else Inl Use_after_free)"

text \<open>
  \<open>startLoop\<close> returns when the loop is published, which is before \<open>loop()\<close> runs. A destructor
  that runs in between sets \<open>quit_\<close>, and \<open>loop()\<close> clears it again: the loop then behaves as if it
  had never been asked to quit, and \<open>join\<close> waits for it.
\<close>

lemma Thread_delete_quit_lost:
  assumes "Thread_delete (Some l) True w = Inr w'" and "\<not> looping w"
  shows "EventLoop_loop dispatch exec destroy waits tid w' = EventLoop_loop dispatch exec destroy waits tid w"
  using assms by (auto simp: Thread_delete_def EventLoop_loop_def EventLoop_quit_def loop_start_def)

end
