(* ===== verification/Tcp_Server.thy ===== *)
theory Tcp_Server
  imports Tcp_Connection Thread_Pool
begin

text \<open>
  \<open>include/tractor/Acceptor.h\<close>, \<open>src/Acceptor.cpp\<close>, \<open>include/tractor/TcpServer.h\<close> and
  \<open>src/TcpServer.cpp\<close>. The state of the server extends the state of its loop and connections.
  The result of \<open>accept\<close>, the local address and the addresses that the allocator returns for a
  connection and its channel are arguments. \<open>shared_ptr\<close> ownership of a connection is read off
  the state: it is owned by the map \<open>connections_\<close> and by the pending functors that hold it, and
  \<open>server_destroy\<close> deletes it when a functor dies and no owner is left.
\<close>

section \<open>State\<close>

record 'ctx server_world = "'ctx tcp_world" +
  server_name :: string
  acceptFd :: int
  acceptChannel :: nat
  listening :: bool
  pool :: ThreadPool
  started :: bool
  nextConnId :: int
  connections :: "(string \<times> nat) list"

type_synonym ('ctx, 'w) sworld = "('ctx, 'w) server_world_scheme"

section \<open>Acceptor\<close>

text \<open>The constructor: \<open>fd\<close> is the new socket, \<open>p\<close> the address of the channel.\<close>

definition Acceptor_new ::
    "int \<Rightarrow> nat \<Rightarrow> sockaddr_in \<Rightarrow> ('ctx, 'w) sworld \<Rightarrow> ('ctx, 'w) sworld" where
  "Acceptor_new fd p listenAddr w =
     Socket_Bind fd listenAddr
       (put_chan p (Channel_new (ownerLoop w) fd) (w\<lparr>acceptFd := fd, acceptChannel := p, listening := False\<rparr>))"

definition Acceptor_Listen :: "('ctx, 'w) sworld \<Rightarrow> ('ctx, 'w) sworld res" where
  "Acceptor_Listen w =
     (let w1 = Socket_Listen (acceptFd w) (w\<lparr>listening := True\<rparr>)
      in enableReading (acceptChannel w) w1)"

definition handleRand ::
    "(int \<Rightarrow> sockaddr_in \<Rightarrow> ('ctx, 'w) sworld \<Rightarrow> ('ctx, 'w) sworld res) option \<Rightarrow> int \<Rightarrow> sockaddr_in \<Rightarrow>
     ('ctx, 'w) sworld \<Rightarrow> ('ctx, 'w) sworld res" where
  "handleRand newConnectionCallback connFd peer w =
     (if 0 \<le> connFd
      then (case newConnectionCallback of
              Some f \<Rightarrow> f connFd peer w
            | None \<Rightarrow> Inr (syscall (Sys_close connFd) w))
      else Inr w)"

section \<open>TcpServer\<close>

definition TcpServer_new ::
    "int \<Rightarrow> nat \<Rightarrow> sockaddr_in \<Rightarrow> ('ctx, 'w) sworld \<Rightarrow> ('ctx, 'w) sworld" where
  "TcpServer_new fd p listenAddr w =
     (Acceptor_new fd p listenAddr w)
       \<lparr>server_name := SockAddr_toString listenAddr, started := False, nextConnId := 1,
        pool := ThreadPool_new (ownerLoop w), connections := []\<rparr>"

definition TcpServer_start :: "int \<Rightarrow> ('ctx, 'w) sworld \<Rightarrow> ('ctx, 'w) sworld res" where
  "TcpServer_start tid w =
     (let w1 = (if \<not> started w then w\<lparr>started := True\<rparr> else w)
      in if \<not> listening w1 then runInLoop (\<lambda>_. Acceptor_Listen) tid Fn_Listen w1 else Inr w1)"

definition setThreadNum :: "int \<Rightarrow> ('ctx, 'w) sworld \<Rightarrow> ('ctx, 'w) sworld" where
  "setThreadNum n w = w\<lparr>pool := pool_setThreadNum n (pool w)\<rparr>"

definition conn_name :: "string \<Rightarrow> int \<Rightarrow> string" where
  "conn_name server k = server @ snprintf 32 (''#'' @ print_int k)"

text \<open>The increment of the \<open>int\<close> counter overflows after \<open>2 ^ 31 - 1\<close> connections.\<close>

definition newConnection ::
    "('ctx, 'w) sworld conn_callbacks \<Rightarrow> int \<Rightarrow> sockaddr_in \<Rightarrow> nat \<Rightarrow> nat \<Rightarrow> int \<Rightarrow> sockaddr_in \<Rightarrow>
     ('ctx, 'w) sworld \<Rightarrow> ('ctx, 'w) sworld res" where
  "newConnection cbs tid local c p sockfd peer w =
     (let nm = conn_name (server_name w) (nextConnId w)
      in check Int_overflow (nextConnId w < 2 ^ 31 - 1)
        (let w1 = w\<lparr>nextConnId := nextConnId w + 1\<rparr>
         in andthen (getNextLoop (pool w1)) (\<lambda>(ioLoop, pl).
            andthen (TcpConnection_new c p ioLoop nm sockfd local peer (w1\<lparr>pool := pl\<rparr>)) (\<lambda>w2.
              runInLoop (\<lambda>_. connectEstablished cbs c) tid (Fn_connectEstablished c)
                (w2\<lparr>connections := smap_put nm c (connections w2)\<rparr>)))))"

definition removeConnectionInLoop :: "int \<Rightarrow> nat \<Rightarrow> ('ctx, 'w) sworld \<Rightarrow> ('ctx, 'w) sworld res" where
  "removeConnectionInLoop tid c w =
     with_conn c w (\<lambda>cn.
       let n = (if smap_find (connections w) (name cn) = None then 0 else 1 :: nat);
           w1 = w\<lparr>connections := smap_erase (name cn) (connections w)\<rparr>
       in asserting (n = 1) (Inr (queueInLoop tid (Fn_connectDestroyed c) w1)))"

definition removeConnection :: "int \<Rightarrow> nat \<Rightarrow> ('ctx, 'w) sworld \<Rightarrow> ('ctx, 'w) sworld res" where
  "removeConnection tid c w =
     runInLoop (\<lambda>_. removeConnectionInLoop tid c) tid (Fn_removeConnectionInLoop c) w"

text \<open>
  The callbacks of a connection of the server: those the user set, and \<open>removeConnection\<close>.
\<close>

definition server_callbacks ::
    "(nat \<Rightarrow> ('ctx, 'w) sworld \<Rightarrow> ('ctx, 'w) sworld res) option \<Rightarrow>
     (nat \<Rightarrow> int \<Rightarrow> ('ctx, 'w) sworld \<Rightarrow> ('ctx, 'w) sworld res) option \<Rightarrow>
     (nat \<Rightarrow> ('ctx, 'w) sworld \<Rightarrow> ('ctx, 'w) sworld res) option \<Rightarrow> int \<Rightarrow>
     ('ctx, 'w) sworld conn_callbacks" where
  "server_callbacks onConn onMsg onWritten tid =
     \<lparr>connectionCallback = onConn, messageCallback = onMsg,
      connCloseCallback = Some (removeConnection tid), writeCompleteCallback = onWritten\<rparr>"

section \<open>Functors\<close>

definition server_exec :: "int \<Rightarrow> tcp_functor \<Rightarrow> ('ctx, 'w) sworld \<Rightarrow> ('ctx, 'w) sworld res" where
  "server_exec tid f w =
     (case f of
        Fn_removeConnectionInLoop c \<Rightarrow> removeConnectionInLoop tid c w
      | Fn_Listen \<Rightarrow> Acceptor_Listen w
      | _ \<Rightarrow> Inr w)"

text \<open>The functors that hold a \<open>shared_ptr\<close> to a connection; the others hold a raw pointer.\<close>

fun owned_conn :: "tcp_functor \<Rightarrow> nat option" where
  "owned_conn (Fn_writeComplete c) = Some c"
| "owned_conn (Fn_connectEstablished c) = Some c"
| "owned_conn (Fn_connectDestroyed c) = Some c"
| "owned_conn (Fn_removeConnectionInLoop c) = Some c"
| "owned_conn (Fn_sendInLoop c m) = None"
| "owned_conn (Fn_shutdownInLoop c) = None"
| "owned_conn Fn_Listen = None"

definition conn_owned :: "nat \<Rightarrow> ('ctx, 'w) sworld \<Rightarrow> bool" where
  "conn_owned c w \<longleftrightarrow> c \<in> set (map snd (connections w)) \<or>
     Some c \<in> set (map owned_conn (pendingFunctors w))"

definition server_destroy :: "tcp_functor \<Rightarrow> ('ctx, 'w) sworld \<Rightarrow> ('ctx, 'w) sworld res" where
  "server_destroy f w =
     (case owned_conn f of
        None \<Rightarrow> Inr w
      | Some c \<Rightarrow> if conn_owned c w \<or> conns w c = None then Inr w else TcpConnection_delete c w)"

definition server_turn ::
    "('ctx, 'w) sworld conn_callbacks \<Rightarrow> int \<Rightarrow> ('ctx, 'w) sworld \<Rightarrow> ('ctx, 'w) sworld res" where
  "server_turn cbs tid w = doPendingFunctors (tcp_exec (server_exec tid) cbs tid) server_destroy w"

section \<open>Invariant\<close>

lemma print_int_inj: "0 \<le> i \<Longrightarrow> 0 \<le> j \<Longrightarrow> print_int i = print_int j \<longleftrightarrow> i = j"
  by (simp add: print_int_def print_nat_inj eq_nat_nat_iff)

lemma conn_name_inj:
  assumes "0 \<le> i" "i < 2 ^ 31" "0 \<le> j" "j < 2 ^ 31"
  shows "conn_name s i = conn_name s j \<longleftrightarrow> i = j"
proof -
  have len: "length (''#'' @ print_int k) < 32" if "0 \<le> k" "k < 2 ^ 31" for k :: int
  proof -
    have "nat k < 10 ^ 10" using that by (simp add: nat_less_iff)
    then have "length (print_nat (nat k)) \<le> 10" by (intro length_print_nat) auto
    then show ?thesis using that by (simp add: print_int_def)
  qed
  have "conn_name s i = s @ ''#'' @ print_int i" "conn_name s j = s @ ''#'' @ print_int j"
    unfolding conn_name_def using snprintf_fits [OF len] assms by auto
  then show ?thesis using print_int_inj [OF assms(1,3)] by simp
qed

definition server_inv :: "('ctx, 'w) sworld \<Rightarrow> bool" where
  "server_inv w \<longleftrightarrow> epoll_inv w \<and> smap_ok (connections w) \<and> 1 \<le> nextConnId w \<and> nextConnId w < 2 ^ 31 \<and>
     loops (pool w) = [] \<and> baseLoop (pool w) = ownerLoop w \<and>
     (\<forall>nm c. smap_find (connections w) nm = Some c \<longrightarrow>
        (\<exists>k cn. nm = conn_name (server_name w) k \<and> 1 \<le> k \<and> k < nextConnId w \<and>
           conns w c = Some cn \<and> name cn = nm))"

lemma server_epoll_frame [simp]:
  "epoll_inv (w\<lparr>nextConnId := a\<rparr>) = epoll_inv w" "epoll_inv (w\<lparr>pool := b\<rparr>) = epoll_inv w"
  "epoll_inv (w\<lparr>connections := d\<rparr>) = epoll_inv w"
  by (rule epoll_inv_cong; simp)+

text \<open>\<open>setThreadNum\<close> and \<open>start\<close> leave the pool without loops: nothing calls \<open>ThreadPool::start\<close>.\<close>

lemma setThreadNum_inv: "server_inv (setThreadNum n w) = server_inv w"
  by (simp add: server_inv_def setThreadNum_def pool_setThreadNum_def)

lemma fresh_name:
  assumes "server_inv w"
  shows "smap_find (connections w) (conn_name (server_name w) (nextConnId w)) = None"
proof (rule ccontr)
  assume "smap_find (connections w) (conn_name (server_name w) (nextConnId w)) \<noteq> None"
  then obtain k where "conn_name (server_name w) (nextConnId w) = conn_name (server_name w) k"
      "1 \<le> k" "k < nextConnId w"
    using assms by (auto simp: server_inv_def)
  moreover have "nextConnId w < 2 ^ 31" "1 \<le> nextConnId w" using assms by (simp_all add: server_inv_def)
  ultimately show False using conn_name_inj [of "nextConnId w" k "server_name w"] by simp
qed

text \<open>A connection callback that only stores a context in the connection, as that of \<open>HttpServer\<close> does.\<close>

definition sets_context :: "nat \<Rightarrow> (nat \<Rightarrow> ('ctx, 'w) nworld \<Rightarrow> ('ctx, 'w) nworld res) \<Rightarrow> bool" where
  "sets_context c f \<longleftrightarrow> (\<forall>v cn. conns v c = Some cn \<longrightarrow>
     (\<exists>x. f c v = Inr (put_conn c (cn\<lparr>conn_context := x\<rparr>) v)))"

lemma connectEstablished_ok:
  assumes "epoll_inv w" and "conns w c = Some cn" and "conn_state cn = kConnecting"
    and "chans w (channel cn) = Some (Channel_new (ownerLoop w) (socketFd cn))"
    and "smap_find (channels w) (socketFd cn) = None"
    and "buf_ok (inputBuffer cn)" and "buf_ok (outputBuffer cn)" and "contents (outputBuffer cn) = []"
    and "connectionCallback cbs = Some f" and "sets_context c f"
  defines "ch \<equiv> with_reading (Channel_new (ownerLoop w) (socketFd cn))"
  shows "\<exists>x. connectEstablished cbs c w =
     Inr (updated (channel cn) ch (put_conn c (cn\<lparr>conn_state := kConnected, conn_context := x\<rparr>) w)) \<and>
     conn_ok c (updated (channel cn) ch (put_conn c (cn\<lparr>conn_state := kConnected, conn_context := x\<rparr>) w))"
proof -
  let ?c0 = "Channel_new (ownerLoop w) (socketFd cn)"
  let ?w1 = "put_conn c (cn\<lparr>conn_state := kConnected\<rparr>) w"
  let ?w2 = "updated (channel cn) ch ?w1"
  have inv1: "epoll_inv ?w1" using assms(1) by (simp add: put_conn_def)
  have r: "ready (channel cn) ?w1 ?c0"
    using assms(4,5) by (simp add: ready_def put_conn_def Channel_new_def)
  have "channels_inv ?w1" using inv1 by (simp add: epoll_inv_def)
  from change_events_eq [OF this r, of with_reading]
  have en: "enableReading (channel cn) ?w1 = Inr ?w2" by (simp add: enableReading_def ch_def)
  have inv2: "epoll_inv ?w2" using epoll_inv_updated [OF inv1 r, of with_reading] by (simp add: ch_def)
  have c2: "conns ?w2 c = Some (cn\<lparr>conn_state := kConnected\<rparr>)" by (simp add: updated_def put_conn_def)
  then obtain x where x: "f c ?w2 = Inr (put_conn c (cn\<lparr>conn_state := kConnected, conn_context := x\<rparr>) ?w2)"
    using assms(10) by (fastforce simp: sets_context_def)
  let ?w3 = "updated (channel cn) ch (put_conn c (cn\<lparr>conn_state := kConnected, conn_context := x\<rparr>) w)"
  have w3: "put_conn c (cn\<lparr>conn_state := kConnected, conn_context := x\<rparr>) ?w2 = ?w3"
    by (simp add: updated_def put_conn_def)
  have eq: "connectEstablished cbs c w = Inr ?w3"
    using assms(2,3,9) en x w3
    by (simp add: connectEstablished_def with_conn_def setState_def invoke_def)
  have "epoll_inv ?w3" using inv2 unfolding w3 [symmetric] by (simp add: put_conn_def)
  moreover have "bit (events ch) 0" "\<not> isWriting ch" "\<not> isNoneEvent ch" "index ch \<noteq> kAdded"
    "chan_fd ch = socketFd cn" "chan_loop ch = ownerLoop w"
    by (simp_all add: ch_def with_reading_def Channel_new_def isWriting_bit kReadEvent_bits index_values
        isNoneEvent_def kNoneEvent_def kReadEvent_def poll_flags)
  ultimately have "conn_ok c ?w3"
    using assms(6,7,8) by (simp add: conn_ok_def updated_def put_conn_def)
  with eq show ?thesis by blast
qed

section \<open>Accepting a connection\<close>

text \<open>
  Property C13. \<open>newConnection\<close> on the loop thread: the connection gets a name that no connection of the
  server has, it is entered in \<open>connections_\<close>, it is established with the kernel watching its
  descriptor for reading, and the invariant of the server is kept. Its loop is the loop of the
  acceptor whatever was passed to \<open>setThreadNum\<close>: the server never starts its thread pool.
\<close>

theorem newConnection_spec:
  assumes "server_inv w" and "threadId w = tid" and "conns w c = None" and "chans w p = None"
    and "smap_find (channels w) sockfd = None" and "nextConnId w < 2 ^ 31 - 1"
    and "connectionCallback cbs = Some f" and "sets_context c f"
  shows "\<exists>w' cn. newConnection cbs tid local c p sockfd peer (setThreadNum n w) = Inr w' \<and> server_inv w' \<and>
     conns w' c = Some cn \<and> conn_state cn = kConnected \<and> conn_ok c w' \<and>
     smap_find (connections w) (name cn) = None \<and> connections w' = smap_put (name cn) c (connections w) \<and>
     interest (ctl_log w') sockfd = Some (kReadEvent, p) \<and> conn_loop cn = ownerLoop w"
proof -
  let ?nm = "conn_name (server_name w) (nextConnId w)"
  obtain b where b: "Buffer_new = Inr b" "buf_ok b" "contents b = []" using Buffer_new_ok by blast
  let ?cn = "\<lparr>conn_loop = ownerLoop w, name = ?nm, conn_state = kConnecting, localAddr = local,
      peerAddr = peer, channel = p, socketFd = sockfd, inputBuffer = b, outputBuffer = b,
      highWaterMark = None, conn_context = None\<rparr>"
  let ?w0 = "w\<lparr>nextConnId := nextConnId w + 1, pool := pool_setThreadNum n (pool w)\<rparr>"
  let ?w2 = "(put_conn c ?cn (put_chan p (Channel_new (ownerLoop w) sockfd) ?w0))
      \<lparr>connections := smap_put ?nm c (connections w)\<rparr>"
  have inv: "epoll_inv w" "loops (pool w) = []" "baseLoop (pool w) = ownerLoop w" "smap_ok (connections w)"
    using assms(1) by (simp_all add: server_inv_def)
  have eq: "newConnection cbs tid local c p sockfd peer (setThreadNum n w) = connectEstablished cbs c ?w2"
    using assms(2,6) inv(2,3)
    by (simp add: b(1) newConnection_def setThreadNum_def pool_setThreadNum_def getNextLoop_def
        TcpConnection_new_def runInLoop_def isInLoopThread_def put_conn_def put_chan_def Let_def)
  have inv2: "epoll_inv ?w2"
    using epoll_inv_alloc [of w p "ownerLoop w" sockfd] inv(1) assms(4)
      epoll_inv_cong [of ?w2 "w\<lparr>chans := (chans w)(p \<mapsto> Channel_new (ownerLoop w) sockfd)\<rparr>"]
    by (simp add: put_conn_def put_chan_def)
  let ?ch = "with_reading (Channel_new (ownerLoop w) sockfd)"
  have own: "ownerLoop ?w2 = ownerLoop w" by (simp add: put_conn_def put_chan_def)
  obtain x where x: "connectEstablished cbs c ?w2 =
       Inr (updated p ?ch (put_conn c (?cn\<lparr>conn_state := kConnected, conn_context := x\<rparr>) ?w2))"
     "conn_ok c (updated p ?ch (put_conn c (?cn\<lparr>conn_state := kConnected, conn_context := x\<rparr>) ?w2))"
    using connectEstablished_ok [OF inv2, of c ?cn cbs f] assms(5,7,8) b own
    by (auto simp: put_conn_def put_chan_def)
  define W where "W = updated p ?ch (put_conn c (?cn\<lparr>conn_state := kConnected, conn_context := x\<rparr>) ?w2)"
  have fields: "connections W = smap_put ?nm c (connections w)" "nextConnId W = nextConnId w + 1"
      "server_name W = server_name w" "ownerLoop W = ownerLoop w"
      "pool W = pool_setThreadNum n (pool w)"
      "conns W = (conns w)(c \<mapsto> ?cn\<lparr>conn_state := kConnected, conn_context := x\<rparr>)"
      "chans W p = Some (setIndex (next_index ?ch) ?ch)"
    by (simp_all add: W_def updated_def put_conn_def put_chan_def)
  have okW: "conn_ok c W" using x(2) by (simp add: W_def)
  then have einv: "epoll_inv W" by (auto simp: conn_ok_def split: option.splits)
  have "server_inv W"
    unfolding server_inv_def
  proof (intro conjI allI impI)
    fix nm c' assume that: "smap_find (connections W) nm = Some c'"
    show "\<exists>k d. nm = conn_name (server_name W) k \<and> 1 \<le> k \<and> k < nextConnId W \<and>
      conns W c' = Some d \<and> name d = nm"
    proof (cases "nm = ?nm")
      case True
      with that inv(4) have "c' = c" by (simp add: fields)
      with True assms(1) show ?thesis by (auto simp: fields server_inv_def)
    next
      case False
      with that inv(4) have "smap_find (connections w) nm = Some c'" by (simp add: fields)
      then obtain k d where kd: "nm = conn_name (server_name w) k" "1 \<le> k" "k < nextConnId w"
          "conns w c' = Some d" "name d = nm"
        using assms(1) unfolding server_inv_def by blast
      with assms(3) have "c' \<noteq> c" by auto
      with kd show ?thesis by (intro exI [of _ k] exI [of _ d]) (simp add: fields)
    qed
  qed (use einv inv assms(1,6) fields in \<open>simp_all add: pool_setThreadNum_def server_inv_def\<close>)
  moreover have "interest (ctl_log W) sockfd = Some (kReadEvent, p)"
  proof -
    have "interest (ctl_log W) = registered W" "channels_inv W" using einv by (auto simp: epoll_inv_def)
    moreover have "index (setIndex (next_index ?ch) ?ch) = kAdded" "events ?ch = kReadEvent"
        "chan_fd ?ch = sockfd"
      by (simp_all add: with_reading_def Channel_new_def index_values)
    ultimately show ?thesis
      using channels_inv_find [OF _ fields(7)] fields(7) by (simp add: registered_def index_values)
  qed
  ultimately show ?thesis
    using eq x(1) okW fields fresh_name [OF assms(1)] by (intro exI [of _ W]) (simp add: W_def)
qed

definition sample_server :: "unit server_world" where
  "sample_server = TcpServer_new 5 11 (SockAddr_port 0)
     (tcp_world.extend
       (loop_world.extend (fst (EventLoop_new 1 77 (-5) 10 None))
         \<lparr>conns = (\<lambda>_. None), wire = (\<lambda>_. []), sysret = [], rdret = [], sys_log = []\<rparr>)
       \<lparr>server_name = [], acceptFd = 0, acceptChannel = 0, listening = False, pool = ThreadPool_new 1,
        started = False, nextConnId = 0, connections = []\<rparr>)"

lemmas sample_server_simps = sample_server_def TcpServer_new_def Acceptor_new_def Socket_Bind_def
  syscall_def put_chan_def EventLoop_new_def poll_world.defs loop_world.defs tcp_world.defs
  EPoller_new_def ThreadPool_new_def

lemma sample_server_ok:
  "server_inv sample_server" "threadId sample_server = 77" "conns sample_server = (\<lambda>_. None)"
  "chans sample_server 12 = None" "channels sample_server = []" "nextConnId sample_server = 1"
  "connections sample_server = []" "ownerLoop sample_server = 1"
proof -
  show f: "threadId sample_server = 77" "conns sample_server = (\<lambda>_. None)"
      "chans sample_server 12 = None" "channels sample_server = []" "nextConnId sample_server = 1"
      "connections sample_server = []" "ownerLoop sample_server = 1"
    by (simp_all add: sample_server_simps)
  have "epoll_inv sample_server"
    by (auto simp: sample_server_simps epoll_inv_def channels_inv_def registered_def fun_eq_iff
        interest_def Channel_new_def index_values)
  moreover have "loops (pool sample_server) = []" "baseLoop (pool sample_server) = 1"
    by (simp_all add: sample_server_simps)
  ultimately show "server_inv sample_server" using f by (simp add: server_inv_def)
qed

definition quiet_callbacks :: "(unit, 'w) sworld conn_callbacks" where
  "quiet_callbacks = server_callbacks (Some (\<lambda>c w. setContext c () w)) None None 77"

lemma quiet_callbacks_ok: "sets_context c (\<lambda>c w. setContext c () w)"
  by (auto simp: sets_context_def setContext_def with_conn_def)

theorem newConnection_spec_witness:
  "\<exists>w' cn. newConnection quiet_callbacks 77 (SockAddr_port 0) 3 12 7 (SockAddr_port 9)
        (setThreadNum 4 sample_server) = Inr w' \<and> server_inv w' \<and>
     conns w' 3 = Some cn \<and> conn_ok 3 w' \<and> interest (ctl_log w') 7 = Some (kReadEvent, 12) \<and> conn_loop cn = 1"
  using newConnection_spec [OF sample_server_ok(1,2), of 3 12 7 quiet_callbacks "\<lambda>c w. setContext c () w"
      "SockAddr_port 0" "SockAddr_port 9" 4] quiet_callbacks_ok [of 3] sample_server_ok
  by (auto simp: quiet_callbacks_def server_callbacks_def)

section \<open>Closing a connection\<close>

lemma epoll_inv_same:
  assumes "epoll_inv w" and "chans w p = Some ch" and "chan_fd ch' = chan_fd ch"
    and "index ch' = index ch" and "events ch' = events ch"
  shows "epoll_inv (put_chan p ch' w)"
proof -
  let ?w = "put_chan p ch' w"
  have "registered ?w = registered w"
    using assms(2-5) by (auto simp: registered_def put_chan_def fun_eq_iff split: option.splits)
  moreover have "channels_inv ?w"
    unfolding channels_inv_def
  proof (intro conjI allI impI)
    have inv: "channels_inv w" using assms(1) by (simp add: epoll_inv_def)
    then show "smap_ok (channels ?w)" by (simp add: channels_inv_def put_chan_def)
    fix q
    show "\<exists>d. chans ?w q = Some d \<and> chan_fd d = fd \<and> (index d = kAdded \<or> index d = kDeleted)"
      if f: "smap_find (channels ?w) fd = Some q" for fd
    proof -
      obtain d where "chans w q = Some d" "chan_fd d = fd" "index d = kAdded \<or> index d = kDeleted"
        using inv f unfolding channels_inv_def put_chan_def by auto
      then show ?thesis using assms(2-4) by (cases "q = p") (simp_all add: put_chan_def)
    qed
    show "smap_find (channels ?w) (chan_fd d) = Some q" if "chans ?w q = Some d" "index d \<noteq> kNew" for d
      using that assms(2-4) channels_inv_find [OF inv, of q]
      by (cases "q = p") (auto simp: put_chan_def)
  qed
  ultimately show ?thesis using assms(1) by (simp add: epoll_inv_def put_chan_def)
qed

lemma epoll_inv_free:
  assumes "epoll_inv w" and "chans w p = Some ch" and "index ch = kNew"
  shows "epoll_inv (w\<lparr>chans := (chans w)(p := None)\<rparr>)"
proof -
  let ?w = "w\<lparr>chans := (chans w)(p := None)\<rparr>"
  have np: "smap_find (channels w) fd \<noteq> Some p" for fd
    using assms unfolding epoll_inv_def channels_inv_def by (fastforce simp: index_values)
  then have "registered ?w = registered w"
    by (auto simp: registered_def fun_eq_iff split: option.splits)
  moreover have "channels_inv ?w"
    using assms(1) np by (auto simp: epoll_inv_def channels_inv_def)
  ultimately show ?thesis using assms(1) by (simp add: epoll_inv_def)
qed

lemma handleEvent_readable:
  "handleEvent mark POLLIN cbs t s =
     andthen (call (map_option (\<lambda>f. f t) (readCallback cbs)) (mark True s)) (\<lambda>s'. Inr (mark False s'))"
proof -
  have bits: "bit POLLIN 0" "\<not> bit POLLIN 2" "\<not> bit POLLIN 3" "\<not> bit POLLIN 4" "\<not> bit POLLIN 5"
    by (simp_all add: poll_flags bit_simps)
  have nz: "POLLIN \<noteq> 0" by (simp add: poll_flags)
  show ?thesis by (simp add: handleEvent_def and_flags and_or_flags bits nz Let_def)
qed

text \<open>What the dispatch of a peer's close leaves behind, for the functor that follows.\<close>

definition closing :: "nat \<Rightarrow> ('ctx, 'w) sworld \<Rightarrow> ('ctx, 'w) sworld \<Rightarrow> bool" where
  "closing c w w1 \<longleftrightarrow> epoll_inv w1 \<and> ownerLoop w1 = ownerLoop w \<and> threadId w1 = threadId w \<and>
     pool w1 = pool w \<and> nextConnId w1 = nextConnId w \<and> server_name w1 = server_name w \<and>
     sys_log w1 = sys_log w \<and> pendingFunctors w1 = [Fn_connectDestroyed c] \<and>
     (\<exists>cn ib ch. conns w c = Some cn \<and> conns w1 = (conns w)(c \<mapsto> cn\<lparr>inputBuffer := ib\<rparr>) \<and>
        connections w1 = smap_erase (name cn) (connections w) \<and>
        chans w1 (channel cn) = Some ch \<and> chan_fd ch = socketFd cn \<and> chan_loop ch = ownerLoop w \<and>
        index ch = kDeleted \<and> eventHandling ch = Some False)"

lemma dispatch_close:
  assumes "conn_ok c w" and "conns w c = Some cn" and "threadId w = tid"
    and "conn_state cn = kConnected \<or> conn_state cn = kDisconnecting"
    and "smap_find (connections w) (name cn) = Some c" and "pendingFunctors w = []"
    and "chans w (channel cn) = Some ch" and "revents ch = POLLIN" and "rdret w = Readv_bytes [] # rs"
  shows "\<exists>w1. conn_dispatch (server_callbacks onConn onMsg onWritten tid) tid c t w = Inr w1 \<and> closing c w w1"
proof -
  let ?cbs = "server_callbacks onConn onMsg onWritten tid" and ?p = "channel cn"
  have ok: "epoll_inv w" "index ch = kAdded" "chan_fd ch = socketFd cn" "chan_loop ch = ownerLoop w"
      "buf_ok (inputBuffer cn)"
    using assms(1,2,7) by (auto simp: conn_ok_def)
  obtain ib where ib: "readFd (Readv_bytes []) (inputBuffer cn) = Inr (ib, 0, None)"
    using readFd_ok [OF ok(5), of "[]"] buf_ok_indices(3) [OF ok(5)] by auto
  define ch1 where "ch1 = ch\<lparr>eventHandling := Some True\<rparr>"
  define w1 where "w1 = put_conn c (cn\<lparr>inputBuffer := ib\<rparr>) ((put_chan ?p ch1 w)\<lparr>rdret := rs\<rparr>)"
  have c1: "chans w1 ?p = Some ch1" "conns w1 = (conns w)(c \<mapsto> cn\<lparr>inputBuffer := ib\<rparr>)"
      "ownerLoop w1 = ownerLoop w"
    by (simp_all add: w1_def put_conn_def put_chan_def)
  have ch1: "index ch1 = kAdded" "chan_fd ch1 = socketFd cn" "chan_loop ch1 = ownerLoop w" "events ch1 = events ch"
    using ok by (simp_all add: ch1_def)
  have inv1: "epoll_inv w1"
    using epoll_inv_same [OF ok(1) assms(7), of ch1] ch1 ok by (simp add: w1_def put_conn_def)
  have r1: "ready ?p w1 ch1" using c1 ch1 by (simp add: ready_def index_values)
  define ch2 where "ch2 = setIndex kDeleted (without_events ch1)"
  have ch2: "index ch2 = kDeleted" "chan_fd ch2 = socketFd cn" "chan_loop ch2 = ownerLoop w" "events ch2 = kNoneEvent"
    using ch1 by (simp_all add: ch2_def without_events_def)
  define w2 where "w2 = updated ?p (without_events ch1) w1"
  have dis: "disableAll ?p w1 = Inr w2" and inv2: "epoll_inv w2"
    using change_events_eq [OF _ r1, of without_events] epoll_inv_updated [OF inv1 r1, of without_events] inv1
    by (simp_all add: w2_def disableAll_def epoll_inv_def)
  have c2: "chans w2 ?p = Some ch2" "conns w2 = conns w1"
    using remasks_fields [OF remasks_ops(4), of ch1] ch1(1)
    by (simp_all add: w2_def updated_def ch2_def)
  define w3 where "w3 = queueInLoop tid (Fn_connectDestroyed c)
      (w2\<lparr>connections := smap_erase (name cn) (connections w2)\<rparr>)"
  have conn3: "conns w3 = conns w1" "chans w3 = chans w2"
    by (simp_all add: w3_def functor_ops Let_def c2)
  have inv3: "epoll_inv w3"
    using inv2 epoll_inv_cong [of w3 w2] by (simp add: w3_def functor_ops Let_def)
  have close: "handleClose ?cbs c w1 = Inr w3"
    using c1(2) assms(3,4,5) dis c2(2)
    by (simp add: handleClose_def with_conn_def invoke_def server_callbacks_def removeConnection_def
        runInLoop_def isInLoopThread_def removeConnectionInLoop_def w3_def w2_def w1_def updated_def
        put_conn_def put_chan_def)
  have read: "conn_handleRead ?cbs c t (put_chan ?p ch1 w) = Inr w3"
    using assms(2,9) ib close
    by (simp add: conn_handleRead_def with_conn_def with_chan_def put_chan_def sys_readv_def w1_def)
  define w4 where "w4 = put_chan ?p (ch2\<lparr>eventHandling := Some False\<rparr>) w3"
  have "conn_dispatch ?cbs tid c t w = Inr w4"
    using assms(2,7,8) read conn3 c2(1)
    by (simp add: conn_dispatch_def with_conn_def with_chan_def handleEvent_readable call_def
        conn_channel_callbacks_def setErrorCallback_def setCloseCallback_def setWriteCallback_def
        setReadCallback_def no_callbacks_def mark_handling_def ch1_def w4_def)
  moreover have "epoll_inv w4"
    using epoll_inv_same [OF inv3, of ?p ch2 "ch2\<lparr>eventHandling := Some False\<rparr>"] conn3 c2(1)
    by (simp add: w4_def)
  moreover have "closing c w w4" if "epoll_inv w4"
    using that assms(2,6) ch2 conn3 c1
    by (auto simp: closing_def w4_def w3_def w2_def w1_def updated_def put_conn_def put_chan_def
        functor_ops Let_def)
  ultimately show ?thesis by blast
qed

lemma connectDestroyed_ok:
  assumes "epoll_inv w" and "conns w c = Some cn" and "chans w (channel cn) = Some ch"
    and "conn_state cn = kConnected \<or> conn_state cn = kDisconnecting"
    and "chan_loop ch = ownerLoop w" and "index ch = kDeleted" and "chan_fd ch = socketFd cn"
    and "connectionCallback cbs = Some f" and "sets_context c f"
  shows "\<exists>x. connectDestroyed cbs c w = Inr (w
      \<lparr>conns := (conns w)(c \<mapsto> cn\<lparr>conn_state := kDisconnected, conn_context := x\<rparr>),
       chans := (chans w)(channel cn \<mapsto> setIndex kNew (without_events ch)),
       channels := smap_erase (socketFd cn) (channels w),
       ctl_log := ctl_log w @ [Epoll_ctl CTL_ADD (socketFd cn) 0 (channel cn),
         Epoll_ctl CTL_DEL (socketFd cn) 0 (channel cn)]\<rparr>) \<and>
     epoll_inv (w
      \<lparr>conns := (conns w)(c \<mapsto> cn\<lparr>conn_state := kDisconnected, conn_context := x\<rparr>),
       chans := (chans w)(channel cn \<mapsto> setIndex kNew (without_events ch)),
       channels := smap_erase (socketFd cn) (channels w),
       ctl_log := ctl_log w @ [Epoll_ctl CTL_ADD (socketFd cn) 0 (channel cn),
         Epoll_ctl CTL_DEL (socketFd cn) 0 (channel cn)]\<rparr>)"
proof -
  let ?p = "channel cn"
  define w1 where "w1 = put_conn c (cn\<lparr>conn_state := kDisconnected\<rparr>) w"
  have inv1: "epoll_inv w1" using assms(1) by (simp add: w1_def put_conn_def)
  have r1: "ready ?p w1 ch" using assms(3,5,6) by (simp add: ready_def w1_def put_conn_def index_values)
  define w2 where "w2 = updated ?p (without_events ch) w1"
  have dis: "disableAll ?p w1 = Inr w2" and inv2: "epoll_inv w2"
    using change_events_eq [OF _ r1, of without_events] epoll_inv_updated [OF inv1 r1, of without_events] inv1
    by (simp_all add: w2_def disableAll_def epoll_inv_def)
  define ch2 where "ch2 = setIndex kAdded (without_events ch)"
  have ne: "index (without_events ch) = kDeleted" "chan_fd (without_events ch) = socketFd cn"
      "chan_loop (without_events ch) = ownerLoop w" "events (without_events ch) = 0"
    using assms(5-7) by (simp_all add: without_events_def kNoneEvent_def)
  have w2: "w2 = w1\<lparr>chans := (chans w1)(?p \<mapsto> ch2), ctl_log := ctl_log w1 @ [Epoll_ctl CTL_ADD (socketFd cn) 0 ?p]\<rparr>"
    using ne by (simp add: w2_def updated_def update_call_def index_values ch2_def)
  have c2: "conns w2 c = Some (cn\<lparr>conn_state := kDisconnected\<rparr>)" by (simp add: w2 w1_def put_conn_def)
  then obtain x where x: "f c w2 = Inr (put_conn c (cn\<lparr>conn_state := kDisconnected, conn_context := x\<rparr>) w2)"
    using assms(9) by (fastforce simp: sets_context_def)
  define w3 where "w3 = put_conn c (cn\<lparr>conn_state := kDisconnected, conn_context := x\<rparr>) w2"
  have inv3: "epoll_inv w3" using inv2 by (simp add: w3_def put_conn_def)
  have c3: "chans w3 ?p = Some ch2" "chan_loop ch2 = ownerLoop w3" "isNoneEvent ch2" "index ch2 \<noteq> kNew"
    using ne by (simp_all add: w3_def w2 w1_def put_conn_def ch2_def index_values)
  have "channels_inv w3" using inv3 by (simp add: epoll_inv_def)
  note rem = loop_removeChannel_eq [OF this c3] epoll_inv_removed [OF inv3 c3(1,4)]
  have eq: "removed ?p ch2 w3 = w
      \<lparr>conns := (conns w)(c \<mapsto> cn\<lparr>conn_state := kDisconnected, conn_context := x\<rparr>),
       chans := (chans w)(?p \<mapsto> setIndex kNew (without_events ch)),
       channels := smap_erase (socketFd cn) (channels w),
       ctl_log := ctl_log w @ [Epoll_ctl CTL_ADD (socketFd cn) 0 ?p, Epoll_ctl CTL_DEL (socketFd cn) 0 ?p]\<rparr>"
    using ne by (simp add: removed_def w3_def w2 w1_def put_conn_def ch2_def setIndex_def index_values)
  have "connectDestroyed cbs c w = Inr (removed ?p ch2 w3)"
    using assms(2,4,8) dis x rem(1)
    by (simp add: connectDestroyed_def with_conn_def setState_def invoke_def w1_def w3_def)
  with rem(2) show ?thesis unfolding eq by blast
qed

lemma not_owned_after_erase:
  assumes "server_inv w" and "conns w c = Some cn"
  shows "c \<notin> snd ` set (smap_erase (name cn) (connections w))"
proof
  assume "c \<in> snd ` set (smap_erase (name cn) (connections w))"
  then obtain nm where nm: "(nm, c) \<in> set (smap_erase (name cn) (connections w))" by auto
  have ok: "smap_ok (connections w)" using assms(1) by (simp add: server_inv_def)
  then have "distinct (map fst (smap_erase (name cn) (connections w)))"
    using smap_ok_erase [OF ok] by (simp only: strict_sorted_iff)
  with nm have "smap_find (smap_erase (name cn) (connections w)) nm = Some c" by simp
  with ok have "nm \<noteq> name cn" "smap_find (connections w) nm = Some c" by (auto split: if_splits)
  with assms show False unfolding server_inv_def by force
qed

text \<open>
  Property C8. The life of a connection ends cleanly when the peer closes: the event with nothing to read leads
  through \<open>handleRead_\<close>, \<open>handleClose_\<close>, \<open>removeConnection\<close> and the queued \<open>connectDestroyed\<close> without
  a fault. After the turn of the loop the connection and its channel are freed and no dangling
  entry is left: it is neither in \<open>connections_\<close> nor in the map of the poller nor in the interest
  list of the kernel, its descriptor is closed once, and the invariant of the server holds.
\<close>

theorem peer_close_cleans_up:
  assumes "server_inv w" and "conn_ok c w" and "conns w c = Some cn" and "threadId w = tid"
    and "conn_state cn = kConnected \<or> conn_state cn = kDisconnecting"
    and "smap_find (connections w) (name cn) = Some c" and "pendingFunctors w = []"
    and "chans w (channel cn) = Some ch" and "revents ch = POLLIN" and "rdret w = Readv_bytes [] # rs"
    and "sets_context c f" and "cbs = server_callbacks (Some f) onMsg onWritten tid"
  shows "\<exists>w1 w'. conn_dispatch cbs tid c t w = Inr w1 \<and> server_turn cbs tid w1 = Inr w' \<and>
     conns w' = (conns w)(c := None) \<and> chans w' (channel cn) = None \<and>
     connections w' = smap_erase (name cn) (connections w) \<and>
     smap_find (channels w') (socketFd cn) = None \<and> interest (ctl_log w') (socketFd cn) = None \<and>
     sys_log w' = sys_log w @ [Sys_close (socketFd cn)] \<and> pendingFunctors w' = [] \<and> server_inv w'"
proof -
  obtain w1 where w1: "conn_dispatch cbs tid c t w = Inr w1" "closing c w w1"
    using dispatch_close [OF assms(2,3,4,5,6,7,8,9,10), of "Some f" onMsg onWritten t] assms(12) by blast
  have cb: "connectionCallback cbs = Some f" using assms(12) by (simp add: server_callbacks_def)
  obtain ib ch1 where inv1: "epoll_inv w1" and cl: "ownerLoop w1 = ownerLoop w" "pool w1 = pool w"
      "nextConnId w1 = nextConnId w" "server_name w1 = server_name w" "sys_log w1 = sys_log w"
      "pendingFunctors w1 = [Fn_connectDestroyed c]" "conns w1 = (conns w)(c \<mapsto> cn\<lparr>inputBuffer := ib\<rparr>)"
      "connections w1 = smap_erase (name cn) (connections w)"
    and ch1: "chans w1 (channel cn) = Some ch1" "chan_fd ch1 = socketFd cn" "chan_loop ch1 = ownerLoop w"
      "index ch1 = kDeleted" "eventHandling ch1 = Some False"
    using w1(2) assms(3) unfolding closing_def by auto
  let ?cn = "cn\<lparr>inputBuffer := ib\<rparr>" and ?p = "channel cn" and ?fd = "socketFd cn"
  let ?ch = "setIndex kNew (without_events ch1)"
  define w2 where "w2 = snd (take_pending w1)"
  have f2: "chans w2 = chans w1" "channels w2 = channels w1" "ctl_log w2 = ctl_log w1" "conns w2 = conns w1"
      "ownerLoop w2 = ownerLoop w1"
    by (simp_all add: w2_def take_pending_def)
  have inv2: "epoll_inv w2" using inv1 epoll_inv_cong [OF f2(2,1,3)] by simp
  obtain x w3 where w3: "w3 = w2
      \<lparr>conns := (conns w2)(c \<mapsto> ?cn\<lparr>conn_state := kDisconnected, conn_context := x\<rparr>),
       chans := (chans w2)(?p \<mapsto> ?ch), channels := smap_erase ?fd (channels w2),
       ctl_log := ctl_log w2 @ [Epoll_ctl CTL_ADD ?fd 0 ?p, Epoll_ctl CTL_DEL ?fd 0 ?p]\<rparr>"
    and x: "connectDestroyed cbs c w2 = Inr w3" and inv3: "epoll_inv w3"
    using connectDestroyed_ok [OF inv2, of c ?cn ch1 cbs f] f2 cl ch1 assms(5,11) cb by auto
  define w' where "w' = (end_pending (syscall (Sys_close ?fd) w3))
      \<lparr>chans := (chans w3)(?p := None), conns := (conns w3)(c := None)\<rparr>"
  have f3: "connections w3 = connections w1" "pendingFunctors w3 = []" "chans w3 ?p = Some ?ch"
      "conns w3 c = Some (?cn\<lparr>conn_state := kDisconnected, conn_context := x\<rparr>)"
    by (simp_all add: w3 w2_def take_pending_def)
  have not_owned: "\<not> conn_owned c (end_pending w3)"
    using not_owned_after_erase [OF assms(1,3)] cl f3 by (simp add: conn_owned_def end_pending_def)
  have del: "server_destroy (Fn_connectDestroyed c) (end_pending w3) = Inr w'"
    using not_owned ch1(5) f3
    by (simp add: server_destroy_def TcpConnection_delete_def with_conn_def with_chan_def Socket_delete_def
        syscall_def end_pending_def Channel_delete_def setIndex_def without_events_def w'_def)
  have turn: "server_turn cbs tid w1 = Inr w'"
    using x del cl(6) by (simp add: server_turn_def doPendingFunctors_def take_pending_def tcp_exec_def w2_def)
  have "epoll_inv (w3\<lparr>chans := (chans w3)(?p := None)\<rparr>)"
    using inv3 f3(3) by (intro epoll_inv_free [where ch = ?ch]) simp_all
  then have inv': "epoll_inv w'"
    using epoll_inv_cong [of w' "w3\<lparr>chans := (chans w3)(?p := None)\<rparr>"]
    by (simp add: w'_def end_pending_def syscall_def)
  have fields: "conns w' = (conns w)(c := None)" "chans w' ?p = None" "connections w' = smap_erase (name cn) (connections w)"
      "channels w' = smap_erase ?fd (channels w1)" "sys_log w' = sys_log w @ [Sys_close ?fd]"
      "pendingFunctors w' = []" "pool w' = pool w" "nextConnId w' = nextConnId w"
      "server_name w' = server_name w" "ownerLoop w' = ownerLoop w"
    using cl by (simp_all add: w'_def w3 end_pending_def syscall_def w2_def take_pending_def)
  have "smap_ok (channels w1)" using inv1 by (simp add: epoll_inv_def channels_inv_def)
  then have nfd: "smap_find (channels w') ?fd = None" by (simp add: fields)
  then have "interest (ctl_log w') ?fd = None" using inv' by (simp add: epoll_inv_def registered_def)
  moreover have "server_inv w'"
  proof -
    have ok: "smap_ok (connections w)" using assms(1) by (simp add: server_inv_def)
    have "\<exists>k d. nm = conn_name (server_name w) k \<and> 1 \<le> k \<and> k < nextConnId w \<and> conns w' c' = Some d \<and> name d = nm"
      if e: "smap_find (smap_erase (name cn) (connections w)) nm = Some c'" for nm c'
    proof -
      have nm: "nm \<noteq> name cn" "smap_find (connections w) nm = Some c'" using e ok by (auto split: if_splits)
      then obtain k d where "nm = conn_name (server_name w) k" "1 \<le> k" "k < nextConnId w"
          "conns w c' = Some d" "name d = nm"
        using assms(1) unfolding server_inv_def by blast
      moreover from this nm(1) assms(3) have "c' \<noteq> c" by auto
      ultimately show ?thesis by (intro exI [of _ k] exI [of _ d]) (simp add: fields)
    qed
    then show ?thesis using inv' ok assms(1) unfolding server_inv_def fields by simp
  qed
  ultimately show ?thesis using w1(1) turn fields nfd by blast
qed

definition sample_open :: "unit server_world" where
  "sample_open = tcp_world.extend
     (sample_conn\<lparr>rdret := [Readv_bytes []], chans := [12 \<mapsto> \<lparr>chan_loop = 1, chan_fd = 7,
        events = kReadEvent, revents = POLLIN, index = kAdded, eventHandling = None\<rparr>]\<rparr>)
     \<lparr>server_name = ''s'', acceptFd = 5, acceptChannel = 11, listening = True, pool = ThreadPool_new 1,
      started = True, nextConnId = 2, connections = [(''s#1'', 3)]\<rparr>"

lemma sample_open_ok:
  "server_inv sample_open" "conn_ok 3 sample_open" "threadId sample_open = 77"
  "pendingFunctors sample_open = []"
  "\<exists>cn ch. conns sample_open 3 = Some cn \<and> conn_state cn = kConnected \<and>
     smap_find (connections sample_open) (name cn) = Some 3 \<and> socketFd cn = 7 \<and>
     chans sample_open (channel cn) = Some ch \<and> revents ch = POLLIN"
  "rdret sample_open = [Readv_bytes []]"
proof -
  note defs = sample_open_def sample_conn_def Let_def EventLoop_new_def poll_world.defs loop_world.defs
    tcp_world.defs EPoller_new_def put_chan_def
  have inv: "epoll_inv sample_open"
    by (auto simp: defs epoll_inv_def channels_inv_def index_values interest_def registered_def fun_eq_iff)
  then show "conn_ok 3 sample_open"
    by (simp add: conn_ok_def defs isWriting_bit kReadEvent_bits buf_ok_def contents_def
        kCheapPrepend_def vector_max_size_def)
  have "conn_name ''s'' 1 = ''s#1''" by code_simp
  with inv show "server_inv sample_open"
    by (auto simp: server_inv_def defs ThreadPool_new_def intro!: exI [of _ 1])
  show "threadId sample_open = 77" "pendingFunctors sample_open = []"
    "rdret sample_open = [Readv_bytes []]"
    "\<exists>cn ch. conns sample_open 3 = Some cn \<and> conn_state cn = kConnected \<and>
     smap_find (connections sample_open) (name cn) = Some 3 \<and> socketFd cn = 7 \<and>
     chans sample_open (channel cn) = Some ch \<and> revents ch = POLLIN"
    by (simp_all add: defs)
qed

theorem peer_close_cleans_up_witness:
  "\<exists>w1 w'. conn_dispatch quiet_callbacks 77 3 100 sample_open = Inr w1 \<and>
     server_turn quiet_callbacks 77 w1 = Inr w' \<and> conns w' 3 = None \<and> connections w' = [] \<and>
     interest (ctl_log w') 7 = None \<and> server_inv w'"
proof -
  obtain cn ch where c: "conns sample_open 3 = Some cn" "conn_state cn = kConnected"
     "smap_find (connections sample_open) (name cn) = Some 3" "socketFd cn = 7"
     "chans sample_open (channel cn) = Some ch" "revents ch = POLLIN"
    using sample_open_ok(5) by blast
  have "smap_erase (name cn) (connections sample_open) = []"
    using c(3) by (simp add: sample_open_def tcp_world.defs split: if_splits)
  then show ?thesis
    using peer_close_cleans_up [OF sample_open_ok(1,2) c(1) sample_open_ok(3) _ c(3) sample_open_ok(4) c(5,6)
        sample_open_ok(6) quiet_callbacks_ok, of quiet_callbacks None None 100] c(2,4)
    by (auto simp: quiet_callbacks_def)
qed

end
