(* ===== verification/Http_Request.thy ===== *)
theory Http_Request
  imports Buffer
begin

text \<open>
  The request object of \<open>include/tractor/HttpRequest.h\<close>. A pair of pointers that delimits a
  range of characters is the string of that range. The constructor leaves \<open>receiveTime_\<close>
  uninitialised: the field is \<open>None\<close> until it is set.
\<close>

section \<open>Data\<close>

datatype Method = kInvalid | kGet | kPost | kHead | kPut | kDelete | kTrace | kOptions

datatype Version = kUnknown | kHttp10 | kHttp11

record HttpRequest =
  version :: Version
  req_method :: Method
  path :: string
  query :: string
  receiveTime :: "int option"
  headers :: "(string \<times> string) list"

section \<open>Operations\<close>

definition HttpRequest_new :: HttpRequest where
  "HttpRequest_new = \<lparr>version = kUnknown, req_method = kInvalid, path = [], query = [],
     receiveTime = None, headers = []\<rparr>"

definition setVersion :: "Version \<Rightarrow> HttpRequest \<Rightarrow> HttpRequest" where
  "setVersion v r = r\<lparr>version := v\<rparr>"

definition method_of_name :: "string \<Rightarrow> Method" where
  "method_of_name m =
     (if m = ''GET'' then kGet
      else if m = ''POST'' then kPost
      else if m = ''HEAD'' then kHead
      else if m = ''PUT'' then kPut
      else if m = ''DELETE'' then kDelete
      else if m = ''TRACE'' then kTrace
      else if m = ''OPTIONS'' then kOptions
      else kInvalid)"

definition setMethod :: "string \<Rightarrow> HttpRequest \<Rightarrow> (bool \<times> HttpRequest) res" where
  "setMethod m r =
     asserting (req_method r = kInvalid)
       (let r' = r\<lparr>req_method := method_of_name m\<rparr> in Inr (req_method r' \<noteq> kInvalid, r'))"

fun getMethodString :: "Method \<Rightarrow> string" where
  "getMethodString kGet = ''GET''"
| "getMethodString kPost = ''POST''"
| "getMethodString kHead = ''HEAD''"
| "getMethodString kPut = ''PUT''"
| "getMethodString kDelete = ''DELETE''"
| "getMethodString _ = ''UNKNOWN''"

definition setPath :: "string \<Rightarrow> HttpRequest \<Rightarrow> HttpRequest" where
  "setPath s r = r\<lparr>path := s\<rparr>"

definition setQuery :: "string \<Rightarrow> HttpRequest \<Rightarrow> HttpRequest" where
  "setQuery s r = r\<lparr>query := s\<rparr>"

definition setReceiveTime :: "int \<Rightarrow> HttpRequest \<Rightarrow> HttpRequest" where
  "setReceiveTime t r = r\<lparr>receiveTime := Some t\<rparr>"

definition getReceiveTime :: "HttpRequest \<Rightarrow> int res" where
  "getReceiveTime r = (case receiveTime r of None \<Rightarrow> Inl Uninitialised | Some t \<Rightarrow> Inr t)"

text \<open>\<open>isspace\<close> in the C locale.\<close>

definition isspace :: "char \<Rightarrow> bool" where
  "isspace c \<longleftrightarrow> c = CHR '' '' \<or> (9 \<le> (of_char c :: nat) \<and> (of_char c :: nat) \<le> 13)"

fun skip_space :: "string \<Rightarrow> string" where
  "skip_space [] = []"
| "skip_space (c # s) = (if isspace c then skip_space s else c # s)"

fun trim_end :: "string \<Rightarrow> string" where
  "trim_end s = (if s \<noteq> [] \<and> isspace (last s) then trim_end (butlast s) else s)"

declare trim_end.simps [simp del]

text \<open>\<open>addHeader\<close> is given the characters before and after the colon.\<close>

definition addHeader :: "string \<Rightarrow> string \<Rightarrow> HttpRequest \<Rightarrow> HttpRequest" where
  "addHeader field rest r =
     (let value = trim_end (skip_space rest) in r\<lparr>headers := smap_put field value (headers r)\<rparr>)"

definition getHeader :: "string \<Rightarrow> HttpRequest \<Rightarrow> string" where
  "getHeader field r = (case smap_find (headers r) field of None \<Rightarrow> [] | Some v \<Rightarrow> v)"

definition HttpRequest_swap :: "HttpRequest \<Rightarrow> HttpRequest \<Rightarrow> HttpRequest \<times> HttpRequest" where
  "HttpRequest_swap r that =
     (r\<lparr>req_method := req_method that, version := version that, path := path that,
        query := query that, receiveTime := receiveTime that, headers := headers that\<rparr>,
      that\<lparr>req_method := req_method r, version := version r, path := path r,
        query := query r, headers := headers r\<rparr>)"

section \<open>Lemmas\<close>

lemma skip_space_id: "s = [] \<or> \<not> isspace (hd s) \<Longrightarrow> skip_space s = s"
  by (cases s) auto

lemma skip_space_hd: "skip_space s \<noteq> [] \<Longrightarrow> \<not> isspace (hd (skip_space s))"
  by (induction s) auto

lemma trim_end_id: "s = [] \<or> \<not> isspace (last s) \<Longrightarrow> trim_end s = s"
  by (subst trim_end.simps) auto

lemma trim_end_last: "trim_end s \<noteq> [] \<Longrightarrow> \<not> isspace (last (trim_end s))"
proof (induction s rule: trim_end.induct)
  case (1 s)
  then show ?case by (cases "s \<noteq> [] \<and> isspace (last s)") (auto simp: trim_end.simps [of s])
qed

lemma trim_end_prefix: "prefix (trim_end s) s"
proof (induction s rule: trim_end.induct)
  case (1 s)
  show ?case
  proof (cases "s \<noteq> [] \<and> isspace (last s)")
    case True
    with 1 have "prefix (trim_end (butlast s)) (butlast s)" by simp
    also have "prefix (butlast s) s" by (simp add: prefixeq_butlast)
    finally show ?thesis using True by (simp add: trim_end.simps [of s])
  next
    case False
    then show ?thesis by (auto simp: trim_end.simps [of s])
  qed
qed

definition trimmed :: "string \<Rightarrow> bool" where
  "trimmed s \<longleftrightarrow> s = [] \<or> \<not> isspace (hd s) \<and> \<not> isspace (last s)"

lemma trimmed_result: "trimmed (trim_end (skip_space s))"
proof (cases "trim_end (skip_space s) = []")
  case False
  moreover obtain zs where zs: "skip_space s = trim_end (skip_space s) @ zs"
    using trim_end_prefix by (rule prefixE)
  ultimately have "hd (skip_space s) = hd (trim_end (skip_space s))" and "skip_space s \<noteq> []"
    by (metis hd_append2, metis Nil_is_append_conv)
  with False skip_space_hd [of s] trim_end_last [of "skip_space s"] show ?thesis
    by (auto simp: trimmed_def)
qed (simp add: trimmed_def)

lemma addHeader_trimmed:
  "trimmed v \<Longrightarrow> addHeader k (CHR '' '' # v) r = r\<lparr>headers := smap_put k v (headers r)\<rparr>"
  by (auto simp: addHeader_def trimmed_def skip_space_id trim_end_id isspace_def)

definition headers_ok :: "HttpRequest \<Rightarrow> bool" where
  "headers_ok r \<longleftrightarrow> smap_ok (headers r)"

lemma getHeader_addHeader:
  "headers_ok r \<Longrightarrow> getHeader f (addHeader g v r) =
     (if f = g then trim_end (skip_space v) else getHeader f r)"
  by (simp add: getHeader_def addHeader_def headers_ok_def)

lemma headers_ok_addHeader: "headers_ok r \<Longrightarrow> headers_ok (addHeader g v r)"
  by (simp add: headers_ok_def addHeader_def)

lemma method_of_name_valid:
  "method_of_name m = kInvalid \<longleftrightarrow>
     m \<notin> {''GET'', ''POST'', ''HEAD'', ''PUT'', ''DELETE'', ''TRACE'', ''OPTIONS''}"
  by (auto simp: method_of_name_def)

text \<open>
  \<open>addHeader\<close> stores the value without surrounding white space and \<open>getHeader\<close> finds
  it under its field; every other field keeps its value, and the map stays ordered.
\<close>

theorem addHeader_spec:
  assumes "headers_ok r"
  shows "headers_ok (addHeader g v r) \<and>
     getHeader f (addHeader g v r) = (if f = g then trim_end (skip_space v) else getHeader f r) \<and>
     trimmed (getHeader g (addHeader g v r))"
  using assms by (simp add: getHeader_addHeader headers_ok_addHeader trimmed_result)

theorem addHeader_spec_witness:
  "getHeader ''Host'' (addHeader ''Host'' ''  localhost '' HttpRequest_new) =
     trim_end (skip_space ''  localhost '')"
  using addHeader_spec [of HttpRequest_new "''Host''" "''  localhost ''" "''Host''"]
  by (simp add: headers_ok_def HttpRequest_new_def)

text \<open>
  \<open>getMethodString\<close> gives back the name that \<open>setMethod\<close> accepted for \<open>GET\<close>, \<open>POST\<close>,
  \<open>HEAD\<close>, \<open>PUT\<close> and \<open>DELETE\<close>, but \<open>UNKNOWN\<close> for the accepted methods \<open>TRACE\<close> and \<open>OPTIONS\<close>.
\<close>

lemma getMethodString_spec:
  assumes "method_of_name m \<noteq> kInvalid"
  shows "getMethodString (method_of_name m) =
     (if m = ''TRACE'' \<or> m = ''OPTIONS'' then ''UNKNOWN'' else m)"
  using assms by (auto simp: method_of_name_def)

end
