(* ===== verification/Http_Parser.thy ===== *)
theory Http_Parser
  imports Http_Request
begin

text \<open>
  The incremental request parser of \<open>include/tractor/HttpParser.h\<close> and \<open>src/HttpParser.cpp\<close>.
  \<open>parse_iter\<close> is one turn of the loop of \<open>parseRuquest\<close>, \<open>parse_loop\<close> the loop: its value is
  \<open>None\<close> where the loop never ends. \<open>parse_text\<close> is the reference parser on the readable bytes;
  the parser on the buffer refines it (\<open>parse_refines\<close>), and the properties are proved of
  \<open>parse_text\<close> first.
\<close>

section \<open>State and operations\<close>

datatype HttpRequestParseState = kExpectRequestLine | kExpectHeaders | kExpectBody | kGotAll

record HttpParser =
  state :: HttpRequestParseState
  httpRequest :: HttpRequest

definition HttpParser_new :: HttpParser where
  "HttpParser_new = \<lparr>state = kExpectRequestLine, httpRequest = HttpRequest_new\<rparr>"

definition gotAll :: "HttpParser \<Rightarrow> bool" where
  "gotAll p \<longleftrightarrow> state p = kGotAll"

definition HttpParser_reset :: "HttpParser \<Rightarrow> HttpParser" where
  "HttpParser_reset p =
     p\<lparr>state := kExpectRequestLine,
       httpRequest := fst (HttpRequest_swap (httpRequest p) HttpRequest_new)\<rparr>"

text \<open>\<open>std::find(start, end, c)\<close> splits a range at the first \<open>c\<close>.\<close>

abbreviation before :: "char \<Rightarrow> string \<Rightarrow> string" where
  "before c s \<equiv> takeWhile (\<lambda>x. x \<noteq> c) s"

abbreviation from_char :: "char \<Rightarrow> string \<Rightarrow> string" where
  "from_char c s \<equiv> dropWhile (\<lambda>x. x \<noteq> c) s"

definition processRequestLine :: "string \<Rightarrow> HttpRequest \<Rightarrow> (bool \<times> HttpRequest) res" where
  "processRequestLine line r =
     (if from_char (CHR '' '') line = [] then Inr (False, r)
      else andthen (setMethod (before (CHR '' '') line) r) (\<lambda>(valid, r1).
        if \<not> valid then Inr (False, r1)
        else
          (let start = tl (from_char (CHR '' '') line)
           in if from_char (CHR '' '') start = [] then Inr (False, r1)
              else
                (let uri = before (CHR '' '') start;
                     question = from_char (CHR ''?'') uri;
                     r2 = (if question \<noteq> []
                           then setQuery question (setPath (before (CHR ''?'') uri) r1)
                           else setPath uri r1);
                     ver = tl (from_char (CHR '' '') start)
                 in if length ver = 8 \<and> take 7 ver = ''HTTP/1.''
                    then (if last ver = CHR ''1'' then Inr (True, setVersion kHttp11 r2)
                          else if last ver = CHR ''0'' then Inr (True, setVersion kHttp10 r2)
                          else Inr (False, r2))
                    else Inr (False, r2)))))"

text \<open>The result of a turn: \<open>ok\<close>, \<open>hasMore\<close>, the parser and the buffer.\<close>

definition parse_iter ::
    "int \<Rightarrow> bool \<Rightarrow> HttpParser \<Rightarrow> Buffer \<Rightarrow> (bool \<times> bool \<times> HttpParser \<times> Buffer) res" where
  "parse_iter t ok p b =
     (case state p of
        kExpectRequestLine \<Rightarrow>
          andthen (findCRLF b) (\<lambda>crlf.
            case crlf of
              None \<Rightarrow> Inr (ok, False, p, b)
            | Some e \<Rightarrow>
                andthen (load_bytes (buffer b) (peek b) (e - peek b)) (\<lambda>line.
                andthen (processRequestLine line (httpRequest p)) (\<lambda>(ok', r).
                  if ok'
                  then andthen (retrieveUntil (e + 2) b) (\<lambda>b'.
                    Inr (True, True,
                         p\<lparr>state := kExpectHeaders, httpRequest := setReceiveTime t r\<rparr>, b'))
                  else Inr (False, False, p\<lparr>httpRequest := r\<rparr>, b))))
      | kExpectHeaders \<Rightarrow>
          andthen (findCRLF b) (\<lambda>crlf.
            case crlf of
              None \<Rightarrow> Inr (ok, False, p, b)
            | Some e \<Rightarrow>
                andthen (load_bytes (buffer b) (peek b) (e - peek b)) (\<lambda>line.
                  (let colon = from_char (CHR '':'') line
                   in andthen (retrieveUntil (e + 2) b) (\<lambda>b'.
                     if colon \<noteq> []
                     then Inr (ok, True,
                       p\<lparr>httpRequest := addHeader (before (CHR '':'') line) (tl colon) (httpRequest p)\<rparr>,
                       b')
                     else Inr (ok, False, p\<lparr>state := kGotAll\<rparr>, b')))))
      | kExpectBody \<Rightarrow> Inr (ok, True, p, b)
      | kGotAll \<Rightarrow> Inr (ok, True, p, b))"

partial_function (option) parse_loop ::
    "int \<Rightarrow> bool \<Rightarrow> HttpParser \<Rightarrow> Buffer \<Rightarrow> (bool \<times> HttpParser \<times> Buffer) res option" where
  "parse_loop t ok p b =
     (case parse_iter t ok p b of
        Inl f \<Rightarrow> Some (Inl f)
      | Inr (ok', hasMore, p', b') \<Rightarrow>
          (if hasMore then parse_loop t ok' p' b' else Some (Inr (ok', p', b'))))"

definition parseRuquest ::
    "Buffer \<Rightarrow> int \<Rightarrow> HttpParser \<Rightarrow> (bool \<times> HttpParser \<times> Buffer) res option" where
  "parseRuquest b t p = parse_loop t True p b"

declare parse_loop.simps [code]

section \<open>The reference parser\<close>

text \<open>
  On the readable bytes: the lines are taken off one by one. The states in which the loop makes
  no progress are left to \<open>parsing\<close>, the domain of the refinement.
\<close>

definition parsing :: "HttpParser \<Rightarrow> bool" where
  "parsing p \<longleftrightarrow> state p = kExpectRequestLine \<or> state p = kExpectHeaders"

lemma memmem_CRLF_bound: "memmem s kCRLF = Some k \<Longrightarrow> k + 2 \<le> length s"
  using memmem_SomeD [of s kCRLF k] by (simp add: kCRLF_def)

function parse_text :: "int \<Rightarrow> HttpParser \<Rightarrow> string \<Rightarrow> (bool \<times> HttpParser \<times> string) res" where
  "parse_text t p s =
     (case memmem s kCRLF of
        None \<Rightarrow> Inr (True, p, s)
      | Some k \<Rightarrow>
          (if state p = kExpectRequestLine
           then (case processRequestLine (take k s) (httpRequest p) of
                   Inl f \<Rightarrow> Inl f
                 | Inr (valid, r) \<Rightarrow>
                     (if valid
                      then parse_text t
                        (p\<lparr>state := kExpectHeaders, httpRequest := setReceiveTime t r\<rparr>)
                        (drop (k + 2) s)
                      else Inr (False, p\<lparr>httpRequest := r\<rparr>, s)))
           else if from_char (CHR '':'') (take k s) \<noteq> []
           then parse_text t
             (p\<lparr>httpRequest := addHeader (before (CHR '':'') (take k s))
                  (tl (from_char (CHR '':'') (take k s))) (httpRequest p)\<rparr>)
             (drop (k + 2) s)
           else Inr (True, p\<lparr>state := kGotAll\<rparr>, drop (k + 2) s)))"
  by pat_completeness auto

termination parse_text
  by (relation "measure (\<lambda>(t, p, s). length s)") (auto dest!: memmem_CRLF_bound)

declare parse_text.simps [simp del]

section \<open>Refinement\<close>

lemma load_line:
  assumes "buf_ok b" and "k \<le> length (contents b)"
  shows "load_bytes (buffer b) (peek b) (readerIndex b + k - peek b) = Inr (take k (contents b))"
proof -
  have "readerIndex b + k \<le> length (buffer b)"
    using assms buf_ok_indices [OF assms(1)] by simp
  then show ?thesis using assms
    by (simp add: load_bytes_def peek_def contents_def min_absorb1)
qed

lemma parse_iter_no_line:
  assumes "buf_ok b" and "parsing p" and "memmem (contents b) kCRLF = None"
  shows "parse_iter t ok p b = Inr (ok, False, p, b)"
  using assms by (auto simp: parse_iter_def findCRLF_eq parsing_def)

lemma parse_iter_request_line:
  assumes "buf_ok b" and "state p = kExpectRequestLine" and "memmem (contents b) kCRLF = Some k"
  shows "\<exists>b'. buf_ok b' \<and> contents b' = drop (k + 2) (contents b) \<and> writerIndex b' = writerIndex b \<and>
      parse_iter t ok p b =
        andthen (processRequestLine (take k (contents b)) (httpRequest p)) (\<lambda>(valid, r).
          if valid
          then Inr (True, True, p\<lparr>state := kExpectHeaders, httpRequest := setReceiveTime t r\<rparr>, b')
          else Inr (False, False, p\<lparr>httpRequest := r\<rparr>, b))"
proof -
  have k: "k + 2 \<le> length (contents b)" using assms(3) by (rule memmem_CRLF_bound)
  then have line: "load_bytes (buffer b) (peek b) (readerIndex b + k - peek b) = Inr (take k (contents b))"
    by (intro load_line assms(1)) simp
  from retrieveUntil_ok [OF assms(1) k] obtain b' where
    b': "retrieveUntil (readerIndex b + k + 2) b = Inr b'" "buf_ok b'"
      "contents b' = drop (k + 2) (contents b)" "writerIndex b' = writerIndex b"
    unfolding add.assoc by blast
  have "parse_iter t ok p b =
        andthen (processRequestLine (take k (contents b)) (httpRequest p)) (\<lambda>(valid, r).
          if valid
          then Inr (True, True, p\<lparr>state := kExpectHeaders, httpRequest := setReceiveTime t r\<rparr>, b')
          else Inr (False, False, p\<lparr>httpRequest := r\<rparr>, b))"
    using assms line b'(1) by (simp add: parse_iter_def findCRLF_eq cong: if_cong)
  with b'(2-4) show ?thesis by blast
qed

lemma parse_iter_header_line:
  assumes "buf_ok b" and "state p = kExpectHeaders" and "memmem (contents b) kCRLF = Some k"
  defines "line \<equiv> take k (contents b)"
  shows "\<exists>b'. buf_ok b' \<and> contents b' = drop (k + 2) (contents b) \<and> writerIndex b' = writerIndex b \<and>
      parse_iter t ok p b =
        (if from_char (CHR '':'') line \<noteq> []
         then Inr (ok, True, p\<lparr>httpRequest := addHeader (before (CHR '':'') line)
                (tl (from_char (CHR '':'') line)) (httpRequest p)\<rparr>, b')
         else Inr (ok, False, p\<lparr>state := kGotAll\<rparr>, b'))"
proof -
  have k: "k + 2 \<le> length (contents b)" using assms(3) by (rule memmem_CRLF_bound)
  then have ld: "load_bytes (buffer b) (peek b) (readerIndex b + k - peek b) = Inr line"
    unfolding line_def by (intro load_line assms(1)) simp
  from retrieveUntil_ok [OF assms(1) k] obtain b' where
    b': "retrieveUntil (readerIndex b + (k + 2)) b = Inr b'" "buf_ok b'"
      "contents b' = drop (k + 2) (contents b)" "writerIndex b' = writerIndex b" by blast
  have "parse_iter t ok p b =
        (if from_char (CHR '':'') line \<noteq> []
         then Inr (ok, True, p\<lparr>httpRequest := addHeader (before (CHR '':'') line)
                (tl (from_char (CHR '':'') line)) (httpRequest p)\<rparr>, b')
         else Inr (ok, False, p\<lparr>state := kGotAll\<rparr>, b'))"
    using assms(1-3) ld b'(1) by (simp add: parse_iter_def findCRLF_eq add.assoc Let_def)
  with b'(2-4) show ?thesis by blast
qed

definition refines_text ::
    "nat \<Rightarrow> (bool \<times> HttpParser \<times> string) res \<Rightarrow> (bool \<times> HttpParser \<times> Buffer) res option \<Rightarrow> bool" where
  "refines_text w spec impl \<longleftrightarrow>
     (case spec of
        Inl f \<Rightarrow> impl = Some (Inl f)
      | Inr (ok, p, s) \<Rightarrow>
          (\<exists>b. impl = Some (Inr (ok, p, b)) \<and> buf_ok b \<and> contents b = s \<and> writerIndex b = w))"

lemma parse_loop_refines:
  "buf_ok b \<Longrightarrow> parsing p \<Longrightarrow> contents b = s \<Longrightarrow>
     refines_text (writerIndex b) (parse_text t p s) (parse_loop t True p b)"
proof (induction t p s arbitrary: b rule: parse_text.induct)
  case (1 t p s)
  show ?case
  proof (cases "memmem s kCRLF")
    case None
    with "1.prems" show ?thesis
      by (simp add: refines_text_def parse_text.simps [of t p s] parse_loop.simps [of t True p b]
          parse_iter_no_line)
  next
    case (Some k)
    with "1.prems"(3) have m: "memmem (contents b) kCRLF = Some k" by simp
    show ?thesis
    proof (cases "state p = kExpectRequestLine")
      case True
      let ?pr = "processRequestLine (take k s) (httpRequest p)"
      from parse_iter_request_line [OF "1.prems"(1) True m, of t True] "1.prems"(3) obtain b' where
        b': "buf_ok b'" "contents b' = drop (k + 2) s" "writerIndex b' = writerIndex b" and
        it: "parse_iter t True p b = andthen ?pr (\<lambda>(valid, r).
          if valid
          then Inr (True, True, p\<lparr>state := kExpectHeaders, httpRequest := setReceiveTime t r\<rparr>, b')
          else Inr (False, False, p\<lparr>httpRequest := r\<rparr>, b))" by blast
      show ?thesis
      proof (cases ?pr)
        case (Inl f)
        with it Some True show ?thesis
          by (simp add: refines_text_def parse_text.simps [of t p s] parse_loop.simps [of t True p b])
      next
        case (Inr vr)
        obtain valid r where vr: "vr = (valid, r)" by (cases vr)
        show ?thesis
        proof (cases valid)
          case False
          with it Some True Inr vr "1.prems" show ?thesis
            by (simp add: refines_text_def parse_text.simps [of t p s] parse_loop.simps [of t True p b])
        next
          case valid: True
          have "refines_text (writerIndex b')
              (parse_text t (p\<lparr>state := kExpectHeaders, httpRequest := setReceiveTime t r\<rparr>) (drop (k + 2) s))
              (parse_loop t True (p\<lparr>state := kExpectHeaders, httpRequest := setReceiveTime t r\<rparr>) b')"
            using Inr vr valid by (intro "1.IH"(1) [OF Some True] b') (auto simp: parsing_def)
          with it Some True Inr vr valid b'(3) show ?thesis
            by (simp add: parse_text.simps [of t p s] parse_loop.simps [of t True p b])
        qed
      qed
    next
      case False
      with "1.prems"(2) have st: "state p = kExpectHeaders" by (simp add: parsing_def)
      let ?line = "take k s"
      let ?p = "p\<lparr>httpRequest := addHeader (before (CHR '':'') ?line)
                (tl (from_char (CHR '':'') ?line)) (httpRequest p)\<rparr>"
      from parse_iter_header_line [OF "1.prems"(1) st m, of t True] "1.prems"(3) obtain b' where
        b': "buf_ok b'" "contents b' = drop (k + 2) s" "writerIndex b' = writerIndex b" and
        it: "parse_iter t True p b =
        (if from_char (CHR '':'') ?line \<noteq> [] then Inr (True, True, ?p, b')
         else Inr (True, False, p\<lparr>state := kGotAll\<rparr>, b'))" by blast
      show ?thesis
      proof (cases "from_char (CHR '':'') ?line = []")
        case True
        with it Some False b' show ?thesis
          by (simp add: refines_text_def parse_text.simps [of t p s] parse_loop.simps [of t True p b])
      next
        case colon: False
        have "refines_text (writerIndex b') (parse_text t ?p (drop (k + 2) s)) (parse_loop t True ?p b')"
          using colon st by (intro "1.IH"(2) [OF Some False] b') (auto simp: parsing_def)
        with it Some False colon b'(3) show ?thesis
          by (simp add: parse_text.simps [of t p s] parse_loop.simps [of t True p b])
      qed
    qed
  qed
qed

section \<open>Segmentation\<close>

text \<open>
  TCP delivers the request in arbitrary pieces. What has been parsed when the bytes run out is
  resumed by the next call.
\<close>

lemma parse_text_resume:
  "parse_text t p xs = Inr (True, p', s') \<Longrightarrow> parsing p \<Longrightarrow> parsing p' \<Longrightarrow>
     parse_text t p (xs @ ys) = parse_text t p' (s' @ ys)"
proof (induction t p xs rule: parse_text.induct)
  case (1 t p xs)
  show ?case
  proof (cases "memmem xs kCRLF")
    case None
    with "1.prems"(1) show ?thesis by (simp add: parse_text.simps [of t p xs])
  next
    case (Some k)
    then have k: "k + 2 \<le> length xs" by (rule memmem_CRLF_bound)
    have m: "memmem (xs @ ys) kCRLF = Some k" using Some by (rule memmem_append)
    show ?thesis
    proof (cases "state p = kExpectRequestLine")
      case True
      with "1.prems"(1) Some obtain r where
        r: "processRequestLine (take k xs) (httpRequest p) = Inr (True, r)" and
        rec: "parse_text t (p\<lparr>state := kExpectHeaders, httpRequest := setReceiveTime t r\<rparr>)
          (drop (k + 2) xs) = Inr (True, p', s')"
        by (auto simp: parse_text.simps [of t p xs] split: sum.splits if_splits)
      have "parse_text t (p\<lparr>state := kExpectHeaders, httpRequest := setReceiveTime t r\<rparr>)
          (drop (k + 2) xs @ ys) = parse_text t p' (s' @ ys)"
        using r rec "1.prems"(3) by (intro "1.IH"(1) [OF Some True]) (auto simp: parsing_def)
      with m True r k show ?thesis
        by (simp add: parse_text.simps [of t p "xs @ ys"])
    next
      case False
      let ?line = "take k xs"
      from False "1.prems"(1,3) Some have colon: "from_char (CHR '':'') ?line \<noteq> []"
        by (auto simp: parse_text.simps [of t p xs] parsing_def split: if_splits)
      let ?p = "p\<lparr>httpRequest := addHeader (before (CHR '':'') ?line)
                (tl (from_char (CHR '':'') ?line)) (httpRequest p)\<rparr>"
      have "parse_text t ?p (drop (k + 2) xs @ ys) = parse_text t p' (s' @ ys)"
        using colon False Some "1.prems" by (intro "1.IH"(2) [OF Some False])
          (auto simp: parse_text.simps [of t p xs] parsing_def)
      with m False colon k show ?thesis
        by (simp add: parse_text.simps [of t p "xs @ ys"])
    qed
  qed
qed

lemma parse_text_suffix:
  "parse_text t p s = Inr (ok, p', s') \<Longrightarrow> suffix s' s"
proof (induction t p s rule: parse_text.induct)
  case (1 t p s)
  show ?case
  proof (cases "memmem s kCRLF")
    case None
    with "1.prems" show ?thesis by (simp add: parse_text.simps [of t p s])
  next
    case (Some k)
    have rest: "suffix u (drop (k + 2) s) \<Longrightarrow> suffix u s" for u
      using suffix_drop suffix_order.trans by blast
    show ?thesis
    proof (cases "state p = kExpectRequestLine")
      case True
      with Some "1.prems" "1.IH"(1) [OF Some True] rest show ?thesis
        by (auto simp: parse_text.simps [of t p s] split: sum.splits if_splits)
    next
      case False
      with Some "1.prems" "1.IH"(2) [OF Some False] rest show ?thesis
        by (auto simp: parse_text.simps [of t p s] suffix_drop split: if_splits)
    qed
  qed
qed

section \<open>Round trip\<close>

text \<open>The text of a request as a client sends it.\<close>

fun method_name :: "Method \<Rightarrow> string" where
  "method_name kTrace = ''TRACE''"
| "method_name kOptions = ''OPTIONS''"
| "method_name m = getMethodString m"

fun version_name :: "Version \<Rightarrow> string" where
  "version_name kHttp10 = ''HTTP/1.0''"
| "version_name _ = ''HTTP/1.1''"

definition header_text :: "string \<times> string \<Rightarrow> string" where
  "header_text h = fst h @ '': '' @ snd h @ kCRLF"

definition request_line :: "Method \<Rightarrow> string \<Rightarrow> string \<Rightarrow> Version \<Rightarrow> string" where
  "request_line m pth q v = method_name m @ '' '' @ pth @ q @ '' '' @ version_name v"

definition request_text ::
    "Method \<Rightarrow> string \<Rightarrow> string \<Rightarrow> Version \<Rightarrow> (string \<times> string) list \<Rightarrow> string" where
  "request_text m pth q v hs =
     request_line m pth q v @ kCRLF @ concat (map header_text hs) @ kCRLF"

text \<open>The characters that delimit the parts of a request do not occur inside them.\<close>

definition uri_ok :: "string \<Rightarrow> string \<Rightarrow> bool" where
  "uri_ok pth q \<longleftrightarrow> CHR '' '' \<notin> set (pth @ q) \<and> CHR 0x0D \<notin> set (pth @ q) \<and> CHR ''?'' \<notin> set pth \<and>
     (q = [] \<or> hd q = CHR ''?'')"

definition header_ok :: "string \<times> string \<Rightarrow> bool" where
  "header_ok h \<longleftrightarrow> CHR '':'' \<notin> set (fst h) \<and> CHR 0x0D \<notin> set (fst h @ snd h) \<and> trimmed (snd h)"

lemma memmem_CRLF_line:
  "CHR 0x0D \<notin> set l \<Longrightarrow> memmem (l @ kCRLF @ rest) kCRLF = Some (length l)"
  by (induction l) (auto simp: kCRLF_def)

lemma take_line: "take (length l) (l @ kCRLF @ rest) = l"
  and drop_line: "drop (length l + 2) (l @ kCRLF @ rest) = rest"
  by (simp_all add: kCRLF_def)

lemma before_append: "c \<notin> set xs \<Longrightarrow> before c (xs @ c # ys) = xs"
  and from_char_append: "c \<notin> set xs \<Longrightarrow> from_char c (xs @ c # ys) = c # ys"
  by (induction xs) auto

lemma before_all: "c \<notin> set xs \<Longrightarrow> before c xs = xs"
  and from_char_all: "c \<notin> set xs \<Longrightarrow> from_char c xs = []"
  by (induction xs) auto

lemma method_name_props:
  assumes "m \<noteq> kInvalid"
  shows "method_of_name (method_name m) = m" and "CHR '' '' \<notin> set (method_name m)"
    and "CHR 0x0D \<notin> set (method_name m)"
  using assms by (cases m; simp add: method_of_name_def)+

lemma processRequestLine_request_line:
  assumes "m \<noteq> kInvalid" and "v \<noteq> kUnknown" and "uri_ok pth q" and "req_method r = kInvalid"
  shows "processRequestLine (request_line m pth q v) r =
     Inr (True, r\<lparr>req_method := m, path := pth, query := (if q = [] then query r else q),
       version := v\<rparr>)"
proof -
  let ?rest = "pth @ q @ '' '' @ version_name v"
  have line: "request_line m pth q v = method_name m @ CHR '' '' # ?rest"
    by (simp add: request_line_def)
  have sp: "CHR '' '' \<notin> set (pth @ q)" using assms(3) by (simp add: uri_ok_def)
  have rest: "?rest = (pth @ q) @ CHR '' '' # version_name v" by simp
  have meth: "before (CHR '' '') (request_line m pth q v) = method_name m"
    "from_char (CHR '' '') (request_line m pth q v) = CHR '' '' # ?rest"
    using method_name_props(2) [OF assms(1)] unfolding line
    by (rule before_append, rule from_char_append)
  have uri: "before (CHR '' '') ?rest = pth @ q" "from_char (CHR '' '') ?rest = CHR '' '' # version_name v"
    using sp unfolding rest by (rule before_append, rule from_char_append)
  have q: "from_char (CHR ''?'') (pth @ q) = q" "before (CHR ''?'') (pth @ q) = pth"
  proof -
    show "from_char (CHR ''?'') (pth @ q) = q"
      using assms(3) by (cases q) (auto simp: uri_ok_def from_char_append from_char_all)
    show "before (CHR ''?'') (pth @ q) = pth"
      using assms(3) by (cases q) (auto simp: uri_ok_def before_append before_all)
  qed
  have ver: "length (version_name v) = 8 \<and> take 7 (version_name v) = ''HTTP/1.''"
    "last (version_name v) = (if v = kHttp10 then CHR ''0'' else CHR ''1'')"
    by (cases v; simp)+
  have vv: "v = kHttp10 \<or> v = kHttp11" using assms(2) by (cases v) auto
  show ?thesis
    using assms(1,4) meth uri q ver vv
    by (auto simp: processRequestLine_def setMethod_def method_name_props(1) Let_def setQuery_def
        setPath_def setVersion_def)
qed

lemma header_line_split:
  assumes "header_ok h"
  shows "header_text h = (fst h @ '': '' @ snd h) @ kCRLF"
    and "CHR 0x0D \<notin> set (fst h @ '': '' @ snd h)"
    and "before (CHR '':'') (fst h @ '': '' @ snd h) = fst h"
    and "from_char (CHR '':'') (fst h @ '': '' @ snd h) = '': '' @ snd h"
proof -
  have c: "CHR '':'' \<notin> set (fst h)" using assms by (simp add: header_ok_def)
  show "before (CHR '':'') (fst h @ '': '' @ snd h) = fst h"
    using before_append [OF c, of "CHR '' '' # snd h"] by simp
  show "from_char (CHR '':'') (fst h @ '': '' @ snd h) = '': '' @ snd h"
    using from_char_append [OF c, of "CHR '' '' # snd h"] by simp
qed (use assms in \<open>auto simp: header_text_def header_ok_def\<close>)

lemma parse_text_header:
  assumes "header_ok h" and "state p = kExpectHeaders"
  shows "parse_text t p (header_text h @ rest) =
     parse_text t (p\<lparr>httpRequest := (httpRequest p)\<lparr>headers :=
        smap_put (fst h) (snd h) (headers (httpRequest p))\<rparr>\<rparr>) rest"
proof -
  let ?l = "fst h @ '': '' @ snd h"
  note hs = header_line_split [OF assms(1)]
  have m: "memmem (header_text h @ rest) kCRLF = Some (length ?l)"
    using memmem_CRLF_line [OF hs(2), of rest] unfolding hs(1) by (simp only: append_assoc)
  have tk: "take (length ?l) (header_text h @ rest) = ?l"
    and dr: "drop (length ?l + 2) (header_text h @ rest) = rest"
    unfolding hs(1) append_assoc [of _ kCRLF] by (rule take_line, rule drop_line)
  have tr: "trimmed (snd h)" using assms(1) by (simp add: header_ok_def)
  have st: "state p \<noteq> kExpectRequestLine" using assms(2) by simp
  show ?thesis
    unfolding parse_text.simps [of t p "header_text h @ rest"] m option.case tk dr hs(3,4)
    using st tr by (simp add: addHeader_trimmed)
qed

lemma parse_text_headers:
  "list_all header_ok hs \<Longrightarrow> state p = kExpectHeaders \<Longrightarrow>
     parse_text t p (concat (map header_text hs) @ kCRLF @ rest) =
     Inr (True, p\<lparr>state := kGotAll, httpRequest := (httpRequest p)\<lparr>headers :=
        fold (\<lambda>h. smap_put (fst h) (snd h)) hs (headers (httpRequest p))\<rparr>\<rparr>, rest)"
proof (induction hs arbitrary: p)
  case Nil
  then show ?case by (subst parse_text.simps) (simp add: kCRLF_def)
next
  case (Cons h hs)
  then show ?case by (simp add: parse_text_header)
qed

lemma CR_notin_request_line:
  "m \<noteq> kInvalid \<Longrightarrow> uri_ok pth q \<Longrightarrow> CHR 0x0D \<notin> set (request_line m pth q v)"
  using method_name_props(3) [of m] by (cases v) (auto simp: request_line_def uri_ok_def)

lemma parse_text_request:
  assumes "m \<noteq> kInvalid" and "v \<noteq> kUnknown" and "uri_ok pth q" and "list_all header_ok hs"
  shows "parse_text t HttpParser_new (request_text m pth q v hs @ rest) =
     Inr (True, \<lparr>state = kGotAll, httpRequest = \<lparr>version = v, req_method = m, path = pth,
        query = q, receiveTime = Some t,
        headers = fold (\<lambda>h. smap_put (fst h) (snd h)) hs []\<rparr>\<rparr>, rest)"
proof -
  let ?l = "request_line m pth q v"
  let ?rest = "concat (map header_text hs) @ kCRLF @ rest"
  have req: "request_text m pth q v hs @ rest = ?l @ kCRLF @ ?rest"
    by (simp add: request_text_def)
  have m: "memmem (?l @ kCRLF @ ?rest) kCRLF = Some (length ?l)"
    using assms by (intro memmem_CRLF_line CR_notin_request_line)
  have st: "state HttpParser_new = kExpectRequestLine"
    and inv: "req_method (httpRequest HttpParser_new) = kInvalid"
    by (simp_all add: HttpParser_new_def HttpRequest_new_def)
  show ?thesis
    unfolding req parse_text.simps [of t _ "?l @ kCRLF @ ?rest"] m option.case take_line drop_line
    using st processRequestLine_request_line [OF assms(1-3) inv]
    by (simp add: parse_text_headers assms(4)) (simp add: HttpParser_new_def HttpRequest_new_def setReceiveTime_def)
qed

section \<open>Rejected requests and states without progress\<close>

lemma parse_text_state:
  "parse_text t p s = Inr (True, p', s') \<Longrightarrow> parsing p \<Longrightarrow> parsing p' \<or> gotAll p'"
proof (induction t p s rule: parse_text.induct)
  case (1 t p s)
  show ?case
  proof (cases "memmem s kCRLF")
    case None
    with "1.prems" show ?thesis by (simp add: parse_text.simps [of t p s])
  next
    case (Some k)
    show ?thesis
    proof (cases "state p = kExpectRequestLine")
      case True
      with Some "1.prems" "1.IH"(1) [OF Some True] show ?thesis
        by (auto simp: parse_text.simps [of t p s] parsing_def split: sum.splits if_splits)
    next
      case False
      with Some "1.prems" "1.IH"(2) [OF Some False] show ?thesis
        by (auto simp: parse_text.simps [of t p s] parsing_def gotAll_def split: if_splits)
    qed
  qed
qed

lemma parse_text_headers_accept: "state p \<noteq> kExpectRequestLine \<Longrightarrow> parse_text t p s \<noteq> Inr (False, p', s')"
proof (induction t p s rule: parse_text.induct)
  case (1 t p s)
  show ?case
  proof (cases "memmem s kCRLF")
    case None
    then show ?thesis by (simp add: parse_text.simps [of t p s])
  next
    case (Some k)
    with "1.prems" "1.IH"(2) [OF Some "1.prems"] show ?thesis
      by (simp add: parse_text.simps [of t p s])
  qed
qed

lemma processRequestLine_method:
  assumes "processRequestLine line r = Inr (valid, r')" and "req_method r = kInvalid"
    and "req_method r' \<noteq> kInvalid"
  shows "from_char (CHR '' '') line \<noteq> []"
proof
  assume "from_char (CHR '' '') line = []"
  then have "processRequestLine line r = Inr (False, r)"
    unfolding processRequestLine_def by (rule if_P)
  with assms show False by simp
qed

lemma processRequestLine_aborts:
  "from_char (CHR '' '') line \<noteq> [] \<Longrightarrow> req_method r \<noteq> kInvalid \<Longrightarrow>
     processRequestLine line r = Inl Assert_failed"
  unfolding processRequestLine_def by (subst if_not_P) (simp_all add: setMethod_def)

lemma parse_text_rejected:
  assumes "parse_text t p s = Inr (False, p', s')" and "state p = kExpectRequestLine"
  shows "\<exists>k r. memmem s kCRLF = Some k \<and> s' = s \<and> p' = p\<lparr>httpRequest := r\<rparr> \<and>
     processRequestLine (take k s) (httpRequest p) = Inr (False, r)"
proof (cases "memmem s kCRLF")
  case None
  with assms show ?thesis by (simp add: parse_text.simps [of t p s])
next
  case (Some k)
  from assms Some obtain valid r where
    "processRequestLine (take k s) (httpRequest p) = Inr (valid, r)"
    by (auto simp: parse_text.simps [of t p s] split: sum.splits)
  with assms Some parse_text_headers_accept show ?thesis
    by (cases valid) (auto simp: parse_text.simps [of t p s])
qed

lemma parse_text_after_rejection:
  assumes "parse_text t p s = Inr (False, p', s')" and "state p = kExpectRequestLine"
    and "req_method (httpRequest p) = kInvalid" and "req_method (httpRequest p') \<noteq> kInvalid"
  shows "parse_text t' p' (s' @ ys) = Inl Assert_failed"
proof -
  from parse_text_rejected [OF assms(1,2)] obtain k r where
    k: "memmem s kCRLF = Some k" and s': "s' = s" and p': "p' = p\<lparr>httpRequest := r\<rparr>" and
    pr: "processRequestLine (take k s) (httpRequest p) = Inr (False, r)" by blast
  have "from_char (CHR '' '') (take k s) \<noteq> []"
    using pr assms(3,4) p' by (intro processRequestLine_method) auto
  then have ab: "processRequestLine (take k s) r = Inl Assert_failed"
    using assms(4) p' by (intro processRequestLine_aborts) auto
  have tk: "take k (s @ ys) = take k s" using memmem_CRLF_bound [OF k] by simp
  show ?thesis
    unfolding s' p' parse_text.simps [of t' _ "s @ ys"] memmem_append [OF k] option.case tk
    using ab assms(2) by simp
qed

lemma parse_loop_returns:
  assumes "parse_loop t ok p b = Some r"
  shows "parsing p"
proof (rule parse_loop.raw_induct [of "\<lambda>t ok p b r. parsing p", OF _ assms])
  fix f :: "int \<Rightarrow> bool \<Rightarrow> HttpParser \<Rightarrow> Buffer \<Rightarrow> (bool \<times> HttpParser \<times> Buffer) res option"
    and t ok p b r
  assume IH: "\<And>t ok p b r. f t ok p b = Some r \<Longrightarrow> parsing p"
    and body: "(case parse_iter t ok p b of Inl x \<Rightarrow> Some (Inl x)
      | Inr (ok', hasMore, p', b') \<Rightarrow> if hasMore then f t ok' p' b' else Some (Inr (ok', p', b'))) = Some r"
  show "parsing p"
  proof (rule ccontr)
    assume np: "\<not> parsing p"
    then have "parse_iter t ok p b = Inr (ok, True, p, b)"
      by (cases "state p") (auto simp: parsing_def parse_iter_def)
    with body have "f t ok p b = Some r" by simp
    with IH np show False by blast
  qed
qed

section \<open>Properties\<close>

lemma parsing_new [simp]: "parsing HttpParser_new" "state HttpParser_new = kExpectRequestLine"
  "req_method (httpRequest HttpParser_new) = kInvalid"
  by (simp_all add: parsing_def HttpParser_new_def HttpRequest_new_def)

definition text_buffer :: "string \<Rightarrow> Buffer" where
  "text_buffer s = \<lparr>buffer = replicate 8 (CHR 0x00) @ s, readerIndex = 8, writerIndex = 8 + length s\<rparr>"

lemma text_buffer_ok:
  "8 + length s \<le> vector_max_size \<Longrightarrow> buf_ok (text_buffer s)" "contents (text_buffer s) = s"
  by (simp_all add: text_buffer_def buf_ok_def contents_def kCheapPrepend_def)

text \<open>
  Property C3. The parser on the buffer implements the reference parser on the readable bytes: from
  a state that expects a request line or headers the loop of \<open>parseRuquest\<close> ends, the outcome,
  the parser and the remaining bytes are those of \<open>parse_text\<close>, no byte outside the buffer is
  touched, and the buffer stays well formed.
\<close>

theorem parse_refines:
  assumes "buf_ok b" and "parsing p"
  shows "case parse_text t p (contents b) of
      Inl f \<Rightarrow> parseRuquest b t p = Some (Inl f)
    | Inr (ok, p', s) \<Rightarrow> \<exists>b'. parseRuquest b t p = Some (Inr (ok, p', b')) \<and> buf_ok b' \<and>
        contents b' = s \<and> suffix s (contents b)"
  using parse_loop_refines [OF assms refl, of t] parse_text_suffix [of t p "contents b"]
  by (auto simp: refines_text_def parseRuquest_def split: sum.splits)

theorem parse_refines_witness:
  "case parse_text 7 HttpParser_new ''abc'' of
      Inl f \<Rightarrow> parseRuquest (text_buffer ''abc'') 7 HttpParser_new = Some (Inl f)
    | Inr (ok, p', s) \<Rightarrow> \<exists>b'. parseRuquest (text_buffer ''abc'') 7 HttpParser_new =
        Some (Inr (ok, p', b')) \<and> buf_ok b' \<and> contents b' = s \<and> suffix s ''abc''"
  using parse_refines [of "text_buffer ''abc''" HttpParser_new 7] unfolding text_buffer_ok(2)
  by (simp add: text_buffer_ok(1) vector_max_size_def)

text \<open>
  Property C10. Round trip: the text of a request with one of the seven methods, a path and a query, a
  version and any number of headers is parsed to exactly these parts; the parser has then got
  all of the request, and what follows the request stays in the buffer.
\<close>

theorem parse_roundtrip:
  assumes "buf_ok b" and "contents b = request_text m pth q v hs @ rest"
    and "m \<noteq> kInvalid" and "v \<noteq> kUnknown" and "uri_ok pth q" and "list_all header_ok hs"
  shows "\<exists>b'. parseRuquest b t HttpParser_new = Some (Inr (True,
      \<lparr>state = kGotAll, httpRequest = \<lparr>version = v, req_method = m, path = pth, query = q,
        receiveTime = Some t, headers = fold (\<lambda>h. smap_put (fst h) (snd h)) hs []\<rparr>\<rparr>, b')) \<and>
      buf_ok b' \<and> contents b' = rest"
  using parse_loop_refines [OF assms(1) parsing_new(1) assms(2), of t]
    parse_text_request [OF assms(3-6), of t rest]
  by (auto simp: refines_text_def parseRuquest_def)

theorem parse_roundtrip_witness:
  "\<exists>b'. parseRuquest (text_buffer (request_text kGet ''/index'' ''?a=1'' kHttp11
        [(''Host'', ''localhost'')] @ ''next'')) 5 HttpParser_new = Some (Inr (True,
      \<lparr>state = kGotAll, httpRequest = \<lparr>version = kHttp11, req_method = kGet, path = ''/index'',
        query = ''?a=1'', receiveTime = Some 5, headers = [(''Host'', ''localhost'')]\<rparr>\<rparr>, b')) \<and>
      buf_ok b' \<and> contents b' = ''next''"
  using parse_roundtrip [of "text_buffer (request_text kGet ''/index'' ''?a=1'' kHttp11
        [(''Host'', ''localhost'')] @ ''next'')" kGet "''/index''" "''?a=1''" kHttp11
        "[(''Host'', ''localhost'')]" "''next''" 5]
  by (simp add: text_buffer_ok vector_max_size_def request_text_def request_line_def header_text_def
      kCRLF_def uri_ok_def header_ok_def trimmed_def isspace_def)



text \<open>
  A request line that is rejected after its method was recognised (a wrong version, a
  missing part) is left in the buffer and the method in the request, so the next call of
  \<open>parseRuquest\<close> on the connection, whatever bytes have arrived, fails the assertion of
  \<open>setMethod\<close>: in the Debug build the process aborts.
\<close>

theorem parse_rejected_aborts:
  assumes "buf_ok b" and "state p = kExpectRequestLine" and "req_method (httpRequest p) = kInvalid"
    and "parseRuquest b t p = Some (Inr (False, p1, b1))"
    and "req_method (httpRequest p1) \<noteq> kInvalid"
    and "length ys \<le> vector_max_size" and "append_bytes ys b1 = Inr b1'"
  shows "parseRuquest b1' t' p1 = Some (Inl Assert_failed)"
proof -
  have p: "parsing p" using assms(2) by (simp add: parsing_def)
  from parse_loop_refines [OF assms(1) p refl, of t] assms(4) obtain s1 where
    pt: "parse_text t p (contents b) = Inr (False, p1, s1)" and b1: "buf_ok b1" "contents b1 = s1"
    by (auto simp: refines_text_def parseRuquest_def split: sum.splits)
  have p1: "parsing p1" using parse_text_rejected [OF pt assms(2)] assms(2) by (auto simp: parsing_def)
  from append_bytes_Inr [OF b1(1) assms(6,7)] have b1': "buf_ok b1'" "contents b1' = s1 @ ys"
    using b1(2) by auto
  have "parse_text t' p1 (s1 @ ys) = Inl Assert_failed"
    using pt assms(2,3,5) by (rule parse_text_after_rejection)
  with parse_loop_refines [OF b1'(1) p1 b1'(2), of t'] show ?thesis
    by (simp add: refines_text_def parseRuquest_def)
qed

lemma bad_version_line:
  "parse_text 1 HttpParser_new (''GET / HTTP/2.0'' @ kCRLF) =
     Inr (False, HttpParser_new\<lparr>httpRequest := HttpRequest_new\<lparr>req_method := kGet, path := ''/''\<rparr>\<rparr>,
       ''GET / HTTP/2.0'' @ kCRLF)"
  using memmem_CRLF_line [of "''GET / HTTP/2.0''" "[]"]
  by (subst parse_text.simps) (simp add: processRequestLine_def setMethod_def method_of_name_def
      HttpParser_new_def HttpRequest_new_def Let_def setPath_def kCRLF_def)

theorem parse_rejected_aborts_witness:
  "\<exists>p1 b1 b1'. parseRuquest (text_buffer (''GET / HTTP/2.0'' @ kCRLF)) 1 HttpParser_new =
        Some (Inr (False, p1, b1)) \<and> append_bytes ''x'' b1 = Inr b1' \<and>
      parseRuquest b1' 2 p1 = Some (Inl Assert_failed)"
proof -
  let ?b = "text_buffer (''GET / HTTP/2.0'' @ kCRLF)"
  let ?p1 = "HttpParser_new\<lparr>httpRequest := HttpRequest_new\<lparr>req_method := kGet, path := ''/''\<rparr>\<rparr>"
  have ok: "buf_ok ?b" by (simp add: text_buffer_ok vector_max_size_def kCRLF_def)
  have w: "writerIndex ?b = 24" by (simp add: text_buffer_def kCRLF_def)
  from parse_loop_refines [OF ok parsing_new(1) refl, of 1] obtain b1 where
    b1: "parseRuquest ?b 1 HttpParser_new = Some (Inr (False, ?p1, b1))" "buf_ok b1"
      "writerIndex b1 = 24"
    unfolding text_buffer_ok(2) bad_version_line using w
    by (auto simp: refines_text_def parseRuquest_def)
  from append_bytes_ok [OF b1(2), of "''x''"] b1(3) obtain b1' where a: "append_bytes ''x'' b1 = Inr b1'"
    by (auto simp: vector_max_size_def)
  have m: "req_method (httpRequest ?p1) \<noteq> kInvalid" by simp
  from parse_rejected_aborts [OF ok parsing_new(2,3) b1(1) m _ a, of 2] b1(1) a show ?thesis
    by (auto simp: vector_max_size_def)
qed

text \<open>
  Called in the state \<open>kGotAll\<close> or \<open>kExpectBody\<close>, \<open>parseRuquest\<close> never returns: no branch of
  its loop clears \<open>hasMore\<close>. The server has to call \<open>reset\<close> before it parses again.
\<close>

theorem parse_stuck:
  assumes "\<not> parsing p"
  shows "parseRuquest b t p = None"
  using assms parse_loop_returns [of t True p b]
  by (cases "parse_loop t True p b") (auto simp: parseRuquest_def)

theorem parse_stuck_witness:
  "parseRuquest (text_buffer ''GET / HTTP/1.1'') 3 (HttpParser_new\<lparr>state := kGotAll\<rparr>) = None"
  by (rule parse_stuck) (simp add: parsing_def)

end
