(* ===== verification/Http_Response.thy ===== *)
theory Http_Response
  imports Buffer
begin

text \<open>
  The response object of \<open>include/tractor/HttpResponse.h\<close> and \<open>src/HttpResponse.cpp\<close>. The
  response is written to a buffer by a sequence of \<open>append\<close> calls (\<open>response_pieces\<close>); through
  the interface \<open>byte_queue\<close> of the buffer its text is their concatenation. The file system is
  an argument of \<open>setBodyByFile\<close>: the contents of a path that can be opened.
\<close>

section \<open>Data\<close>

datatype HttpStatusCode =
    kUnknownStatus | k200Ok | k301MovedPermanently | k400BadRequest | k404NotFound

fun status_value :: "HttpStatusCode \<Rightarrow> int" where
  "status_value kUnknownStatus = 0"
| "status_value k200Ok = 200"
| "status_value k301MovedPermanently = 301"
| "status_value k400BadRequest = 400"
| "status_value k404NotFound = 404"

record HttpResponse =
  resp_headers :: "(string \<times> string) list"
  statusCode :: HttpStatusCode
  statusMessage :: string
  closeConnection :: bool
  body :: string

section \<open>Operations\<close>

definition HttpResponse_new :: "bool \<Rightarrow> HttpResponse" where
  "HttpResponse_new close = \<lparr>resp_headers = [], statusCode = kUnknownStatus, statusMessage = [],
     closeConnection = close, body = []\<rparr>"

definition setStatusCode :: "HttpStatusCode \<Rightarrow> HttpResponse \<Rightarrow> HttpResponse" where
  "setStatusCode code r = r\<lparr>statusCode := code\<rparr>"

definition setStatusMessage :: "string \<Rightarrow> HttpResponse \<Rightarrow> HttpResponse" where
  "setStatusMessage message r = r\<lparr>statusMessage := message\<rparr>"

definition setCloseConnection :: "bool \<Rightarrow> HttpResponse \<Rightarrow> HttpResponse" where
  "setCloseConnection on r = r\<lparr>closeConnection := on\<rparr>"

definition addResponseHeader :: "string \<Rightarrow> string \<Rightarrow> HttpResponse \<Rightarrow> HttpResponse" where
  "addResponseHeader key val r = r\<lparr>resp_headers := smap_put key val (resp_headers r)\<rparr>"

definition setContentType :: "string \<Rightarrow> HttpResponse \<Rightarrow> HttpResponse" where
  "setContentType contentType r = addResponseHeader ''Content-Type'' contentType r"

definition setBody :: "string \<Rightarrow> HttpResponse \<Rightarrow> HttpResponse" where
  "setBody b r = r\<lparr>body := b\<rparr>"

definition setBodyByFile :: "(string \<Rightarrow> string option) \<Rightarrow> string \<Rightarrow> HttpResponse \<Rightarrow> HttpResponse" where
  "setBodyByFile fs url r =
     (case fs (''/tractor/resources'' @ url @ ''.html'') of
        None \<Rightarrow> r\<lparr>statusCode := k404NotFound, statusMessage := ''Not Found'',
                  closeConnection := True, body := []\<rparr>
      | Some text \<Rightarrow> r\<lparr>body := text\<rparr>)"

text \<open>The arguments of the successive \<open>append\<close> calls.\<close>

definition response_pieces :: "HttpResponse \<Rightarrow> string list" where
  "response_pieces r =
     [snprintf 32 (''HTTP/1.1 '' @ print_int (status_value (statusCode r)) @ '' ''),
      statusMessage r, kCRLF] @
     (if closeConnection r then [''Connection: close'' @ kCRLF]
      else [snprintf 32 (''Content-Length: '' @ print_int (int (length (body r))) @ kCRLF),
            ''Connection: Keep-Alive'' @ kCRLF]) @
     concat (map (\<lambda>h. [fst h, '': '', snd h, kCRLF]) (resp_headers r)) @
     [kCRLF, body r]"

definition appendToBuffer :: "HttpResponse \<Rightarrow> Buffer \<Rightarrow> Buffer res" where
  "appendToBuffer r out = fold_res append_bytes (response_pieces r) out"

section \<open>The text of a response\<close>

definition response_text :: "HttpResponse \<Rightarrow> string" where
  "response_text r = concat (response_pieces r)"

lemma appendToBuffer_ok:
  assumes "buf_ok b" and "writerIndex b + length (response_text r) \<le> vector_max_size"
  shows "\<exists>b'. appendToBuffer r b = Inr b' \<and> buf_ok b' \<and> contents b' = contents b @ response_text r"
  using bq.put_all_ok [OF assms(1), of "response_pieces r"] assms(2)
  by (auto simp: appendToBuffer_def response_text_def)

text \<open>The head as a list of lines, each ended by a line break.\<close>

definition content_length_line :: "nat \<Rightarrow> string" where
  "content_length_line n = ''Content-Length: '' @ print_nat n"

definition status_line :: "HttpResponse \<Rightarrow> string" where
  "status_line r = ''HTTP/1.1 '' @ print_nat (nat (status_value (statusCode r))) @ '' '' @ statusMessage r"

definition head_lines :: "HttpResponse \<Rightarrow> string list" where
  "head_lines r =
     status_line r #
     (if closeConnection r then [''Connection: close'']
      else [content_length_line (length (body r)), ''Connection: Keep-Alive'']) @
     map (\<lambda>h. fst h @ '': '' @ snd h) (resp_headers r)"

definition line_text :: "string list \<Rightarrow> string" where
  "line_text ls = concat (map (\<lambda>l. l @ kCRLF) ls)"

lemma status_value_bounds: "0 \<le> status_value c" "nat (status_value c) < 10 ^ 3"
  by (cases c; simp)+

lemma print_int_nonneg: "0 \<le> i \<Longrightarrow> print_int i = print_nat (nat i)"
  by (simp add: print_int_def)

lemma status_piece:
  "snprintf 32 (''HTTP/1.1 '' @ print_int (status_value c) @ '' '') =
     ''HTTP/1.1 '' @ print_nat (nat (status_value c)) @ '' ''"
proof -
  have "length (print_nat (nat (status_value c))) \<le> 3"
    using status_value_bounds by (intro length_print_nat) auto
  then show ?thesis
    by (simp add: print_int_nonneg status_value_bounds snprintf_fits)
qed

lemma content_length_piece:
  assumes "n < 10 ^ 13"
  shows "snprintf 32 (''Content-Length: '' @ print_int (int n) @ kCRLF) = content_length_line n @ kCRLF"
proof -
  have "length (print_nat n) \<le> 13" using assms by (intro length_print_nat) auto
  then show ?thesis
    by (simp add: print_int_nonneg snprintf_fits content_length_line_def kCRLF_def)
qed

lemma concat_header_pieces:
  "concat (concat (map (\<lambda>h. [fst h, '': '', snd h, kCRLF]) hs)) =
     line_text (map (\<lambda>h. fst h @ '': '' @ snd h) hs)"
  by (induction hs) (simp_all add: line_text_def)

lemma response_text_lines:
  assumes "closeConnection r \<or> length (body r) < 10 ^ 13"
  shows "response_text r = line_text (head_lines r) @ kCRLF @ body r"
proof (cases "closeConnection r")
  case True
  then show ?thesis
    unfolding response_text_def response_pieces_def status_piece head_lines_def status_line_def
    by (simp add: concat_header_pieces) (simp add: line_text_def)
next
  case False
  with assms have n: "length (body r) < 10 ^ 13" by simp
  from False show ?thesis
    unfolding response_text_def response_pieces_def status_piece content_length_piece [OF n]
      head_lines_def status_line_def
    by (simp add: concat_header_pieces) (simp add: line_text_def)
qed

section \<open>Reading a response back\<close>

text \<open>A client splits the response at the first empty line.\<close>

definition read_response :: "string \<Rightarrow> (string \<times> string) option" where
  "read_response s = map_option (\<lambda>k. (take (k + 2) s, drop (k + 4) s)) (memmem s (kCRLF @ kCRLF))"

definition clean_line :: "string \<Rightarrow> bool" where
  "clean_line l \<longleftrightarrow> l \<noteq> [] \<and> CHR 0x0D \<notin> set l"

lemma memmem_skip:
  assumes "CHR 0x0D \<notin> set l" and "memmem s (kCRLF @ kCRLF) = Some k"
  shows "memmem (l @ s) (kCRLF @ kCRLF) = Some (length l + k)"
  using assms by (induction l) (auto simp: kCRLF_def)

lemma memmem_empty_line:
  "ls \<noteq> [] \<Longrightarrow> list_all clean_line ls \<Longrightarrow>
     memmem (line_text ls @ kCRLF @ rest) (kCRLF @ kCRLF) = Some (length (line_text ls) - 2)"
proof (induction ls)
  case (Cons l ls)
  from Cons.prems have l: "CHR 0x0D \<notin> set l" by (simp add: clean_line_def)
  show ?case
  proof (cases ls)
    case Nil
    have "memmem (kCRLF @ kCRLF @ rest) (kCRLF @ kCRLF) = Some 0" by (simp add: kCRLF_def)
    from memmem_skip [OF l this] Nil show ?thesis by (simp add: line_text_def kCRLF_def)
  next
    case (Cons l2 ls2)
    with Cons.prems obtain c l2' where c: "l2 = c # l2'" "c \<noteq> CHR 0x0D"
      by (cases l2) (auto simp: clean_line_def)
    let ?s = "line_text ls @ kCRLF @ rest"
    have IH: "memmem ?s (kCRLF @ kCRLF) = Some (length (line_text ls) - 2)"
      using Cons.IH Cons.prems Cons by simp
    have len: "2 \<le> length (line_text ls)" using Cons by (simp add: line_text_def kCRLF_def)
    have "memmem (kCRLF @ ?s) (kCRLF @ kCRLF) = Some (length (line_text ls))"
      using IH c Cons len by (simp add: kCRLF_def line_text_def)
    from memmem_skip [OF l this] show ?thesis by (simp add: line_text_def kCRLF_def)
  qed
qed simp

lemma read_response_lines:
  assumes "ls \<noteq> []" and "list_all clean_line ls"
  shows "read_response (line_text ls @ kCRLF @ rest) = Some (line_text ls, rest)"
proof -
  have len: "2 \<le> length (line_text ls)" using assms(1) by (cases ls) (simp_all add: line_text_def kCRLF_def)
  then have "length (line_text ls) - 2 + 2 = length (line_text ls)"
    and "length (line_text ls) - 2 + 4 = length (line_text ls) + length kCRLF"
    by (simp_all add: kCRLF_def)
  then show ?thesis
    using memmem_empty_line [OF assms, of rest] by (simp add: read_response_def)
qed

definition response_clean :: "HttpResponse \<Rightarrow> bool" where
  "response_clean r \<longleftrightarrow> CHR 0x0D \<notin> set (statusMessage r) \<and>
     list_all (\<lambda>h. CHR 0x0D \<notin> set (fst h @ snd h)) (resp_headers r)"

lemma CR_notin_print_nat: "CHR 0x0D \<notin> set (print_nat n)"
  using print_nat_digits [of "CHR 0x0D" n] by (auto simp: is_digit_def)

lemma head_lines_clean: "response_clean r \<Longrightarrow> list_all clean_line (head_lines r)"
  using CR_notin_print_nat
  by (auto simp: response_clean_def head_lines_def clean_line_def status_line_def list_all_iff
      content_length_line_def)

section \<open>Properties\<close>

definition sample_response :: HttpResponse where
  "sample_response = \<lparr>resp_headers = [(''Content-Type'', ''text/html'')], statusCode = k200Ok,
     statusMessage = ''OK'', closeConnection = False, body = ''<p>hello</p>''\<rparr>"

text \<open>
  Property C18. \<open>appendToBuffer\<close> puts the response behind what the buffer holds: a status line, the
  connection and length headers, the other headers in key order, an empty line and the body.
  A client that splits the text at the first empty line gets back the head and exactly the body;
  nothing is lost to the fixed \<open>snprintf\<close> buffer of 32 bytes for a body below \<open>10 ^ 13\<close> bytes.
\<close>

theorem response_framing:
  assumes "buf_ok b" and "contents b = []"
    and "writerIndex b + length (response_text r) \<le> vector_max_size"
    and "response_clean r" and "closeConnection r \<or> length (body r) < 10 ^ 13"
  shows "\<exists>b'. appendToBuffer r b = Inr b' \<and> buf_ok b' \<and>
      read_response (contents b') = Some (line_text (head_lines r), body r)"
proof -
  have "head_lines r \<noteq> []" by (simp add: head_lines_def)
  with appendToBuffer_ok [OF assms(1,3)] assms(2,4,5) show ?thesis
    by (auto simp: response_text_lines read_response_lines head_lines_clean)
qed

theorem response_framing_witness:
  "\<exists>b b'. Buffer_new = Inr b \<and> appendToBuffer sample_response b = Inr b' \<and>
      read_response (contents b') = Some (line_text (head_lines sample_response), ''<p>hello</p>'')"
proof -
  from Buffer_new_ok obtain b where b: "Buffer_new = Inr b" "buf_ok b" "contents b = []"
    "writerIndex b = kCheapPrepend" by blast
  have c: "response_clean sample_response"
    by (simp add: response_clean_def sample_response_def)
  have l: "closeConnection sample_response \<or> length (body sample_response) < 10 ^ 13"
    by (simp add: sample_response_def)
  have "length (response_text sample_response) \<le> 1000"
    unfolding response_text_lines [OF l]
    by (simp add: head_lines_def line_text_def sample_response_def status_line_def
        content_length_line_def kCRLF_def print_nat_def dec_digits.simps)
  then have "writerIndex b + length (response_text sample_response) \<le> vector_max_size"
    using b(4) by (simp add: kCheapPrepend_def vector_max_size_def)
  from response_framing [OF b(2,3) this c l] b(1) show ?thesis by (auto simp: sample_response_def)
qed

text \<open>
  Unless the connection is closed, the second line of the head announces the length of the
  body: its decimal value read back is the number of bytes that follow the empty line.
\<close>

theorem content_length_correct:
  assumes "\<not> closeConnection r" and "length (body r) < 10 ^ 13"
  shows "response_text r = line_text (head_lines r) @ kCRLF @ body r \<and>
     head_lines r ! 1 = content_length_line (length (body r)) \<and>
     read_dec (drop (length ''Content-Length: '') (head_lines r ! 1)) = length (body r)"
  using assms by (simp add: response_text_lines) (simp add: head_lines_def content_length_line_def)

theorem content_length_correct_witness:
  "read_dec (drop (length ''Content-Length: '') (head_lines sample_response ! 1)) = 12"
proof -
  have c: "\<not> closeConnection sample_response" and n: "length (body sample_response) = 12"
    by (simp_all add: sample_response_def)
  have "length (body sample_response) < 10 ^ 13" using n by simp
  from content_length_correct [OF c this] show ?thesis unfolding n by blast
qed

text \<open>
  \<open>setBodyByFile\<close> answers with the file \<open>/tractor/resources<url>.html\<close>; when it cannot be
  opened the response becomes a 404 that closes the connection with an empty body, and in
  either case the headers are kept.
\<close>

theorem setBodyByFile_spec:
  "resp_headers (setBodyByFile fs url r) = resp_headers r \<and>
   (case fs (''/tractor/resources'' @ url @ ''.html'') of
      Some text \<Rightarrow> body (setBodyByFile fs url r) = text \<and>
        statusCode (setBodyByFile fs url r) = statusCode r \<and>
        closeConnection (setBodyByFile fs url r) = closeConnection r
    | None \<Rightarrow> body (setBodyByFile fs url r) = [] \<and>
        statusCode (setBodyByFile fs url r) = k404NotFound \<and>
        closeConnection (setBodyByFile fs url r))"
  by (auto simp: setBodyByFile_def split: option.splits)

end
