(* ===== verification/Http_Server.thy ===== *)
theory Http_Server
  imports Tcp_Server Http_Parser Http_Response
begin

text \<open>
  \<open>include/tractor/HttpServer.h\<close> and \<open>src/HttpServer.cpp\<close>: the callbacks that the HTTP server gives to
  its \<open>TcpServer\<close>. The context of a connection (a \<open>boost::any\<close>) holds the \<open>HttpParser\<close>. The
  callback of the user turns a request and the prepared response into the response to send.
\<close>

section \<open>Operations\<close>

type_synonym 'w hworld = "(HttpParser, 'w) sworld"

type_synonym http_callback = "HttpRequest \<Rightarrow> HttpResponse \<Rightarrow> HttpResponse"

definition defaultHttpCallback :: http_callback where
  "defaultHttpCallback req resp =
     setCloseConnection True (setStatusMessage ''Not Found'' (setStatusCode k404NotFound resp))"

definition onConnection :: "nat \<Rightarrow> 'w hworld \<Rightarrow> 'w hworld res" where
  "onConnection c w =
     andthen (connected c w) (\<lambda>b. if b then setContext c HttpParser_new w else Inr w)"

text \<open>Whether the connection is closed after the response.\<close>

definition wants_close :: "HttpRequest \<Rightarrow> bool" where
  "wants_close req \<longleftrightarrow>
     (let connection = getHeader ''Connection'' req
      in connection = ''close'' \<or> (version req = kHttp10 \<and> connection \<noteq> ''Keep-Alive''))"

definition onRequest ::
    "http_callback \<Rightarrow> int \<Rightarrow> bool \<Rightarrow> nat \<Rightarrow> HttpRequest \<Rightarrow> 'w hworld \<Rightarrow> 'w hworld res" where
  "onRequest httpCallback tid wc c req w =
     (let response = httpCallback req (HttpResponse_new (wants_close req))
      in andthen Buffer_new (\<lambda>b0.
         andthen (appendToBuffer response b0) (\<lambda>buf.
         andthen (send_buffer tid wc c buf w) (\<lambda>(_, w1).
           if closeConnection response then conn_shutdown tid c w1 else Inr w1))))"

definition bad_request :: string where
  "bad_request = ''HTTP/1.1 400 Bad Request'' @ kCRLF @ kCRLF"

text \<open>
  \<open>any_cast\<close> of an empty context is a null pointer. A parser that does not return makes the callback
  diverge.
\<close>

definition onMessage ::
    "http_callback \<Rightarrow> int \<Rightarrow> bool \<Rightarrow> nat \<Rightarrow> int \<Rightarrow> 'w hworld \<Rightarrow> 'w hworld res" where
  "onMessage httpCallback tid wc c t w =
     with_conn c w (\<lambda>cn.
       case conn_context cn of
         None \<Rightarrow> Inl Null_deref
       | Some ctx \<Rightarrow>
           (case parseRuquest (inputBuffer cn) t ctx of
              None \<Rightarrow> Inl Diverged
            | Some r \<Rightarrow> andthen r (\<lambda>(valid, ctx1, b1).
                let w1 = put_conn c (cn\<lparr>inputBuffer := b1, conn_context := Some ctx1\<rparr>) w
                in andthen
                    (if \<not> valid
                     then andthen (send tid wc c bad_request w1) (conn_shutdown tid c)
                     else Inr w1)
                    (\<lambda>w2.
                      if gotAll ctx1
                      then andthen (onRequest httpCallback tid wc c (httpRequest ctx1) w2) (\<lambda>w3.
                             setContext c (HttpParser_reset ctx1) w3)
                      else Inr w2))))"

text \<open>The constructor and \<open>start\<close>: the callbacks of the server.\<close>

definition http_callbacks :: "http_callback \<Rightarrow> int \<Rightarrow> 'w hworld conn_callbacks" where
  "http_callbacks httpCallback tid =
     server_callbacks (Some onConnection) (Some (onMessage httpCallback tid False)) None tid"

definition HttpServer_new :: "int \<Rightarrow> nat \<Rightarrow> sockaddr_in \<Rightarrow> 'w hworld \<Rightarrow> 'w hworld" where
  "HttpServer_new fd p listenAddr w = TcpServer_new fd p listenAddr w"

definition HttpServer_start :: "int \<Rightarrow> 'w hworld \<Rightarrow> 'w hworld res" where
  "HttpServer_start tid w = TcpServer_start tid w"

section \<open>Lemmas\<close>

lemma onConnection_sets_context: "sets_context c onConnection"
proof -
  have "\<exists>x. onConnection c v = Inr (put_conn c (cn\<lparr>conn_context := x\<rparr>) v)"
    if "conns v c = Some cn" for v :: "'w hworld" and cn
  proof (cases "conn_state cn = kConnected")
    case True
    then show ?thesis
      using that by (auto simp: onConnection_def connected_def with_conn_def setContext_def)
  next
    case False
    then have "onConnection c v = Inr v"
      using that by (simp add: onConnection_def connected_def with_conn_def)
    moreover have "put_conn c (cn\<lparr>conn_context := conn_context cn\<rparr>) v = v"
      using that by (simp add: put_conn_def fun_upd_idem)
    ultimately show ?thesis by metis
  qed
  then show ?thesis unfolding sets_context_def by blast
qed

lemma reset_new: "HttpParser_reset p = HttpParser_new"
  by (cases p, cases "httpRequest p")
    (simp add: HttpParser_reset_def HttpParser_new_def HttpRequest_swap_def HttpRequest_new_def)

lemma put_input_calm:
  fixes w :: "('ctx, 'w) nworld" and x :: "'ctx option"
  assumes "conn_calm tid c w" and "conns w c = Some cn" and "buf_ok b"
  defines "w' \<equiv> put_conn c (cn\<lparr>inputBuffer := b, conn_context := x\<rparr>) w"
  shows "conn_calm tid c w'" and "written c w' = written c w" and "unsent c w' = unsent c w"
    and "out_used c w' = out_used c w" and "state_of c w' = state_of c w" and "input_of c w' = Some (b, x)"
proof -
  show v: "written c w' = written c w" "unsent c w' = unsent c w" "out_used c w' = out_used c w"
      "state_of c w' = state_of c w" "input_of c w' = Some (b, x)"
    using assms(2) by (simp_all add: conn_view w'_def put_conn_def)
  have "pendingFunctors w' = pendingFunctors w" "threadId w' = threadId w"
    by (simp_all add: w'_def put_conn_def)
  moreover have "conn_ok c w' = conn_ok c w"
  proof -
    have "conn_ok c w" using assms(1) by (simp add: conn_calm_def steady_def)
    then show ?thesis using assms(2,3)
      by (auto simp: conn_ok_def w'_def put_conn_def split: option.splits)
  qed
  ultimately show "conn_calm tid c w'"
    using assms(1) v by (simp add: conn_calm_def steady_def in_flight_def)
qed

lemma onRequest_replies:
  assumes "conn_calm tid c w" and "state_of c w = Some kConnected"
    and "resp = cb req (HttpResponse_new (wants_close req))"
    and "out_used c w + length (response_text resp) \<le> vector_max_size"
    and "kCheapPrepend + length (response_text resp) \<le> vector_max_size"
  shows "\<exists>w'. onRequest cb tid False c req w = Inr w' \<and> conn_calm tid c w' \<and>
     (state_of c w' = Some kConnected \<longleftrightarrow> \<not> closeConnection resp) \<and>
     written c w' @ unsent c w' = (written c w @ unsent c w) @ response_text resp \<and>
     input_of c w' = input_of c w"
proof -
  obtain b0 where b0: "Buffer_new = Inr b0" "buf_ok b0" "contents b0 = []" "writerIndex b0 = kCheapPrepend"
    using Buffer_new_ok by blast
  obtain buf where buf: "appendToBuffer resp b0 = Inr buf" "buf_ok buf" "contents buf = response_text resp"
    using appendToBuffer_ok [OF b0(2), of resp] b0(3,4) assms(5) by auto
  obtain cn where cn: "conns w c = Some cn" "conn_state cn = kConnected"
    using assms(2) by (auto simp: state_of_def)
  have tid: "isInLoopThread tid w" using assms(1) by (simp add: conn_calm_def isInLoopThread_def)
  have eq: "onRequest cb tid False c req w =
      andthen (send tid False c (response_text resp) w)
        (\<lambda>w1. if closeConnection resp then conn_shutdown tid c w1 else Inr w1)"
    using cn tid
    by (simp add: b0(1) buf(1) onRequest_def assms(3) [symmetric] send_buffer_def send_def with_conn_def
        retrieveAsString_ok [OF buf(2)] buf(3) andthen_assoc)
  show ?thesis
    unfolding eq using tcp.reply [OF assms(1,2,4), of "closeConnection resp"] by simp
qed

section \<open>Properties\<close>

text \<open>The request that the parser delivers for a text with the given parts.\<close>

definition parsed_request ::
    "Method \<Rightarrow> string \<Rightarrow> string \<Rightarrow> Version \<Rightarrow> (string \<times> string) list \<Rightarrow> int \<Rightarrow> HttpRequest" where
  "parsed_request m pth q v hs t = \<lparr>version = v, req_method = m, path = pth, query = q,
     receiveTime = Some t, headers = fold (\<lambda>h. smap_put (fst h) (snd h)) hs []\<rparr>"

lemma onMessage_request:
  assumes "conn_calm tid c w" and "state_of c w = Some kConnected"
    and "input_of c w = Some (b, Some HttpParser_new)" and "buf_ok b"
    and "contents b = request_text m pth q v hs @ rest"
    and "m \<noteq> kInvalid" and "v \<noteq> kUnknown" and "uri_ok pth q" and "list_all header_ok hs"
    and "resp = cb (parsed_request m pth q v hs t) (HttpResponse_new (wants_close (parsed_request m pth q v hs t)))"
    and "out_used c w + length (response_text resp) \<le> vector_max_size"
    and "kCheapPrepend + length (response_text resp) \<le> vector_max_size"
  shows "\<exists>w' b'. onMessage cb tid False c t w = Inr w' \<and> conn_calm tid c w' \<and>
     written c w' @ unsent c w' = (written c w @ unsent c w) @ response_text resp \<and>
     (state_of c w' = Some kConnected \<longleftrightarrow> \<not> closeConnection resp) \<and>
     input_of c w' = Some (b', Some HttpParser_new) \<and> contents b' = rest"
proof -
  let ?req = "parsed_request m pth q v hs t"
  let ?ctx = "\<lparr>state = kGotAll, httpRequest = ?req\<rparr>"
  obtain cn where cn: "conns w c = Some cn" "inputBuffer cn = b" "conn_context cn = Some HttpParser_new"
    using assms(3) by (auto simp: input_of_def)
  obtain b' where b': "parseRuquest b t HttpParser_new = Some (Inr (True, ?ctx, b'))" "buf_ok b'" "contents b' = rest"
    using parse_loop_refines [OF assms(4) parsing_new(1) assms(5), of t]
      parse_text_request [OF assms(6-9), of t rest]
    by (auto simp: refines_text_def parseRuquest_def parsed_request_def)
  define w1 where "w1 = put_conn c (cn\<lparr>inputBuffer := b', conn_context := Some ?ctx\<rparr>) w"
  note p1 = put_input_calm [OF assms(1) cn(1) b'(2), of "Some ?ctx", folded w1_def]
  have room: "out_used c w1 + length (response_text resp) \<le> vector_max_size"
    using assms(11) p1(4) by simp
  have st1: "state_of c w1 = Some kConnected" using assms(2) p1(5) by simp
  obtain w2 where w2: "onRequest cb tid False c ?req w1 = Inr w2" "conn_calm tid c w2"
      "state_of c w2 = Some kConnected \<longleftrightarrow> \<not> closeConnection resp"
      "written c w2 @ unsent c w2 = (written c w @ unsent c w) @ response_text resp"
      "input_of c w2 = Some (b', Some ?ctx)"
    using onRequest_replies [of tid c w1 resp cb ?req, OF p1(1) st1 assms(10) room assms(12)] p1(2,3,6) by metis
  obtain cn2 where cn2: "conns w2 c = Some cn2" "inputBuffer cn2 = b'"
    using w2(5) by (auto simp: input_of_def)
  have upd: "cn2\<lparr>conn_context := x\<rparr> = cn2\<lparr>inputBuffer := b', conn_context := x\<rparr>" for x
    using cn2(2) by (cases cn2) simp
  let ?w3 = "put_conn c (cn2\<lparr>inputBuffer := b', conn_context := Some HttpParser_new\<rparr>) w2"
  note p3 = put_input_calm [OF w2(2) cn2(1) b'(2), of "Some HttpParser_new"]
  have "onMessage cb tid False c t w = Inr ?w3"
    using cn b'(1) w2(1) cn2(1)
    by (simp add: onMessage_def with_conn_def gotAll_def setContext_def reset_new upd w1_def)
  with p3 w2 b'(3) show ?thesis by (intro exI [of _ ?w3] exI [of _ b']) simp
qed


text \<open>An open connection whose input buffer holds a given text.\<close>

definition sample_http :: "string \<Rightarrow> (HttpParser, unit) sworld" where
  "sample_http s =
     (let b = \<lparr>buffer = replicate 1032 (CHR 0x00), readerIndex = 8, writerIndex = 8\<rparr>;
          a = SockAddr_port 0;
          ch = \<lparr>chan_loop = 1, chan_fd = 7, events = kReadEvent, revents = POLLIN, index = kAdded,
                eventHandling = None\<rparr>
      in tcp_world.extend
          (loop_world.extend
            ((fst (EventLoop_new 1 77 (-5) 10 None))
               \<lparr>chans := [12 \<mapsto> ch], channels := [(7, 12)],
                ctl_log := [Epoll_ctl CTL_ADD 7 kReadEvent 12]\<rparr>)
            \<lparr>conns = [3 \<mapsto> \<lparr>conn_loop = 1, name = ''s#1'', conn_state = kConnected, localAddr = a,
               peerAddr = a, channel = 12, socketFd = 7, inputBuffer = text_buffer s, outputBuffer = b,
               highWaterMark = None, conn_context = Some HttpParser_new\<rparr>],
             wire = (\<lambda>_. []), sysret = [2, -1, 3], rdret = [], sys_log = []\<rparr>)
          \<lparr>server_name = ''s'', acceptFd = 5, acceptChannel = 11, listening = True, pool = ThreadPool_new 1,
           started = True, nextConnId = 2, connections = [(''s#1'', 3)]\<rparr>)"

lemma sample_http_ok:
  assumes "length s \<le> 1000"
  shows "conn_calm 77 3 (sample_http s)" and "state_of 3 (sample_http s) = Some kConnected"
    and "input_of 3 (sample_http s) = Some (text_buffer s, Some HttpParser_new)"
    and "out_used 3 (sample_http s) = 8" and "written 3 (sample_http s) = []" and "unsent 3 (sample_http s) = []"
    and "buf_ok (text_buffer s)"
proof -
  note defs = sample_http_def Let_def EventLoop_new_def poll_world.defs loop_world.defs
    tcp_world.defs EPoller_new_def put_chan_def
  show b: "buf_ok (text_buffer s)" using assms by (simp add: text_buffer_ok vector_max_size_def)
  show v: "state_of 3 (sample_http s) = Some kConnected"
    "input_of 3 (sample_http s) = Some (text_buffer s, Some HttpParser_new)"
    "out_used 3 (sample_http s) = 8" "written 3 (sample_http s) = []" "unsent 3 (sample_http s) = []"
    by (simp_all add: defs conn_view contents_def)
  have "epoll_inv (sample_http s)"
    by (auto simp: defs epoll_inv_def channels_inv_def index_values interest_def registered_def fun_eq_iff)
  then have "conn_ok 3 (sample_http s)"
    using b by (simp add: conn_ok_def defs isWriting_bit kReadEvent_bits buf_ok_def contents_def
        kCheapPrepend_def vector_max_size_def)
  with v show "conn_calm 77 3 (sample_http s)"
    by (simp add: conn_calm_def steady_def in_flight_def) (simp add: defs)
qed

definition hello :: http_callback where
  "hello req resp = setStatusMessage ''OK'' (setStatusCode k200Ok resp)"




end
