(* ===== verification/Poller.thy ===== *)
theory Poller
  imports Channel
begin

text \<open>
  \<open>include/tractor/Poller.h\<close> and \<open>src/Poller.cpp\<close>: the poller on \<open>poll(2)\<close>. A channel's index is its
  position in the vector \<open>pollfds_\<close>; a channel without events is ignored by negating its
  descriptor there. The outcome of \<open>::poll\<close> (the returned count and the \<open>revents\<close> it stored) is an
  argument of \<open>poll\<close>.
\<close>

section \<open>State\<close>

record pollfd =
  pfd_fd :: int
  pfd_events :: "16 word"
  pfd_revents :: "16 word"

record pp_world =
  pp_chans :: "nat \<Rightarrow> Channel option"
  pollfds :: "pollfd list"
  pp_channels :: "(int \<times> nat) list"

definition Poller_new :: pp_world where
  "Poller_new = \<lparr>pp_chans = (\<lambda>_. None), pollfds = [], pp_channels = []\<rparr>"

definition with_pchan :: "nat \<Rightarrow> pp_world \<Rightarrow> (Channel \<Rightarrow> 'a res) \<Rightarrow> 'a res" where
  "with_pchan p w k = (case pp_chans w p of None \<Rightarrow> Inl Use_after_free | Some c \<Rightarrow> k c)"

definition ignored :: "int \<Rightarrow> int" where
  "ignored fd = - fd - 1"

section \<open>Operations\<close>

definition pp_updateChannel :: "nat \<Rightarrow> pp_world \<Rightarrow> pp_world res" where
  "pp_updateChannel p w =
     with_pchan p w (\<lambda>c.
       if index c < 0
       then asserting (smap_find (pp_channels w) (chan_fd c) = None)
         (let pfd = \<lparr>pfd_fd = chan_fd c, pfd_events = ucast (events c), pfd_revents = 0\<rparr>;
              fds = pollfds w @ [pfd];
              idx = int (length fds) - 1
          in Inr (w\<lparr>pollfds := fds, pp_chans := (pp_chans w)(p \<mapsto> setIndex idx c),
                    pp_channels := smap_put (pfd_fd pfd) p (pp_channels w)\<rparr>))
       else asserting (smap_find (pp_channels w) (chan_fd c) \<noteq> None)
         (asserting (smap_find (pp_channels w) (chan_fd c) = Some p)
         (let idx = index c
          in asserting (0 \<le> idx \<and> idx < int (length (pollfds w)))
            (let pfd = pollfds w ! nat idx
             in asserting (pfd_fd pfd = chan_fd c \<or> pfd_fd pfd = ignored (chan_fd c))
               (let pfd' = pfd\<lparr>pfd_events := ucast (events c), pfd_revents := 0\<rparr>;
                    pfd'' = (if isNoneEvent c then pfd'\<lparr>pfd_fd := ignored (chan_fd c)\<rparr> else pfd')
                in Inr (w\<lparr>pollfds := (pollfds w)[nat idx := pfd'']\<rparr>))))))"

definition pp_removeChannel :: "nat \<Rightarrow> pp_world \<Rightarrow> pp_world res" where
  "pp_removeChannel p w =
     with_pchan p w (\<lambda>c.
       asserting (smap_find (pp_channels w) (chan_fd c) \<noteq> None)
       (asserting (smap_find (pp_channels w) (chan_fd c) = Some p)
       (asserting (isNoneEvent c)
       (let idx = index c
        in asserting (0 \<le> idx \<and> idx < int (length (pollfds w)))
          (let pfd = pollfds w ! nat idx
           in asserting (pfd_fd pfd = ignored (chan_fd c) \<and> pfd_events pfd = ucast (events c))
             (let w1 = w\<lparr>pp_channels := smap_erase (chan_fd c) (pp_channels w)\<rparr>
              in if nat idx = length (pollfds w) - 1
                 then Inr (w1\<lparr>pollfds := butlast (pollfds w)\<rparr>)
                 else
                   (let channelAtEnd = pfd_fd (last (pollfds w));
                        key = (if channelAtEnd < 0 then - channelAtEnd - 1 else channelAtEnd)
                    in case smap_find (pp_channels w1) key of
                         None \<Rightarrow> Inl Null_deref
                       | Some q \<Rightarrow>
                           with_pchan q w1 (\<lambda>d.
                             Inr (w1\<lparr>pp_chans := (pp_chans w1)(q \<mapsto> setIndex idx d),
                                     pollfds := butlast ((pollfds w)[nat idx := last (pollfds w),
                                       length (pollfds w) - 1 := pfd])\<rparr>)))))))))"

text \<open>\<open>pfd->revents > 0\<close> compares a signed \<open>short\<close>.\<close>

fun pp_fill ::
    "pollfd list \<Rightarrow> int \<Rightarrow> nat list \<Rightarrow> pp_world \<Rightarrow> (nat list \<times> pp_world) res" where
  "pp_fill [] numEvents active w = Inr (active, w)"
| "pp_fill (pfd # fds) numEvents active w =
     (if numEvents \<le> 0 then Inr (active, w)
      else if 0 < sint (pfd_revents pfd)
      then (case smap_find (pp_channels w) (pfd_fd pfd) of
              None \<Rightarrow> Inl Assert_failed
            | Some p \<Rightarrow>
                with_pchan p w (\<lambda>c.
                  asserting (chan_fd c = pfd_fd pfd)
                    (pp_fill fds (numEvents - 1) (active @ [p])
                      (w\<lparr>pp_chans := (pp_chans w)(p \<mapsto> setRevents (scast (pfd_revents pfd)) c)\<rparr>))))
      else pp_fill fds numEvents active w)"

definition pp_fillActiveChannels ::
    "int \<Rightarrow> nat list \<Rightarrow> pp_world \<Rightarrow> (nat list \<times> pp_world) res" where
  "pp_fillActiveChannels numEvents active w = pp_fill (pollfds w) numEvents active w"

definition store_revents :: "16 word list \<Rightarrow> pp_world \<Rightarrow> pp_world" where
  "store_revents rs w = w\<lparr>pollfds := map2 (\<lambda>pfd r. pfd\<lparr>pfd_revents := r\<rparr>) (pollfds w) rs\<rparr>"

definition pp_poll ::
    "int \<Rightarrow> 16 word list \<Rightarrow> int \<Rightarrow> nat list \<Rightarrow> pp_world \<Rightarrow> (int \<times> nat list \<times> pp_world) res" where
  "pp_poll numEvents rs time active w =
     (let now = to_int32 time; w1 = store_revents rs w
      in if 0 < numEvents
         then andthen (pp_fillActiveChannels numEvents active w1)
                (\<lambda>(active', w'). Inr (now, active', w'))
         else Inr (now, active, w1))"

section \<open>Invariant\<close>

definition plain_fd :: "int \<Rightarrow> int" where
  "plain_fd x = (if x < 0 then - x - 1 else x)"

lemma plain_fd_cases [simp]: "0 \<le> fd \<Longrightarrow> plain_fd fd = fd" "0 \<le> fd \<Longrightarrow> plain_fd (ignored fd) = fd"
  by (simp_all add: plain_fd_def ignored_def)

text \<open>Every registered channel knows its slot, and every slot belongs to a registered channel.\<close>

definition slot_of :: "pp_world \<Rightarrow> int \<Rightarrow> nat \<Rightarrow> nat \<Rightarrow> bool" where
  "slot_of w fd p i \<longleftrightarrow> (\<exists>c. pp_chans w p = Some c \<and> chan_fd c = fd \<and> 0 \<le> fd \<and> index c = int i \<and>
     i < length (pollfds w) \<and> plain_fd (pfd_fd (pollfds w ! i)) = fd)"

definition pp_inv :: "pp_world \<Rightarrow> bool" where
  "pp_inv w \<longleftrightarrow> smap_ok (pp_channels w) \<and>
     (\<forall>fd p. smap_find (pp_channels w) fd = Some p \<longrightarrow> (\<exists>i. slot_of w fd p i)) \<and>
     (\<forall>i < length (pollfds w). \<exists>p.
        smap_find (pp_channels w) (plain_fd (pfd_fd (pollfds w ! i))) = Some p \<and>
        slot_of w (plain_fd (pfd_fd (pollfds w ! i))) p i)"

lemma pp_inv_new: "pp_inv Poller_new"
  by (simp add: pp_inv_def Poller_new_def)

lemma pp_inv_slot:
  assumes "pp_inv w" and "smap_find (pp_channels w) fd = Some p" and "pp_chans w p = Some c"
  shows "chan_fd c = fd" "0 \<le> fd" "index c = int (nat (index c))" "nat (index c) < length (pollfds w)"
    "plain_fd (pfd_fd (pollfds w ! nat (index c))) = fd"
  using assms unfolding pp_inv_def slot_of_def by fastforce+

lemma slot_unique:
  assumes "slot_of w fd p i" and "slot_of w fd' p i'" shows "fd = fd' \<and> i = i'"
  using assms by (auto simp: slot_of_def)

lemma slot_fd: "slot_of w fd p i \<Longrightarrow> plain_fd (pfd_fd (pollfds w ! i)) = fd"
  by (auto simp: slot_of_def)

lemma pp_inv_find_slot:
  "pp_inv w \<Longrightarrow> smap_find (pp_channels w) fd = Some p \<Longrightarrow> \<exists>i. slot_of w fd p i"
  by (simp add: pp_inv_def)

text \<open>Two registered descriptors do not share a slot, and a slot names its descriptor.\<close>

lemma pp_inv_slot_inj:
  assumes "slot_of w fd p i" and "slot_of w fd' q i"
  shows "fd = fd'"
  using assms slot_fd by blast

section \<open>Removal keeps the slots\<close>

text \<open>
  \<open>removeChannel\<close> fills the freed slot with the last one: its result, given the channel \<open>q\<close> that
  owned the last slot.
\<close>

definition slot_removed :: "nat \<Rightarrow> nat \<Rightarrow> int \<Rightarrow> Channel \<Rightarrow> pp_world \<Rightarrow> pp_world" where
  "slot_removed i q fd d w = w\<lparr>pp_channels := smap_erase fd (pp_channels w),
     pp_chans := (pp_chans w)(q \<mapsto> setIndex (int i) d),
     pollfds := butlast ((pollfds w)[i := last (pollfds w)])\<rparr>"

lemma pp_inv_slot_removed:
  assumes inv: "pp_inv w" and p: "smap_find (pp_channels w) fd = Some p" "slot_of w fd p i"
    and i: "i < length (pollfds w) - 1"
    and q: "smap_find (pp_channels w) key = Some q" "slot_of w key q (length (pollfds w) - 1)"
      "pp_chans w q = Some d"
  shows "pp_inv (slot_removed i q fd d w)"
proof -
  let ?w = "slot_removed i q fd d w" and ?n = "length (pollfds w) - 1"
  have key: "key \<noteq> fd"
  proof
    assume "key = fd"
    with p q(1) have "q = p" by simp
    with slot_unique [OF p(2)] q(2) i show False by auto
  qed
  have find: "smap_find (pp_channels ?w) = (smap_find (pp_channels w))(fd := None)"
    using inv by (simp add: slot_removed_def pp_inv_def fun_eq_iff)
  have nth: "pollfds ?w ! j = (if j = i then last (pollfds w) else pollfds w ! j)" if "j < ?n" for j
    using that i by (simp add: slot_removed_def nth_butlast)
  have len: "length (pollfds ?w) = ?n" by (simp add: slot_removed_def)
  have ch: "pp_chans ?w = (pp_chans w)(q \<mapsto> setIndex (int i) d)" by (simp add: slot_removed_def)
  have last: "last (pollfds w) = pollfds w ! ?n" using i by (intro last_conv_nth) auto
  have moved: "slot_of ?w key q i"
    using q(2,3) i nth [of i] last by (auto simp: slot_of_def ch len setIndex_def)
  have kept: "slot_of ?w fd' p' j" if "slot_of w fd' p' j" "j \<noteq> i" "p' \<noteq> q" "j < ?n" for fd' p' j
    using that nth [of j] by (auto simp: slot_of_def ch len)
  have same: "slot_of w fd' q j \<Longrightarrow> fd' = key \<and> j = ?n" for fd' j
    using slot_unique [OF q(2)] by blast
  show ?thesis
    unfolding pp_inv_def
  proof (intro conjI allI impI)
    show "smap_ok (pp_channels ?w)" using inv by (simp add: slot_removed_def pp_inv_def)
  next
    fix fd' p' assume "smap_find (pp_channels ?w) fd' = Some p'"
    then have fd': "fd' \<noteq> fd" "smap_find (pp_channels w) fd' = Some p'"
      unfolding find by (auto split: if_splits)
    obtain j where j: "slot_of w fd' p' j" using pp_inv_find_slot [OF inv fd'(2)] by blast
    then have jn: "j < length (pollfds w)" by (auto simp: slot_of_def)
    have "j \<noteq> i" using pp_inv_slot_inj [OF j] p(2) fd'(1) by blast
    show "\<exists>j. slot_of ?w fd' p' j"
    proof (cases "p' = q")
      case True
      with same j moved show ?thesis by blast
    next
      case False
      have "j \<noteq> ?n"
      proof
        assume "j = ?n"
        with pp_inv_slot_inj [OF j, of key q] q(2) have "fd' = key" by simp
        with fd'(2) q(1) False show False by simp
      qed
      with jn have "j < ?n" by simp
      with kept [OF j \<open>j \<noteq> i\<close> False] show ?thesis by blast
    qed
  next
    fix j assume "j < length (pollfds ?w)"
    then have j: "j < ?n" "j < length (pollfds w)" using len by auto
    show "\<exists>p'. smap_find (pp_channels ?w) (plain_fd (pfd_fd (pollfds ?w ! j))) = Some p' \<and>
        slot_of ?w (plain_fd (pfd_fd (pollfds ?w ! j))) p' j"
    proof (cases "j = i")
      case True
      have "plain_fd (pfd_fd (pollfds ?w ! j)) = key" using True moved slot_fd by blast
      with True moved q(1) key show ?thesis by (auto simp: find)
    next
      case False
      let ?fd = "plain_fd (pfd_fd (pollfds w ! j))"
      obtain p' where p': "smap_find (pp_channels w) ?fd = Some p'" "slot_of w ?fd p' j"
        using inv j(2) by (auto simp: pp_inv_def)
      have "?fd \<noteq> fd"
      proof
        assume "?fd = fd"
        with p'(1) p(1) have "p' = p" by simp
        with p'(2) slot_unique [OF p(2)] False show False by blast
      qed
      moreover have "p' \<noteq> q" using p'(2) same j(1) by auto
      ultimately show ?thesis using nth [OF j(1)] False kept [OF p'(2) False _ j(1)] p'(1)
        by (auto simp: find)
    qed
  qed
qed

lemma pp_inv_last_removed:
  assumes inv: "pp_inv w" and p: "smap_find (pp_channels w) fd = Some p"
    "slot_of w fd p (length (pollfds w) - 1)"
  shows "pp_inv (w\<lparr>pp_channels := smap_erase fd (pp_channels w), pollfds := butlast (pollfds w)\<rparr>)"
proof -
  let ?w = "w\<lparr>pp_channels := smap_erase fd (pp_channels w), pollfds := butlast (pollfds w)\<rparr>"
  let ?n = "length (pollfds w) - 1"
  have find: "smap_find (smap_erase fd (pp_channels w)) = (smap_find (pp_channels w))(fd := None)"
    using inv by (simp add: pp_inv_def fun_eq_iff)
  have kept: "slot_of ?w fd' q j" if "slot_of w fd' q j" "j < ?n" for fd' q j
    using that by (auto simp: slot_of_def nth_butlast)
  show ?thesis
    unfolding pp_inv_def
  proof (intro conjI allI impI)
    show "smap_ok (pp_channels ?w)" using inv by (simp add: pp_inv_def)
  next
    fix fd' q assume "smap_find (pp_channels ?w) fd' = Some q"
    then have fd': "fd' \<noteq> fd" "smap_find (pp_channels w) fd' = Some q"
      by (auto simp: find split: if_splits)
    obtain j where j: "slot_of w fd' q j" using pp_inv_find_slot [OF inv fd'(2)] by blast
    then have "j < length (pollfds w)" by (auto simp: slot_of_def)
    moreover have "j \<noteq> ?n" using pp_inv_slot_inj [OF j] p(2) fd'(1) by blast
    ultimately have "j < ?n" by simp
    with kept [OF j] show "\<exists>j. slot_of ?w fd' q j" by blast
  next
    fix j assume "j < length (pollfds ?w)"
    then have j: "j < ?n" "j < length (pollfds w)" by auto
    let ?fd = "plain_fd (pfd_fd (pollfds w ! j))"
    obtain q where q: "smap_find (pp_channels w) ?fd = Some q" "slot_of w ?fd q j"
      using inv j(2) by (auto simp: pp_inv_def)
    have "?fd \<noteq> fd"
    proof
      assume "?fd = fd"
      with q p(1) have "slot_of w fd p j" by simp
      with slot_unique [OF p(2)] j(1) show False by blast
    qed
    with q kept [OF q(2) j(1)] j
    show "\<exists>q. smap_find (pp_channels ?w) (plain_fd (pfd_fd (pollfds ?w ! j))) = Some q \<and>
        slot_of ?w (plain_fd (pfd_fd (pollfds ?w ! j))) q j"
      by (auto simp: find nth_butlast)
  qed
qed

lemma pp_removeChannel_inv:
  assumes inv: "pp_inv w" and rem: "pp_removeChannel p w = Inr w'"
  shows "pp_inv w'"
proof -
  from rem obtain c where c: "pp_chans w p = Some c"
    and fp: "smap_find (pp_channels w) (chan_fd c) = Some p"
    and idx: "0 \<le> index c" "index c < int (length (pollfds w))"
    by (auto simp: pp_removeChannel_def with_pchan_def Let_def res_simps split: option.splits)
  let ?i = "nat (index c)" and ?fd = "chan_fd c"
  have slot: "slot_of w ?fd p ?i"
    using pp_inv_slot [OF inv fp c] c by (auto simp: slot_of_def)
  show ?thesis
  proof (cases "?i = length (pollfds w) - 1")
    case True
    with rem c have "w' = w\<lparr>pp_channels := smap_erase ?fd (pp_channels w), pollfds := butlast (pollfds w)\<rparr>"
      by (auto simp: pp_removeChannel_def with_pchan_def Let_def res_simps)
    with pp_inv_last_removed [OF inv fp] slot True show ?thesis by simp
  next
    case False
    then have i: "?i < length (pollfds w) - 1" using idx by linarith
    let ?n = "length (pollfds w) - 1"
    let ?key = "plain_fd (pfd_fd (last (pollfds w)))"
    have last: "last (pollfds w) = pollfds w ! ?n" using i by (intro last_conv_nth) auto
    have "?n < length (pollfds w)" using i by linarith
    then obtain q where q: "smap_find (pp_channels w) ?key = Some q" "slot_of w ?key q ?n"
      using inv unfolding pp_inv_def last by blast
    then obtain d where d: "pp_chans w q = Some d" by (auto simp: slot_of_def)
    have "?key \<noteq> ?fd"
    proof
      assume "?key = ?fd"
      with q fp have "slot_of w ?fd p ?n" by simp
      with slot_unique [OF slot] i show False by auto
    qed
    then have find: "smap_find (smap_erase ?fd (pp_channels w)) ?key = Some q"
      using inv q(1) by (simp add: pp_inv_def)
    have bl: "butlast ((pollfds w)[?i := last (pollfds w), length (pollfds w) - Suc 0 := x]) =
        butlast ((pollfds w)[?i := last (pollfds w)])" for x
      by (simp add: butlast_list_update)
    have key: "(if pfd_fd (last (pollfds w)) < 0 then - pfd_fd (last (pollfds w)) - 1
        else pfd_fd (last (pollfds w))) = ?key" by (simp add: plain_fd_def)
    have "w' = slot_removed ?i q ?fd d w"
      using rem c False find d idx
      unfolding pp_removeChannel_def Let_def key
      by (auto simp: with_pchan_def res_simps slot_removed_def bl)
    with pp_inv_slot_removed [OF inv fp slot i q d] show ?thesis by simp
  qed
qed

section \<open>Updates keep the slots\<close>

lemma pp_inv_remask:
  assumes "pp_inv w" and "pp_chans w p = Some c"
  shows "pp_inv (w\<lparr>pp_chans := (pp_chans w)(p \<mapsto> c\<lparr>events := e\<rparr>)\<rparr>)"
proof -
  let ?w = "w\<lparr>pp_chans := (pp_chans w)(p \<mapsto> c\<lparr>events := e\<rparr>)\<rparr>"
  have "slot_of ?w fd q i = slot_of w fd q i" for fd q i
    using assms(2) by (auto simp: slot_of_def)
  then show ?thesis using assms(1) by (simp add: pp_inv_def)
qed

lemma pp_update_new_inv:
  assumes inv: "pp_inv w" and c: "pp_chans w p = Some c" "index c < 0" "0 \<le> chan_fd c"
    and up: "pp_updateChannel p w = Inr w'"
  shows "pp_inv w'"
proof -
  let ?pfd = "\<lparr>pfd_fd = chan_fd c, pfd_events = ucast (events c), pfd_revents = 0\<rparr>"
  let ?n = "length (pollfds w)"
  from up c have none: "smap_find (pp_channels w) (chan_fd c) = None"
    and w': "w' = w\<lparr>pollfds := pollfds w @ [?pfd], pp_chans := (pp_chans w)(p \<mapsto> setIndex (int ?n) c),
        pp_channels := smap_put (chan_fd c) p (pp_channels w)\<rparr>"
    by (auto simp: pp_updateChannel_def with_pchan_def Let_def res_simps)
  have find: "smap_find (pp_channels w') = (smap_find (pp_channels w))(chan_fd c \<mapsto> p)"
    using inv by (simp add: w' pp_inv_def fun_eq_iff)
  have new: "slot_of w' (chan_fd c) p ?n" using c(3) by (simp add: slot_of_def w' setIndex_def)
  have kept: "slot_of w' fd q j" if "slot_of w fd q j" for fd q j
    using that c(1,2) by (auto simp: slot_of_def w' nth_append)
  show ?thesis
    unfolding pp_inv_def
  proof (intro conjI allI impI)
    show "smap_ok (pp_channels w')" using inv by (simp add: w' pp_inv_def)
  next
    fix fd q assume "smap_find (pp_channels w') fd = Some q"
    then have "fd = chan_fd c \<and> q = p \<or> smap_find (pp_channels w) fd = Some q"
      unfolding find by (auto split: if_splits)
    with new kept pp_inv_find_slot [OF inv] show "\<exists>j. slot_of w' fd q j" by blast
  next
    fix j assume "j < length (pollfds w')"
    then consider "j = ?n" | "j < ?n" by (fastforce simp: w')
    then show "\<exists>q. smap_find (pp_channels w') (plain_fd (pfd_fd (pollfds w' ! j))) = Some q \<and>
        slot_of w' (plain_fd (pfd_fd (pollfds w' ! j))) q j"
    proof cases
      case 1
      have "plain_fd (pfd_fd (pollfds w' ! j)) = chan_fd c" using 1 new slot_fd by blast
      with 1 new show ?thesis by (simp add: find)
    next
      case 2
      let ?fd = "plain_fd (pfd_fd (pollfds w ! j))"
      obtain q where q: "smap_find (pp_channels w) ?fd = Some q" "slot_of w ?fd q j"
        using inv 2 by (auto simp: pp_inv_def)
      moreover have "pollfds w' ! j = pollfds w ! j" using 2 by (simp add: w' nth_append)
      ultimately show ?thesis using kept none by (auto simp: find)
    qed
  qed
qed

text \<open>An update of a registered channel rewrites its slot, whose descriptor stays the same up to sign.\<close>

lemma pp_update_existing:
  assumes "pp_inv w" and "pp_chans w p = Some c" and "0 \<le> index c"
    and "pp_updateChannel p w = Inr w'"
  shows "\<exists>pfd. w' = w\<lparr>pollfds := (pollfds w)[nat (index c) := pfd]\<rparr> \<and>
      smap_find (pp_channels w) (chan_fd c) = Some p \<and> nat (index c) < length (pollfds w) \<and>
      pfd_fd pfd = (if isNoneEvent c then ignored (chan_fd c) else pfd_fd (pollfds w ! nat (index c))) \<and>
      pfd_events pfd = ucast (events c)"
  using assms by (auto simp: pp_updateChannel_def with_pchan_def Let_def res_simps nat_less_iff)

lemma pp_update_existing_inv:
  assumes inv: "pp_inv w" and c: "pp_chans w p = Some c" "0 \<le> index c"
    and up: "pp_updateChannel p w = Inr w'"
  shows "pp_inv w'"
proof -
  let ?i = "nat (index c)"
  from pp_update_existing [OF assms] obtain pfd where
    w': "w' = w\<lparr>pollfds := (pollfds w)[?i := pfd]\<rparr>" and fp: "smap_find (pp_channels w) (chan_fd c) = Some p"
    and i: "?i < length (pollfds w)" and
    pfd: "pfd_fd pfd = (if isNoneEvent c then ignored (chan_fd c) else pfd_fd (pollfds w ! ?i))" by blast
  note sl = pp_inv_slot [OF inv fp c(1)]
  have plain: "plain_fd (pfd_fd (pollfds w' ! j)) = plain_fd (pfd_fd (pollfds w ! j))"
    if "j < length (pollfds w)" for j
    using that sl i pfd by (cases "j = ?i") (auto simp: w')
  have "slot_of w' fd q j = slot_of w fd q j" for fd q j
    using plain [of j] by (auto simp: slot_of_def) (auto simp: w')
  with inv plain show ?thesis by (auto simp: pp_inv_def) (auto simp: w')
qed

section \<open>Properties\<close>

text \<open>
  Property C21. \<open>updateChannel\<close> and \<open>removeChannel\<close> keep the bookkeeping of the poller: every registered
  channel's index is the slot of its descriptor and every slot belongs to a registered channel,
  also after a channel in the middle was replaced by the last one.
\<close>

theorem poller_slots_kept:
  assumes "pp_inv w" and "pp_chans w p = Some c" and "0 \<le> chan_fd c"
  shows "(pp_updateChannel p w = Inr w1 \<longrightarrow> pp_inv w1) \<and> (pp_removeChannel p w = Inr w2 \<longrightarrow> pp_inv w2)"
  using pp_update_new_inv [OF assms(1,2) _ assms(3)] pp_update_existing_inv [OF assms(1,2)]
    pp_removeChannel_inv [OF assms(1)] by (cases "index c < 0") auto

definition sample_pp :: pp_world where
  "sample_pp = Poller_new\<lparr>pp_chans := [10 \<mapsto> (Channel_new 1 5)\<lparr>events := kReadEvent\<rparr>]\<rparr>"

lemma sample_pp_inv: "pp_inv sample_pp"
  by (simp add: pp_inv_def sample_pp_def Poller_new_def)

theorem poller_slots_kept_witness:
  "\<exists>w1. pp_updateChannel 10 sample_pp = Inr w1 \<and> pp_inv w1"
proof -
  have "\<exists>w1. pp_updateChannel 10 sample_pp = Inr w1"
    by (simp add: pp_updateChannel_def with_pchan_def sample_pp_def Channel_new_def Poller_new_def Let_def)
  moreover have "pp_chans sample_pp 10 = Some ((Channel_new 1 5)\<lparr>events := kReadEvent\<rparr>)"
    "0 \<le> chan_fd ((Channel_new 1 5)\<lparr>events := kReadEvent\<rparr>)"
    by (simp_all add: sample_pp_def Channel_new_def)
  ultimately show ?thesis using poller_slots_kept [OF sample_pp_inv] by blast
qed

text \<open>
  A channel that this poller has once disabled is never polled again: when its mask is set
  to anything else and \<open>updateChannel\<close> succeeds, the descriptor in its slot stays negative, and
  \<open>poll(2)\<close> ignores negative descriptors. The branch for an existing channel does not restore
  the descriptor.
\<close>

theorem poller_disabled_stays_ignored:
  assumes "pp_inv w" and "pp_chans w p = Some c" and "0 \<le> index c" and "0 \<le> chan_fd c"
    and "pfd_fd (pollfds w ! nat (index c)) = ignored (chan_fd c)"
    and "pp_updateChannel p (w\<lparr>pp_chans := (pp_chans w)(p \<mapsto> c\<lparr>events := e\<rparr>)\<rparr>) = Inr w'"
  shows "pfd_fd (pollfds w' ! nat (index c)) = ignored (chan_fd c) \<and>
      pfd_fd (pollfds w' ! nat (index c)) < 0 \<and> pfd_events (pollfds w' ! nat (index c)) = ucast e"
proof -
  let ?w = "w\<lparr>pp_chans := (pp_chans w)(p \<mapsto> c\<lparr>events := e\<rparr>)\<rparr>"
  have "pp_inv ?w" using assms(1,2) by (rule pp_inv_remask)
  moreover have "pp_chans ?w p = Some (c\<lparr>events := e\<rparr>)" "0 \<le> index (c\<lparr>events := e\<rparr>)"
    using assms(3) by simp_all
  ultimately obtain pfd where
    "w' = ?w\<lparr>pollfds := (pollfds ?w)[nat (index c) := pfd]\<rparr>" "nat (index c) < length (pollfds w)"
    "pfd_fd pfd = ignored (chan_fd c)" "pfd_events pfd = ucast e"
    using pp_update_existing [OF _ _ _ assms(6)] assms(5) by fastforce
  then show ?thesis using assms(4) by (simp add: ignored_def)
qed

definition sample_pp_disabled :: pp_world where
  "sample_pp_disabled = \<lparr>pp_chans = [10 \<mapsto> (Channel_new 1 5)\<lparr>index := 0\<rparr>],
     pollfds = [\<lparr>pfd_fd = -6, pfd_events = 0, pfd_revents = 0\<rparr>], pp_channels = [(5, 10)]\<rparr>"

theorem poller_disabled_stays_ignored_witness:
  "\<exists>w'. pp_updateChannel 10 (sample_pp_disabled\<lparr>pp_chans :=
        [10 \<mapsto> (Channel_new 1 5)\<lparr>index := 0, events := kReadEvent\<rparr>]\<rparr>) = Inr w' \<and>
      pfd_fd (pollfds w' ! 0) < 0 \<and> pfd_events (pollfds w' ! 0) = ucast kReadEvent"
proof -
  let ?c = "(Channel_new 1 5)\<lparr>index := 0\<rparr>"
  let ?w = "sample_pp_disabled\<lparr>pp_chans := (pp_chans sample_pp_disabled)(10 \<mapsto> ?c\<lparr>events := kReadEvent\<rparr>)\<rparr>"
  have "pp_inv sample_pp_disabled"
    by (simp add: pp_inv_def sample_pp_disabled_def slot_of_def Channel_new_def plain_fd_def)
  moreover have "\<exists>w'. pp_updateChannel 10 ?w = Inr w'"
    by (simp add: pp_updateChannel_def with_pchan_def sample_pp_disabled_def Channel_new_def Let_def
        ignored_def)
  ultimately show ?thesis
    using poller_disabled_stays_ignored [of sample_pp_disabled 10 ?c kReadEvent]
    by (auto simp: sample_pp_disabled_def Channel_new_def ignored_def)
qed

end
