(* ===== verification/Timer_Queue.thy ===== *)
theory Timer_Queue
  imports Event_Loop "HOL-Library.Product_Lexorder"
begin

text \<open>
  \<open>include/tractor/TimerQueue.h\<close> and \<open>src/TimerQueue.cpp\<close>. Timers are heap objects (\<open>theap\<close>) with
  the number of \<open>shared_ptr\<close>s that own them (\<open>owners\<close>); the set \<open>timers_\<close> holds pairs of an
  expiration and a raw address, in the order of \<open>std::pair\<close>. The clock readings, the outcome of
  reading the timer descriptor and the addresses that the allocator returns are arguments;
  \<open>timerfd_settime\<close> is recorded in \<open>settime_log\<close>.
\<close>

section \<open>The timer descriptor\<close>

record timespec =
  tv_sec :: int
  tv_nsec :: int

definition howMuchTimeFromNow :: "int \<times> int \<Rightarrow> int \<Rightarrow> timespec res" where
  "howMuchTimeFromNow tv when_us =
     andthen (Timer_now tv) (\<lambda>now.
     andthen (checked64 (when_us - now)) (\<lambda>d.
       let microseconds = (if d < 100 then 100 else d)
       in Inr \<lparr>tv_sec = c_div microseconds kMicroSecondsPerSecond,
               tv_nsec = c_mod microseconds kMicroSecondsPerSecond * 1000\<rparr>))"

text \<open>
  A result of \<open>read\<close> shorter than eight bytes leaves \<open>howmany\<close> uninitialised (\<open>None\<close>), and it is printed.
\<close>

definition readTimerfd :: "nat option \<Rightarrow> 's \<Rightarrow> 's res" where
  "readTimerfd howmany s = (case howmany of None \<Rightarrow> Inl Uninitialised | Some n \<Rightarrow> Inr s)"

section \<open>State\<close>

datatype 'u timer_functor = Fn_addTimerInLoop nat | Fn_user 'u

record ('u, 'cb) timer_world = "'u timer_functor loop_world" +
  theap :: "nat \<Rightarrow> 'cb Timer option"
  owners :: "nat \<Rightarrow> nat"
  timerfd :: int
  timerfdChannel :: nat
  timers :: "(int \<times> nat) list"
  settime_log :: "timespec list"

type_synonym ('u, 'cb, 'w) tworld = "('u, 'cb, 'w) timer_world_scheme"

definition with_timer :: "nat \<Rightarrow> ('u, 'cb, 'w) tworld \<Rightarrow> ('cb Timer \<Rightarrow> 'a res) \<Rightarrow> 'a res" where
  "with_timer p w k = (case theap w p of None \<Rightarrow> Inl Use_after_free | Some t \<Rightarrow> k t)"

text \<open>The constructor: the channel of the timer descriptor at the address \<open>p\<close>, reading enabled.\<close>

definition TimerQueue_new ::
    "int \<Rightarrow> nat \<Rightarrow> ('u, 'cb, 'w) tworld \<Rightarrow> ('u, 'cb, 'w) tworld res" where
  "TimerQueue_new fd p w =
     enableReading p (put_chan p (Channel_new (ownerLoop w) fd)
       (w\<lparr>timerfd := fd, timerfdChannel := p, timers := []\<rparr>))"

text \<open>
  The destructor deletes what the set points to. Every timer comes from \<open>make_shared\<close>, so such a
  pointer is not one that \<open>delete\<close> may take.
\<close>

definition TimerQueue_delete :: "('u, 'cb, 'w) tworld \<Rightarrow> ('u, 'cb, 'w) tworld res" where
  "TimerQueue_delete w = (if timers w = [] then Inr w else Inl Invalid_free)"

section \<open>Operations\<close>

definition resetTimerfd ::
    "int \<times> int \<Rightarrow> int \<Rightarrow> ('u, 'cb, 'w) tworld \<Rightarrow> ('u, 'cb, 'w) tworld res" where
  "resetTimerfd tv expiry w =
     andthen (howMuchTimeFromNow tv expiry) (\<lambda>ts. Inr (w\<lparr>settime_log := settime_log w @ [ts]\<rparr>))"

definition timer_insert :: "nat \<Rightarrow> ('u, 'cb, 'w) tworld \<Rightarrow> (bool \<times> ('u, 'cb, 'w) tworld) res" where
  "timer_insert p w =
     with_timer p w (\<lambda>t.
       let when_us = expiration t;
           earliestChanged = (timers w = [] \<or> when_us < fst (hd (timers w)))
       in asserting ((when_us, p) \<notin> set (timers w))
            (Inr (earliestChanged, w\<lparr>timers := sset_insert (when_us, p) (timers w)\<rparr>)))"

definition addTimerInLoop ::
    "int \<times> int \<Rightarrow> nat \<Rightarrow> ('u, 'cb, 'w) tworld \<Rightarrow> ('u, 'cb, 'w) tworld res" where
  "addTimerInLoop tv p w =
     andthen (timer_insert p w) (\<lambda>(earliestChanged, w1).
       if earliestChanged then with_timer p w1 (\<lambda>t. resetTimerfd tv (expiration t) w1) else Inr w1)"

text \<open>A \<open>shared_ptr\<close> to the timer is copied, or dies; the last one destroys the timer.\<close>

definition add_owner :: "nat \<Rightarrow> ('u, 'cb, 'w) tworld \<Rightarrow> ('u, 'cb, 'w) tworld" where
  "add_owner p w = w\<lparr>owners := (owners w)(p := owners w p + 1)\<rparr>"

definition drop_owner :: "nat \<Rightarrow> ('u, 'cb, 'w) tworld \<Rightarrow> ('u, 'cb, 'w) tworld" where
  "drop_owner p w =
     (let w1 = w\<lparr>owners := (owners w)(p := owners w p - 1)\<rparr>
      in if owners w1 p = 0 then w1\<lparr>theap := (theap w1)(p := None)\<rparr> else w1)"

text \<open>
  \<open>addTimer\<close>: \<open>make_shared\<close> gives the address \<open>p\<close>. The bound functor owns the timer as well; called at
  once it dies with the statement, queued it lives on in \<open>pendingFunctors_\<close>. The result of the
  function is the first owner.
\<close>

definition addTimer ::
    "int \<Rightarrow> int \<times> int \<Rightarrow> nat \<Rightarrow> 'cb \<Rightarrow> int \<Rightarrow> double \<Rightarrow>
     ('u, 'cb, 'w) tworld \<Rightarrow> ('u, 'cb, 'w) tworld res" where
  "addTimer tid tv p cb when_us ival w =
     (let w1 = add_owner p (w\<lparr>theap := (theap w)(p \<mapsto> Timer_new cb when_us ival), owners := (owners w)(p := 1)\<rparr>)
      in andthen (runInLoop (\<lambda>_. addTimerInLoop tv p) tid (Fn_addTimerInLoop p) w1)
           (\<lambda>w2. Inr (if isInLoopThread tid w1 then drop_owner p w2 else w2)))"

definition timer_exec ::
    "('u \<Rightarrow> ('u, 'cb, 'w) tworld \<Rightarrow> ('u, 'cb, 'w) tworld res) \<Rightarrow> int \<times> int \<Rightarrow>
     'u timer_functor \<Rightarrow> ('u, 'cb, 'w) tworld \<Rightarrow> ('u, 'cb, 'w) tworld res" where
  "timer_exec user tv f w =
     (case f of Fn_addTimerInLoop p \<Rightarrow> addTimerInLoop tv p w | Fn_user u \<Rightarrow> user u w)"

definition timer_destroy ::
    "'u timer_functor \<Rightarrow> ('u, 'cb, 'w) tworld \<Rightarrow> ('u, 'cb, 'w) tworld res" where
  "timer_destroy f w = Inr (case f of Fn_addTimerInLoop p \<Rightarrow> drop_owner p w | Fn_user u \<Rightarrow> w)"

definition UINTPTR_MAX :: nat where "UINTPTR_MAX = 2 ^ 64 - 1"

text \<open>\<open>lower_bound\<close> of a sorted set: the elements from the first one that is not below the key.\<close>

definition lower_bound :: "'a::linorder \<Rightarrow> 'a list \<Rightarrow> 'a list" where
  "lower_bound x xs = dropWhile (\<lambda>y. y < x) xs"

definition getExpired ::
    "int \<Rightarrow> ('u, 'cb, 'w) tworld \<Rightarrow> ((int \<times> nat) list \<times> ('u, 'cb, 'w) tworld) res" where
  "getExpired now w =
     (let sentry = (now, UINTPTR_MAX);
          it = lower_bound sentry (timers w);
          expired = take (length (timers w) - length it) (timers w)
      in asserting (it = [] \<or> now < fst (hd it)) (Inr (expired, w\<lparr>timers := it\<rparr>)))"

definition reset_timer ::
    "(rat \<Rightarrow> double) \<Rightarrow> int \<Rightarrow> int \<times> nat \<Rightarrow> ('u, 'cb, 'w) tworld \<Rightarrow> ('u, 'cb, 'w) tworld res" where
  "reset_timer fl now e w =
     with_timer (snd e) w (\<lambda>t.
       if repeats t
       then andthen (Timer_restart fl now t) (\<lambda>t'.
            andthen (timer_insert (snd e) (w\<lparr>theap := (theap w)(snd e \<mapsto> t')\<rparr>)) (\<lambda>(_, w1). Inr w1))
       else Inl Invalid_free)"

text \<open>\<open>nextExpire\<close> is assigned only when a timer is left.\<close>

definition timer_reset ::
    "(rat \<Rightarrow> double) \<Rightarrow> int \<times> int \<Rightarrow> (int \<times> nat) list \<Rightarrow> int \<Rightarrow>
     ('u, 'cb, 'w) tworld \<Rightarrow> ('u, 'cb, 'w) tworld res" where
  "timer_reset fl tv expired now w =
     andthen (fold_res (reset_timer fl now) expired w) (\<lambda>w1.
       case timers w1 of
         [] \<Rightarrow> Inl Uninitialised
       | e # _ \<Rightarrow> with_timer (snd e) w1 (\<lambda>t.
           if 0 < expiration t then resetTimerfd tv (expiration t) w1 else Inr w1))"

text \<open>\<open>run\<close> is what calling a timer callback does; \<open>tv\<close> and \<open>tv'\<close> are the two clock readings.\<close>

definition run_timer ::
    "('cb \<Rightarrow> ('u, 'cb, 'w) tworld \<Rightarrow> ('u, 'cb, 'w) tworld res) \<Rightarrow> int \<times> nat \<Rightarrow>
     ('u, 'cb, 'w) tworld \<Rightarrow> ('u, 'cb, 'w) tworld res" where
  "run_timer run e w = with_timer (snd e) w (\<lambda>t. run (callback t) w)"

definition timer_handleRead ::
    "('cb \<Rightarrow> ('u, 'cb, 'w) tworld \<Rightarrow> ('u, 'cb, 'w) tworld res) \<Rightarrow> (rat \<Rightarrow> double) \<Rightarrow>
     int \<times> int \<Rightarrow> int \<times> int \<Rightarrow> nat option \<Rightarrow> ('u, 'cb, 'w) tworld \<Rightarrow> ('u, 'cb, 'w) tworld res" where
  "timer_handleRead run fl tv tv' howmany w =
     andthen (Timer_now tv) (\<lambda>now.
     andthen (readTimerfd howmany w) (\<lambda>w0.
     andthen (getExpired now w0) (\<lambda>(expired, w1).
     andthen (fold_res (run_timer run) expired w1) (\<lambda>w2.
     timer_reset fl tv' expired now w2))))"

section \<open>Lemmas\<close>

lemma howMuchTimeFromNow_normal:
  assumes "Timer_now tv = Inr now" and "in_int64 (when_us - now)"
  shows "\<exists>ts. howMuchTimeFromNow tv when_us = Inr ts \<and> 0 \<le> tv_sec ts \<and> 0 \<le> tv_nsec ts \<and>
     tv_nsec ts < 1000000000 \<and> tv_sec ts * 1000000000 + tv_nsec ts = max 100 (when_us - now) * 1000"
proof -
  let ?m = "max 100 (when_us - now)"
  have "howMuchTimeFromNow tv when_us =
      Inr \<lparr>tv_sec = ?m div 1000000, tv_nsec = ?m mod 1000000 * 1000\<rparr>"
    using assms by (auto simp: howMuchTimeFromNow_def kMicroSecondsPerSecond_def Let_def max_def)
  moreover have "0 \<le> ?m div 1000000" by (simp add: pos_imp_zdiv_nonneg_iff)
  moreover have "?m div 1000000 * 1000000000 + ?m mod 1000000 * 1000 = ?m * 1000"
    using div_mult_mod_eq [of ?m 1000000] by linarith
  ultimately show ?thesis using pos_mod_bound [of 1000000 ?m] pos_mod_sign [of 1000000 ?m] by simp
qed

text \<open>The set is sorted, and each entry is the address of a live timer under its expiration.\<close>

definition tq_inv :: "('u, 'cb, 'w) tworld \<Rightarrow> bool" where
  "tq_inv w \<longleftrightarrow> sset_ok (timers w) \<and>
     (\<forall>(e, p) \<in> set (timers w). p < UINTPTR_MAX \<and> (\<exists>t. theap w p = Some t \<and> expiration t = e))"

lemma lower_bound_split:
  fixes now :: int
  assumes "sset_ok xs" and "\<forall>(e, p) \<in> set xs. p < UINTPTR_MAX"
  shows "lower_bound (now, UINTPTR_MAX) xs = filter (\<lambda>(e, p). now < e) xs"
    and "take (length xs - length (lower_bound (now, UINTPTR_MAX) xs)) xs = filter (\<lambda>(e, p). e \<le> now) xs"
proof -
  let ?it = "lower_bound (now, UINTPTR_MAX) xs"
  have below: "e < (now, UINTPTR_MAX) \<longleftrightarrow> fst e \<le> now" if "e \<in> set xs" for e
    using assms(2) that by (cases e) (auto simp: less_prod_def)
  have gt: "now < fst e" if e: "e \<in> set ?it" for e
  proof -
    obtain y ys where it: "?it = y # ys" using e by (cases ?it) auto
    then have "\<not> y < (now, UINTPTR_MAX)" using hd_dropWhile [of "\<lambda>y. y < (now, UINTPTR_MAX)" xs]
      by (simp add: lower_bound_def)
    moreover have "y \<in> set xs" using it set_dropWhileD [of y "\<lambda>y. y < (now, UINTPTR_MAX)" xs]
      by (simp add: lower_bound_def)
    ultimately have y: "now < fst y" using below by auto
    have "sset_ok ?it" using assms(1) by (simp add: lower_bound_def sorted_wrt_dropWhile)
    then have "y \<le> e" using e it by auto
    then have "fst y \<le> fst e" by (cases y, cases e) (auto simp: less_eq_prod_def)
    with y show ?thesis by simp
  qed
  have le: "fst e \<le> now" if "e \<in> set (takeWhile (\<lambda>y. y < (now, UINTPTR_MAX)) xs)" for e
    using set_takeWhileD [OF that] below by blast
  have eq: "xs = takeWhile (\<lambda>y. y < (now, UINTPTR_MAX)) xs @ ?it" by (simp add: lower_bound_def)
  have f: "filter (\<lambda>(e, p). now < e) (takeWhile (\<lambda>y. y < (now, UINTPTR_MAX)) xs) = []"
      "filter (\<lambda>(e, p). e \<le> now) (takeWhile (\<lambda>y. y < (now, UINTPTR_MAX)) xs) =
        takeWhile (\<lambda>y. y < (now, UINTPTR_MAX)) xs"
    using le by (fastforce simp: filter_empty_conv filter_id_conv not_less)+
  have g: "filter (\<lambda>(e, p). now < e) ?it = ?it" "filter (\<lambda>(e, p). e \<le> now) ?it = []"
    using gt by (fastforce simp: filter_empty_conv filter_id_conv not_le)+
  show "?it = filter (\<lambda>(e, p). now < e) xs" by (subst (2) eq) (simp only: filter_append f g append_Nil)
  have "length xs - length ?it = length (takeWhile (\<lambda>y. y < (now, UINTPTR_MAX)) xs)"
    using eq by (metis add_diff_cancel_right' length_append)
  then have "take (length xs - length ?it) xs = takeWhile (\<lambda>y. y < (now, UINTPTR_MAX)) xs"
    using takeWhile_eq_take by metis
  moreover have "filter (\<lambda>(e, p). e \<le> now) xs = takeWhile (\<lambda>y. y < (now, UINTPTR_MAX)) xs"
    by (subst eq) (simp only: filter_append f g append_Nil2)
  ultimately show "take (length xs - length ?it) xs = filter (\<lambda>(e, p). e \<le> now) xs" by simp
qed

lemma getExpired_eq:
  assumes "tq_inv w"
  shows "getExpired now w = Inr (filter (\<lambda>(e, p). e \<le> now) (timers w),
     w\<lparr>timers := filter (\<lambda>(e, p). now < e) (timers w)\<rparr>)"
proof -
  have a: "sset_ok (timers w)" "\<forall>(e, p) \<in> set (timers w). p < UINTPTR_MAX"
    using assms by (auto simp: tq_inv_def)
  note eqs = lower_bound_split [OF a, of now] lower_bound_split(2) [OF a, of now, unfolded lower_bound_split(1) [OF a]]
  have "filter (\<lambda>(e, p). now < e) (timers w) = [] \<or> now < fst (hd (filter (\<lambda>(e, p). now < e) (timers w)))"
    by (cases "filter (\<lambda>(e, p). now < e) (timers w)") (auto simp: filter_eq_Cons_iff)
  then show ?thesis by (simp only: getExpired_def Let_def eqs check_True)
qed

text \<open>
  The periodic timers whose arithmetic stays in range: the expiration lies in the future of the
  epoch and below \<open>2 ^ 62\<close> microseconds, the period below \<open>2 ^ 61\<close>.
\<close>

definition period :: "(rat \<Rightarrow> double) \<Rightarrow> 'cb Timer \<Rightarrow> int res" where
  "period fl t = to_int64 (fl (interval t * of_int kMicroSecondsPerSecond))"

definition periodic :: "(rat \<Rightarrow> double) \<Rightarrow> 'cb Timer \<Rightarrow> bool" where
  "periodic fl t \<longleftrightarrow> repeats t \<and> 0 < expiration t \<and> expiration t < 2 ^ 62 \<and>
     (case period fl t of Inl _ \<Rightarrow> False | Inr d \<Rightarrow> 0 \<le> d \<and> d < 2 ^ 61)"

definition tq_periodic :: "(rat \<Rightarrow> double) \<Rightarrow> ('u, 'cb, 'w) tworld \<Rightarrow> bool" where
  "tq_periodic fl w \<longleftrightarrow> tq_inv w \<and>
     (\<forall>(e, p) \<in> set (timers w). case theap w p of None \<Rightarrow> False | Some t \<Rightarrow> periodic fl t)"

definition next_time :: "(rat \<Rightarrow> double) \<Rightarrow> int \<Rightarrow> ('u, 'cb, 'w) tworld \<Rightarrow> nat \<Rightarrow> int" where
  "next_time fl now w p =
     (case theap w p of None \<Rightarrow> now
      | Some t \<Rightarrow> (case period fl t of Inl _ \<Rightarrow> now | Inr d \<Rightarrow> now + d))"

text \<open>
  What a callback may do to the queue: add timers of its own at fresh addresses. It deletes no
  timer and keeps the queue periodic.
\<close>

definition adds_timers ::
    "(rat \<Rightarrow> double) \<Rightarrow> ('u, 'cb, 'w) tworld \<Rightarrow> ('u, 'cb, 'w) tworld \<Rightarrow> bool" where
  "adds_timers fl w w' \<longleftrightarrow> tq_periodic fl w' \<and> theap w \<subseteq>\<^sub>m theap w' \<and> set (timers w) \<subseteq> set (timers w') \<and>
     (\<forall>(e, p) \<in> set (timers w') - set (timers w). theap w p = None)"

lemma adds_timers_refl: "tq_periodic fl w \<Longrightarrow> adds_timers fl w w"
  by (simp add: adds_timers_def)

lemma adds_timers_old:
  "adds_timers fl w w' \<Longrightarrow> (e, p) \<in> set (timers w') \<Longrightarrow> theap w p \<noteq> None \<Longrightarrow> (e, p) \<in> set (timers w)"
  unfolding adds_timers_def by (auto dest: bspec [where x = "(e, p)"])

lemma adds_timers_trans:
  assumes "adds_timers fl w w1" and "adds_timers fl w1 w2"
  shows "adds_timers fl w w2"
proof -
  have m: "theap w \<subseteq>\<^sub>m theap w1" using assms(1) by (simp add: adds_timers_def)
  have "theap w p = None" if "theap w1 p = None" for p
    using m that by (metis domIff map_le_implies_dom_le subsetD)
  then have "theap w p = None" if "(e, p) \<in> set (timers w2) - set (timers w)" for e p
    using that assms unfolding adds_timers_def by (cases "(e, p) \<in> set (timers w1)") blast+
  moreover have "theap w \<subseteq>\<^sub>m theap w2"
    using assms by (auto simp: adds_timers_def intro: map_le_trans)
  ultimately show ?thesis using assms by (auto simp: adds_timers_def)
qed

lemma run_expired:
  assumes run: "\<And>cb v. tq_periodic fl v \<Longrightarrow> \<exists>v'. run cb v = Inr v' \<and> adds_timers fl v v'"
    and "tq_periodic fl w" and "\<And>e. e \<in> set es \<Longrightarrow> theap w (snd e) \<noteq> None"
  shows "\<exists>w'. fold_res (run_timer run) es w = Inr w' \<and> adds_timers fl w w'"
  using assms(2,3)
proof (induction es arbitrary: w)
  case Nil
  then show ?case by (simp add: adds_timers_refl)
next
  case (Cons e es)
  obtain t where "theap w (snd e) = Some t" using Cons.prems(2) [of e] by auto
  moreover obtain w1 where w1: "run (callback t) w = Inr w1" "adds_timers fl w w1"
    using run Cons.prems(1) by blast
  moreover have "theap w1 (snd e') \<noteq> None" if "e' \<in> set es" for e'
    using w1(2) Cons.prems(2) [of e'] that
    by (auto simp: adds_timers_def dest: map_le_implies_dom_le)
  then obtain w' where "fold_res (run_timer run) es w1 = Inr w'" "adds_timers fl w1 w'"
    using Cons.IH [of w1] w1(2) by (auto simp: adds_timers_def)
  ultimately show ?case
    by (auto simp: run_timer_def [of run e] with_timer_def intro: adds_timers_trans)
qed

lemma reset_timer_periodic:
  assumes "tq_periodic fl w" and "theap w p = Some t" and "periodic fl t" and "p < UINTPTR_MAX"
    and "p \<notin> snd ` set (timers w)" and "0 < now" and "now < 2 ^ 61"
  shows "\<exists>w'. reset_timer fl now (e, p) w = Inr w' \<and> tq_periodic fl w' \<and>
     set (timers w') = insert (next_time fl now w p, p) (set (timers w)) \<and>
     (\<forall>q. q \<noteq> p \<longrightarrow> theap w' q = theap w q) \<and> settime_log w' = settime_log w"
proof -
  obtain d where d: "period fl t = Inr d" "0 \<le> d" "d < 2 ^ 61" and r: "repeats t"
    using assms(3) by (auto simp: periodic_def split: sum.splits)
  let ?t = "t\<lparr>expiration := now + d\<rparr>"
  let ?w = "w\<lparr>theap := (theap w)(p \<mapsto> ?t), timers := sset_insert (now + d, p) (timers w)\<rparr>"
  have range: "in_int64 (now + d)" using d assms(6,7) by (simp add: in_int64_def)
  then have restart: "Timer_restart fl now t = Inr ?t"
    using r d(1) by (simp add: Timer_restart_def period_def)
  have fresh: "(now + d, p) \<notin> set (timers w)" using assms(5) by force
  have eq: "reset_timer fl now (e, p) w = Inr ?w"
    using assms(2) r restart fresh
    by (simp add: reset_timer_def with_timer_def timer_insert_def Let_def)
  have "periodic fl ?t" using assms(3,6,7) d by (auto simp: periodic_def period_def)
  then have "tq_periodic fl ?w"
    using assms(1,4,5) by (force simp: tq_periodic_def tq_inv_def set_sset_insert)
  with eq d(1) assms(2) show ?thesis
    by (intro exI [of _ ?w]) (simp add: set_sset_insert next_time_def)
qed

lemma reset_timers_periodic:
  assumes "tq_periodic fl w" and "distinct (map snd es)" and "0 < now" and "now < 2 ^ 61"
    and "\<And>e p. (e, p) \<in> set es \<Longrightarrow>
       p < UINTPTR_MAX \<and> p \<notin> snd ` set (timers w) \<and> (\<exists>t. theap w p = Some t \<and> periodic fl t)"
  shows "\<exists>w'. fold_res (reset_timer fl now) es w = Inr w' \<and> tq_periodic fl w' \<and>
     set (timers w') = set (timers w) \<union> (\<lambda>(e, p). (next_time fl now w p, p)) ` set es \<and>
     settime_log w' = settime_log w"
  using assms(1,2,5)
proof (induction es arbitrary: w)
  case Nil
  then show ?case by simp
next
  case (Cons x es)
  obtain e p where x: "x = (e, p)" by (cases x)
  from Cons.prems(3) [of e p] x obtain t where
    t: "theap w p = Some t" "periodic fl t" "p < UINTPTR_MAX" "p \<notin> snd ` set (timers w)" by auto
  obtain w1 where w1: "reset_timer fl now (e, p) w = Inr w1" "tq_periodic fl w1"
      "set (timers w1) = insert (next_time fl now w p, p) (set (timers w))"
      "\<forall>q. q \<noteq> p \<longrightarrow> theap w1 q = theap w q" "settime_log w1 = settime_log w"
    using reset_timer_periodic [OF Cons.prems(1) t assms(3,4)] by blast
  have other: "q \<noteq> p" if "(f, q) \<in> set es" for f q
    using Cons.prems(2) x that by force
  have "\<exists>w'. fold_res (reset_timer fl now) es w1 = Inr w' \<and> tq_periodic fl w' \<and>
     set (timers w') = set (timers w1) \<union> (\<lambda>(e, p). (next_time fl now w1 p, p)) ` set es \<and>
     settime_log w' = settime_log w1"
  proof (rule Cons.IH [OF w1(2)])
    show "distinct (map snd es)" using Cons.prems(2) by simp
    show "q < UINTPTR_MAX \<and> q \<notin> snd ` set (timers w1) \<and> (\<exists>t. theap w1 q = Some t \<and> periodic fl t)"
      if "(f, q) \<in> set es" for f q
      using Cons.prems(3) [of f q] that other [OF that] w1(3,4) by auto
  qed
  moreover have "(\<lambda>(e, p). (next_time fl now w1 p, p)) ` set es = (\<lambda>(e, p). (next_time fl now w p, p)) ` set es"
    using other w1(4) by (intro image_cong) (auto simp: next_time_def)
  ultimately show ?case using w1(1,3,5) x by auto
qed

section \<open>Properties\<close>

text \<open>
  \<open>getExpired\<close> moves out exactly the timers whose expiration is not later than \<open>now\<close>, in the
  order of their expirations, and leaves exactly the later ones: the sentry with the largest
  address makes \<open>lower_bound\<close> step over every timer that expires at \<open>now\<close>, so the assertion of
  the function holds. The invariant of the set is kept.
\<close>

theorem getExpired_spec:
  assumes "tq_inv w"
  shows "\<exists>expired w'. getExpired now w = Inr (expired, w') \<and> expired @ timers w' = timers w \<and>
     (\<forall>e \<in> set expired. fst e \<le> now) \<and> (\<forall>e \<in> set (timers w'). now < fst e) \<and> tq_inv w'"
proof -
  have a: "sset_ok (timers w)" "\<forall>(e, p) \<in> set (timers w). p < UINTPTR_MAX"
    using assms by (auto simp: tq_inv_def)
  note eqs = lower_bound_split [OF a, of now]
  have "filter (\<lambda>(e, p). e \<le> now) (timers w) @ filter (\<lambda>(e, p). now < e) (timers w) = timers w"
    unfolding eqs(1) [symmetric] eqs(2) [symmetric]
    by (simp add: lower_bound_def) (metis append_eq_conv_conj length_append add_diff_cancel_right' takeWhile_dropWhile_id)
  moreover have "tq_inv (w\<lparr>timers := filter (\<lambda>(e, p). now < e) (timers w)\<rparr>)"
    using assms by (auto simp: tq_inv_def sorted_wrt_filter)
  ultimately show ?thesis unfolding getExpired_eq [OF assms] by force
qed

definition sample_timers :: "(unit, string) timer_world" where
  "sample_timers = loop_world.extend (fst (EventLoop_new 1 77 (-5) 10 None))
     \<lparr>theap = [20 \<mapsto> Timer_new ''a'' 500 1, 30 \<mapsto> Timer_new ''b'' 900 2],
      owners = (\<lambda>p. if p = 20 \<or> p = 30 then 1 else 0), timerfd = 6, timerfdChannel = 11,
      timers = [(500, 20), (900, 30)], settime_log = []\<rparr>"

lemma sample_timers_fields [simp]:
  "timers sample_timers = [(500, 20), (900, 30)]"
  "theap sample_timers = [20 \<mapsto> Timer_new ''a'' 500 1, 30 \<mapsto> Timer_new ''b'' 900 2]"
  by (simp_all add: sample_timers_def loop_world.defs)

lemma sample_timers_inv: "tq_inv sample_timers"
  by (simp add: tq_inv_def UINTPTR_MAX_def Timer_new_def)

lemma sample_timers_periodic: "tq_periodic (\<lambda>x. x) sample_timers"
  using sample_timers_inv
  by (simp add: tq_periodic_def periodic_def period_def Timer_new_def to_int64_def
      kMicroSecondsPerSecond_def in_int64_def)

theorem getExpired_spec_witness:
  "\<exists>expired w'. getExpired 500 sample_timers = Inr (expired, w') \<and>
     expired @ timers w' = [(500, 20), (900, 30)] \<and> tq_inv w'"
  using getExpired_spec [OF sample_timers_inv, of 500] by auto

text \<open>
  Property C16. A queue of live periodic timers works: whatever timers the callbacks add, \<open>handleRead\<close> succeeds,
  calls the callbacks of the expired timers, puts each of them back at \<open>now\<close> plus its period,
  keeps every other timer, keeps the invariant, and arms the descriptor for the earliest
  timer of the queue with a normalised time of at least 100 microseconds.
\<close>

theorem timer_handleRead_periodic:
  assumes "tq_periodic fl w" and "Timer_now tv = Inr now" and "0 < now" and "now < 2 ^ 61"
    and "Timer_now tv' = Inr now'" and "0 < now'" and "now' < 2 ^ 61" and "timers w \<noteq> []"
    and "\<And>cb v. tq_periodic fl v \<Longrightarrow> \<exists>v'. run cb v = Inr v' \<and> adds_timers fl v v'"
  shows "\<exists>w1 w' ts. fold_res (run_timer run) (filter (\<lambda>(e, p). e \<le> now) (timers w))
        (w\<lparr>timers := filter (\<lambda>(e, p). now < e) (timers w)\<rparr>) = Inr w1 \<and>
     timer_handleRead run fl tv tv' (Some n) w = Inr w' \<and> tq_periodic fl w' \<and>
     set (timers w') = set (timers w1) \<union>
       (\<lambda>(e, p). (next_time fl now w p, p)) ` {(e, p) \<in> set (timers w). e \<le> now} \<and>
     {(e, p) \<in> set (timers w). now < e} \<subseteq> set (timers w1) \<and>
     settime_log w' = settime_log w1 @ [ts] \<and> 0 \<le> tv_nsec ts \<and> tv_nsec ts < 1000000000 \<and>
     tv_sec ts * 1000000000 + tv_nsec ts = max 100 (Min (fst ` set (timers w')) - now') * 1000"
proof -
  let ?es = "filter (\<lambda>(e, p). e \<le> now) (timers w)"
  let ?w0 = "w\<lparr>timers := filter (\<lambda>(e, p). now < e) (timers w)\<rparr>"
  have inv: "tq_inv w" and per: "\<And>e p. (e, p) \<in> set (timers w) \<Longrightarrow> \<exists>t. theap w p = Some t \<and> periodic fl t \<and> expiration t = e"
    using assms(1) by (fastforce simp: tq_periodic_def tq_inv_def split: option.splits)+
  have p0: "tq_periodic fl ?w0"
    using assms(1) by (auto simp: tq_periodic_def tq_inv_def sorted_wrt_filter)
  obtain w1 where w1: "fold_res (run_timer run) ?es ?w0 = Inr w1" "adds_timers fl ?w0 w1"
    using run_expired [OF assms(9) p0, of ?es] per by fastforce
  have live: "theap w1 p = theap w p" if "theap w p \<noteq> None" for p
    using w1(2) that by (auto simp: adds_timers_def map_le_def dom_def)
  have fresh: "p \<notin> snd ` set (timers w1)" if "(e, p) \<in> set ?es" for e p
  proof
    assume "p \<in> snd ` set (timers w1)"
    then obtain f where f: "(f, p) \<in> set (timers w1)" by auto
    moreover have "theap w p \<noteq> None" using per [of e p] that by auto
    ultimately have "(f, p) \<in> set (timers ?w0)" using adds_timers_old [OF w1(2), of f p] by simp
    then have "(f, p) \<in> set (timers w)" "now < f" by auto
    then show False using per [of e p] per [of f p] that by auto
  qed
  have dist: "distinct (map snd ?es)"
  proof -
    have "sset_ok (timers w)" using inv by (simp add: tq_inv_def)
    then have "distinct ?es" by (simp add: strict_sorted_iff)
    moreover have "inj_on snd (set ?es)"
    proof (rule inj_onI)
      fix x y assume "x \<in> set ?es" "y \<in> set ?es" "snd x = snd y"
      then show "x = y" using per [of "fst x" "snd x"] per [of "fst y" "snd y"] by (auto simp: prod_eq_iff)
    qed
    ultimately show ?thesis by (simp add: distinct_map)
  qed
  have es: "p < UINTPTR_MAX \<and> p \<notin> snd ` set (timers w1) \<and> (\<exists>t. theap w1 p = Some t \<and> periodic fl t)"
    if "(e, p) \<in> set ?es" for e p
    using that fresh [OF that] per [of e p] live [of p] inv by (auto simp: tq_inv_def)
  have per1: "tq_periodic fl w1" using w1(2) by (simp add: adds_timers_def)
  obtain w2 where w2: "fold_res (reset_timer fl now) ?es w1 = Inr w2" "tq_periodic fl w2"
      "set (timers w2) = set (timers w1) \<union> (\<lambda>(e, p). (next_time fl now w1 p, p)) ` set ?es"
      "settime_log w2 = settime_log w1"
    using reset_timers_periodic [OF per1 dist assms(3,4)] es by blast
  have nt: "(\<lambda>(e, p). (next_time fl now w1 p, p)) ` set ?es =
      (\<lambda>(e, p). (next_time fl now w p, p)) ` {(e, p) \<in> set (timers w). e \<le> now}"
    using live per by (intro image_cong) (fastforce simp: next_time_def)+
  have sub: "{(e, p) \<in> set (timers w). now < e} \<subseteq> set (timers w1)"
    using w1(2) by (auto simp: adds_timers_def)
  obtain e p rest where hd: "timers w2 = (e, p) # rest"
  proof (cases "timers w2")
    case Nil
    with w2(3) sub nt have "{(e, p) \<in> set (timers w). now < e} = {}" "{(e, p) \<in> set (timers w). e \<le> now} = {}"
      by auto
    with assms(8) show ?thesis by (cases "timers w") (auto simp: not_le)
  qed (use that in \<open>cases "hd (timers w2)", auto\<close>)
  obtain t where t: "theap w2 p = Some t" "expiration t = e" "0 < e" "e < 2 ^ 62"
    using w2(2) hd by (auto simp: tq_periodic_def tq_inv_def periodic_def)
  have "Min (fst ` set (timers w2)) = e"
    using w2(2) hd by (intro Min_eqI) (auto simp: tq_periodic_def tq_inv_def less_prod_def)
  moreover obtain ts where ts: "howMuchTimeFromNow tv' e = Inr ts" "0 \<le> tv_nsec ts"
      "tv_nsec ts < 1000000000" "tv_sec ts * 1000000000 + tv_nsec ts = max 100 (e - now') * 1000"
    using howMuchTimeFromNow_normal [OF assms(5), of e] t assms(6,7) by (auto simp: in_int64_def)
  moreover have "timer_handleRead run fl tv tv' (Some n) w = Inr (w2\<lparr>settime_log := settime_log w2 @ [ts]\<rparr>)"
    using assms(2) w1(1) w2(1) hd t ts(1)
    by (simp add: timer_handleRead_def readTimerfd_def getExpired_eq [OF inv] timer_reset_def
        with_timer_def resetTimerfd_def)
  moreover have "tq_periodic fl (w2\<lparr>settime_log := settime_log w2 @ [ts]\<rparr>)"
    using w2(2) by (simp add: tq_periodic_def tq_inv_def)
  ultimately show ?thesis using w1(1) w2(3,4) sub nt by fastforce
qed

theorem timer_handleRead_periodic_witness:
  "\<exists>w'. timer_handleRead (\<lambda>cb. Inr) (\<lambda>x. x) (0, 600) (0, 650) (Some 1) sample_timers = Inr w' \<and>
     tq_periodic (\<lambda>x. x) w' \<and> set (timers w') = {(1000600, 20), (900, 30)}"
proof -
  have nows: "Timer_now (0, 600) = Inr 600" "Timer_now (0, 650) = Inr 650"
    by (simp_all add: Timer_now_def time_us_def in_int64_def)
  have quiet: "fold_res (run_timer (\<lambda>cb. Inr)) [(500, 20)] (sample_timers\<lparr>timers := [(900, 30)]\<rparr>) =
      Inr (sample_timers\<lparr>timers := [(900, 30)]\<rparr>)"
    by (simp add: run_timer_def with_timer_def)
  have "next_time (\<lambda>x. x) 600 sample_timers 20 = 1000600"
    by (simp add: next_time_def period_def Timer_new_def to_int64_def kMicroSecondsPerSecond_def in_int64_def)
  moreover have "{(e, p). ((e, p) = (500, 20) \<or> (e, p) = (900, 30)) \<and> e \<le> 600} = {(500 :: int, 20 :: nat)}"
    by auto
  ultimately show ?thesis
    using timer_handleRead_periodic [OF sample_timers_periodic nows(1) _ _ nows(2), of "\<lambda>cb. Inr" 1]
      adds_timers_refl [of "\<lambda>x. x"] quiet
    by auto
qed

lemma timer_faults:
  assumes "tq_inv w" and "Timer_now tv = Inr now" and "\<And>cb v. run cb v = Inr v"
  shows "timers w = [] \<Longrightarrow> timer_handleRead run fl tv tv' (Some n) w = Inl Uninitialised"
    and "timers w = (e, p) # rest \<Longrightarrow> e \<le> now \<Longrightarrow> \<not> repeats (the (theap w p)) \<Longrightarrow>
      timer_handleRead run fl tv tv' (Some n) w = Inl Invalid_free"
    and "timers w = (e, p) # rest \<Longrightarrow> e \<le> now \<Longrightarrow> owners w p = 1 \<Longrightarrow>
      timer_handleRead run fl tv tv' (Some n) (drop_owner p w) = Inl Use_after_free"
proof -
  have run: "fold_res (run_timer run) es v = Inr v" if "\<forall>(e, p) \<in> set es. theap v p \<noteq> None"
    for es and v
    using that assms(3) by (induction es) (auto simp: run_timer_def with_timer_def)
  show "timers w = [] \<Longrightarrow> timer_handleRead run fl tv tv' (Some n) w = Inl Uninitialised"
    using assms(2)
    by (simp add: timer_handleRead_def readTimerfd_def getExpired_eq [OF assms(1)] timer_reset_def)
  have live: "\<forall>(e, p) \<in> set (filter (\<lambda>(e, p). e \<le> now) (timers w)). theap w p \<noteq> None"
    using assms(1) by (auto simp: tq_inv_def)
  let ?es = "filter (\<lambda>(e, p). e \<le> now) (timers w)"
  let ?w0 = "w\<lparr>timers := filter (\<lambda>(e, p). now < e) (timers w)\<rparr>"
  have "fold_res (run_timer run) ?es ?w0 = Inr ?w0" using live by (intro run) simp
  then have eq: "timer_handleRead run fl tv tv' (Some n) w = timer_reset fl tv' ?es now ?w0"
    using assms(2) by (simp add: timer_handleRead_def readTimerfd_def getExpired_eq [OF assms(1)])
  show "timer_handleRead run fl tv tv' (Some n) w = Inl Invalid_free"
    if "timers w = (e, p) # rest" "e \<le> now" "\<not> repeats (the (theap w p))"
    unfolding eq using that live by (auto simp: timer_reset_def reset_timer_def with_timer_def)
  assume w: "timers w = (e, p) # rest" "e \<le> now" "owners w p = 1"
  have "getExpired now (drop_owner p w) = map_sum id (map_prod id (drop_owner p)) (getExpired now w)"
    using w by (simp add: getExpired_def drop_owner_def Let_def check_def)
  then show "timer_handleRead run fl tv tv' (Some n) (drop_owner p w) = Inl Use_after_free"
    using assms(2) w
    by (simp add: timer_handleRead_def readTimerfd_def getExpired_eq [OF assms(1)] run_timer_def
        with_timer_def drop_owner_def)
qed

text \<open>
  Property C22. The other queues fault in \<open>handleRead\<close>. An expired one-shot timer is passed to \<open>delete\<close> although
  \<open>make_shared\<close> allocated it; a queue with no timer reads the uninitialised \<open>nextExpire\<close>; and a
  timer whose last \<open>shared_ptr\<close> died, as when the result of \<open>addTimer\<close> is dropped, is used after
  it was freed.
\<close>

theorem timer_handleRead_faults:
  assumes "tq_inv w" and "Timer_now tv = Inr now" and "\<And>cb v. run cb v = Inr v"
  shows "(timers w = [] \<longrightarrow> timer_handleRead run fl tv tv' (Some n) w = Inl Uninitialised) \<and>
    (timers w = (e, p) # rest \<and> e \<le> now \<and> \<not> repeats (the (theap w p)) \<longrightarrow>
      timer_handleRead run fl tv tv' (Some n) w = Inl Invalid_free) \<and>
    (timers w = (e, p) # rest \<and> e \<le> now \<and> owners w p = 1 \<longrightarrow>
      timer_handleRead run fl tv tv' (Some n) (drop_owner p w) = Inl Use_after_free)"
  using timer_faults [where run = run, OF assms] by blast

theorem timer_handleRead_faults_witness:
  "timer_handleRead (\<lambda>cb. Inr) (\<lambda>x. x) (0, 600) (0, 650) (Some 1) (drop_owner 20 sample_timers) =
     Inl Use_after_free \<and>
   timer_handleRead (\<lambda>cb. Inr) (\<lambda>x. x) (0, 600) (0, 650) (Some 1) (sample_timers\<lparr>timers := []\<rparr>) =
     Inl Uninitialised"
proof -
  have now: "Timer_now (0, 600) = Inr 600" by (simp add: Timer_now_def time_us_def in_int64_def)
  have "owners sample_timers 20 = 1" by (simp add: sample_timers_def loop_world.defs)
  moreover have "tq_inv (sample_timers\<lparr>timers := []\<rparr>)" by (simp add: tq_inv_def)
  ultimately show ?thesis
    using timer_handleRead_faults [OF sample_timers_inv now, of "\<lambda>cb. Inr" "\<lambda>x. x" "(0, 650)" 1
        500 20 "[(900, 30)]"]
      timer_handleRead_faults [OF _ now, of "sample_timers\<lparr>timers := []\<rparr>" "\<lambda>cb. Inr"
        "\<lambda>x. x" "(0, 650)" 1]
    by simp
qed

end
