(* ===== verification/Log_Common.thy ===== *)
theory Log_Common
  imports Tractor_Prelude
begin

text \<open>
  The vocabulary of the logging library the server logs with (\<open>include/spdlog\<close>): levels and
  their names (\<open>common.h\<close>, \<open>common-inl.h\<close>), messages (\<open>details/log_msg.h\<close>) and messages that
  own their text (\<open>details/log_msg_buffer.h\<close>), and the broken-down time \<open>std::tm\<close>.
  A time point is the number of nanoseconds since the epoch, the tick of \<open>system_clock\<close>.
\<close>

section \<open>Levels\<close>

datatype level_enum =
    level_trace | level_debug | level_info | level_warn | level_err | level_critical | level_off
  | n_levels

fun level_int :: "level_enum \<Rightarrow> nat" where
  "level_int level_trace = 0"
| "level_int level_debug = 1"
| "level_int level_info = 2"
| "level_int level_warn = 3"
| "level_int level_err = 4"
| "level_int level_critical = 5"
| "level_int level_off = 6"
| "level_int n_levels = 7"

definition level_string_views :: "string list" where
  "level_string_views =
     [''trace'', ''debug'', ''info'', ''warning'', ''error'', ''critical'', ''off'']"

definition short_level_names :: "string list" where
  "short_level_names = [''T'', ''D'', ''I'', ''W'', ''E'', ''C'', ''O'']"

text \<open>An array is indexed by an enumerator, \<open>n_levels\<close> included: that one is out of bounds.\<close>

definition array_at :: "'a list \<Rightarrow> nat \<Rightarrow> 'a res" where
  "array_at xs i = check Bad_access (i < length xs) (Inr (xs ! i))"

definition to_string_view :: "level_enum \<Rightarrow> string res" where
  "to_string_view l = array_at level_string_views (level_int l)"

definition to_short_c_str :: "level_enum \<Rightarrow> string res" where
  "to_short_c_str l = array_at short_level_names (level_int l)"

text \<open>\<open>std::find\<close>: the index of the first equal element.\<close>

fun find_index :: "'a \<Rightarrow> 'a list \<Rightarrow> nat option" where
  "find_index x [] = None"
| "find_index x (y # ys) = (if x = y then Some 0 else map_option Suc (find_index x ys))"

definition level_of_int :: "nat \<Rightarrow> level_enum" where
  "level_of_int n =
     (if n = 0 then level_trace else if n = 1 then level_debug else if n = 2 then level_info
      else if n = 3 then level_warn else if n = 4 then level_err else if n = 5 then level_critical
      else if n = 6 then level_off else n_levels)"

definition from_str :: "string \<Rightarrow> level_enum" where
  "from_str name =
     (case find_index name level_string_views of
        Some i \<Rightarrow> level_of_int i
      | None \<Rightarrow>
          if name = ''warn'' then level_warn
          else if name = ''err'' then level_err
          else level_off)"

text \<open>The names are read back, and everything that is not a name is \<open>off\<close>.\<close>

lemma from_str_name:
  "l \<noteq> n_levels \<Longrightarrow> \<exists>s. to_string_view l = Inr s \<and> from_str s = l"
  by (cases l) (simp_all add: to_string_view_def array_at_def level_string_views_def from_str_def
      level_of_int_def)

lemma to_string_view_Inr: "l \<noteq> n_levels \<Longrightarrow> to_string_view l = Inr (level_string_views ! level_int l)"
  by (cases l) (simp_all add: to_string_view_def array_at_def level_string_views_def)

lemma to_short_c_str_Inr: "l \<noteq> n_levels \<Longrightarrow> to_short_c_str l = Inr (short_level_names ! level_int l)"
  by (cases l) (simp_all add: to_short_c_str_def array_at_def short_level_names_def)

text \<open>Levels are compared as the integers they are.\<close>

lemma level_of_int_inv: "level_of_int (level_int l) = l"
  by (cases l) (simp_all add: level_of_int_def)

instantiation level_enum :: linorder
begin

definition less_eq_level_enum :: "level_enum \<Rightarrow> level_enum \<Rightarrow> bool" where
  "less_eq_level_enum a b \<longleftrightarrow> level_int a \<le> level_int b"

definition less_level_enum :: "level_enum \<Rightarrow> level_enum \<Rightarrow> bool" where
  "less_level_enum a b \<longleftrightarrow> level_int a < level_int b"

instance
proof
  fix a b :: level_enum
  show "a \<le> b \<Longrightarrow> b \<le> a \<Longrightarrow> a = b"
    unfolding less_eq_level_enum_def by (metis level_of_int_inv order_antisym)
qed (auto simp: less_eq_level_enum_def less_level_enum_def)

end

lemmas level_order = less_eq_level_enum_def less_level_enum_def

section \<open>Messages\<close>

text \<open>A null \<open>filename\<close> or \<open>funcname\<close> is \<open>None\<close>.\<close>

record source_loc =
  filename :: "string option"
  line_no :: int
  funcname :: "string option"

definition no_source_loc :: source_loc where
  "no_source_loc = \<lparr>filename = None, line_no = 0, funcname = None\<rparr>"

definition source_loc_empty :: "source_loc \<Rightarrow> bool" where
  "source_loc_empty s \<longleftrightarrow> line_no s = 0"

record log_msg =
  logger_name :: string
  msg_level :: level_enum
  msg_time :: int
  thread_id :: nat
  color_range_start :: nat
  color_range_end :: nat
  msg_source :: source_loc
  payload :: string

definition log_msg_new :: "int \<Rightarrow> nat \<Rightarrow> source_loc \<Rightarrow> string \<Rightarrow> level_enum \<Rightarrow> string \<Rightarrow> log_msg" where
  "log_msg_new log_time tid loc a_logger_name lvl msg =
     \<lparr>logger_name = a_logger_name, msg_level = lvl, msg_time = log_time, thread_id = tid,
      color_range_start = 0, color_range_end = 0, msg_source = loc, payload = msg\<rparr>"

text \<open>
  \<open>log_msg_buffer\<close>: the two string views point into the buffer of the object itself. A view is
  its offset in the buffer and its size; the other fields of the base are those of \<open>lmb_msg\<close>.
\<close>

record log_msg_buffer =
  lmb_msg :: log_msg
  lmb_buffer :: string
  name_view :: "nat \<times> nat"
  payload_view :: "nat \<times> nat"

definition view_text :: "string \<Rightarrow> nat \<times> nat \<Rightarrow> string" where
  "view_text b v = take (snd v) (drop (fst v) b)"

definition update_string_views :: "log_msg_buffer \<Rightarrow> log_msg_buffer" where
  "update_string_views b =
     b\<lparr>name_view := (0, snd (name_view b)),
       payload_view := (snd (name_view b), snd (payload_view b))\<rparr>"

definition log_msg_buffer_of :: "log_msg \<Rightarrow> log_msg_buffer" where
  "log_msg_buffer_of orig_msg = update_string_views
     \<lparr>lmb_msg = orig_msg, lmb_buffer = logger_name orig_msg @ payload orig_msg,
      name_view = (0, length (logger_name orig_msg)), payload_view = (0, length (payload orig_msg))\<rparr>"

text \<open>What a reader of the object sees.\<close>

definition lmb_view :: "log_msg_buffer \<Rightarrow> log_msg" where
  "lmb_view b = (lmb_msg b)\<lparr>logger_name := view_text (lmb_buffer b) (name_view b),
     payload := view_text (lmb_buffer b) (payload_view b)\<rparr>"

definition log_msg_buffer_copy :: "log_msg_buffer \<Rightarrow> log_msg_buffer" where
  "log_msg_buffer_copy other = log_msg_buffer_of (lmb_view other)"

text \<open>
  The move constructor and the two assignments take over the sizes of the views and the buffer;
  the buffer of a moved-from object is empty.
\<close>

definition log_msg_buffer_move :: "log_msg_buffer \<Rightarrow> log_msg_buffer \<times> log_msg_buffer" where
  "log_msg_buffer_move other = (update_string_views other, other\<lparr>lmb_buffer := []\<rparr>)"

definition log_msg_buffer_assign :: "log_msg_buffer \<Rightarrow> log_msg_buffer \<Rightarrow> log_msg_buffer" where
  "log_msg_buffer_assign other b = update_string_views
     (b\<lparr>lmb_msg := lmb_msg other, lmb_buffer := lmb_buffer other, name_view := name_view other,
       payload_view := payload_view other\<rparr>)"

lemma lmb_view_of [simp]: "lmb_view (log_msg_buffer_of m) = m"
  by (simp add: lmb_view_def log_msg_buffer_of_def update_string_views_def view_text_def)

lemma lmb_view_move: "lmb_view (fst (log_msg_buffer_move (log_msg_buffer_of m))) = m"
  by (simp add: lmb_view_def log_msg_buffer_of_def log_msg_buffer_move_def update_string_views_def
      view_text_def)

lemma lmb_view_assign: "lmb_view (log_msg_buffer_assign (log_msg_buffer_of m) b) = m"
  by (simp add: lmb_view_def log_msg_buffer_of_def log_msg_buffer_assign_def update_string_views_def
      view_text_def)

lemma lmb_view_copy [simp]: "lmb_view (log_msg_buffer_copy b) = lmb_view b"
  by (simp add: log_msg_buffer_copy_def)

section \<open>Broken-down time\<close>

definition tm_zero :: tm where
  "tm_zero = \<lparr>tm_sec = 0, tm_min = 0, tm_hour = 0, tm_mday = 0, tm_mon = 0, tm_year = 0, tm_wday = 0,
     tm_yday = 0, tm_isdst = 0, tm_gmtoff = 0\<rparr>"

datatype pattern_time_type = time_local | time_utc

text \<open>
  The ranges \<open>localtime_r\<close> and \<open>gmtime_r\<close> keep, with the years 1900 to 9999 and an offset of
  less than 100 hours.
\<close>

definition tm_ok :: "tm \<Rightarrow> bool" where
  "tm_ok t \<longleftrightarrow> 0 \<le> tm_sec t \<and> tm_sec t \<le> 60 \<and> 0 \<le> tm_min t \<and> tm_min t < 60 \<and>
     0 \<le> tm_hour t \<and> tm_hour t < 24 \<and> 1 \<le> tm_mday t \<and> tm_mday t \<le> 31 \<and>
     0 \<le> tm_mon t \<and> tm_mon t < 12 \<and> 0 \<le> tm_year t \<and> tm_year t \<le> 8099 \<and>
     0 \<le> tm_wday t \<and> tm_wday t < 7 \<and> -360000 < tm_gmtoff t \<and> tm_gmtoff t < 360000"

text \<open>\<open>std::chrono::duration_cast\<close> truncates towards zero.\<close>

definition secs_of :: "int \<Rightarrow> int" where
  "secs_of t = c_div t (10 ^ 9)"

end
