(* ===== verification/Fmt_Helper.thy ===== *)
theory Fmt_Helper
  imports Log_Common
begin

text \<open>
  The integer formatting under the log messages: \<open>details/fmt_helper.h\<close> and the routines of the
  bundled formatting library it calls (\<open>fmt/bundled/format.h\<close>): digit counting by table, decimal
  output two digits at a time, zero padding, and the fraction of a second of a time point.
  \<open>digit_count\<close>, the length of the decimal representation, is the reference of the counting
  routines and \<open>print_int\<close> that of the output.
\<close>

section \<open>Counting digits\<close>

definition digit_count :: "nat \<Rightarrow> nat" where
  "digit_count n = length (dec_digits n)"

text \<open>Four digits per division; the count is an \<open>unsigned int\<close> that stays far below its bound.\<close>

function count_digits_loop :: "nat \<Rightarrow> nat \<Rightarrow> nat" where
  "count_digits_loop n count =
     (if n < 10 then count
      else if n < 100 then count + 1
      else if n < 1000 then count + 2
      else if n < 10000 then count + 3
      else count_digits_loop (n div 10000) (count + 4))"
  by pat_completeness auto

termination count_digits_loop
  by (relation "measure fst") auto

definition count_digits_fallback :: "nat \<Rightarrow> nat" where
  "count_digits_fallback n = count_digits_loop n 1"

text \<open>\<open>__builtin_clz\<close> of a non-zero number of \<open>w\<close> bits.\<close>

fun bsr :: "nat \<Rightarrow> nat" where
  "bsr n = (if n \<le> 1 then 0 else Suc (bsr (n div 2)))"

declare bsr.simps [simp del]
declare count_digits_loop.simps [simp del]

definition builtin_clz :: "nat \<Rightarrow> nat \<Rightarrow> nat" where
  "builtin_clz w n = w - 1 - bsr n"

definition bsr2log10 :: "nat list" where
  "bsr2log10 =
     [1,  1,  1,  2,  2,  2,  3,  3,  3,  4,  4,  4,  4,  5,  5,  5,
      6,  6,  6,  7,  7,  7,  7,  8,  8,  8,  9,  9,  9,  10, 10, 10,
      10, 11, 11, 11, 12, 12, 12, 13, 13, 13, 13, 14, 14, 14, 15, 15,
      15, 16, 16, 16, 16, 17, 17, 17, 18, 18, 18, 19, 19, 19, 19, 20]"

definition powers_of_10 :: "nat \<Rightarrow> nat list" where
  "powers_of_10 factor =
     [factor * 10, factor * 100, factor * 1000, factor * 10000, factor * 100000, factor * 1000000,
      factor * 10000000, factor * 100000000, factor * 1000000000]"

definition zero_or_powers_of_10 :: "nat list" where
  "zero_or_powers_of_10 =
     [0, 0] @ powers_of_10 1 @ powers_of_10 1000000000 @ [10000000000000000000]"

definition do_count_digits64 :: "nat \<Rightarrow> nat" where
  "do_count_digits64 n =
     (let t = bsr2log10 ! (Bit_Operations.xor (builtin_clz 64 (Bit_Operations.or n 1)) 63)
      in t - (if n < zero_or_powers_of_10 ! t then 1 else 0))"

text \<open>\<open>FMT_INC(T)\<close>: the number of characters of the literal \<open>T\<close> in the upper half, less \<open>T\<close>.\<close>

definition fmt_inc :: "nat \<Rightarrow> nat" where
  "fmt_inc T = usize_sub (length (print_nat T) * 2 ^ 32) T"

definition count_table :: "nat list" where
  "count_table = map fmt_inc
     [0, 0, 0, 10, 10, 10, 100, 100, 100, 1000, 1000, 1000, 10000, 10000, 10000,
      100000, 100000, 100000, 1000000, 1000000, 1000000, 10000000, 10000000, 10000000,
      100000000, 100000000, 100000000, 1000000000, 1000000000, 1000000000, 1000000000, 1000000000]"

definition do_count_digits32 :: "nat \<Rightarrow> nat" where
  "do_count_digits32 n =
     (let inc = count_table ! (Bit_Operations.xor (builtin_clz 32 (Bit_Operations.or n 1)) 31)
      in usize_add n inc div 2 ^ 32)"

text \<open>The two instances of \<open>fmt_helper::count_digits\<close>, on \<open>uint32_t\<close> and on \<open>uint64_t\<close>.\<close>

datatype uint_width = U32 | U64

fun uint_max :: "uint_width \<Rightarrow> nat" where
  "uint_max U32 = 2 ^ 32 - 1"
| "uint_max U64 = 2 ^ 64 - 1"

fun count_digits :: "uint_width \<Rightarrow> nat \<Rightarrow> nat" where
  "count_digits U32 n = do_count_digits32 n"
| "count_digits U64 n = do_count_digits64 n"

section \<open>Decimal output\<close>

definition digits2_table :: string where
  "digits2_table =
     ''0001020304050607080910111213141516171819'' @
     ''2021222324252627282930313233343536373839'' @
     ''4041424344454647484950515253545556575859'' @
     ''6061626364656667686970717273747576777879'' @
     ''8081828384858687888990919293949596979899''"

definition digits2 :: "nat \<Rightarrow> string" where
  "digits2 value = take 2 (drop (value * 2) digits2_table)"

text \<open>The digits are written from the end of the buffer towards its front: \<open>acc\<close> is what is there.\<close>

fun format_decimal_loop :: "nat \<Rightarrow> string \<Rightarrow> string" where
  "format_decimal_loop v acc =
     (if 100 \<le> v then format_decimal_loop (v div 100) (digits2 (v mod 100) @ acc)
      else if v < 10 then digit_char v # acc
      else digits2 v @ acc)"

declare format_decimal_loop.simps [simp del]

definition format_decimal :: "uint_width \<Rightarrow> nat \<Rightarrow> nat \<Rightarrow> string res" where
  "format_decimal u v sz = asserting (count_digits u v \<le> sz) (Inr (format_decimal_loop v []))"

text \<open>\<open>digits10\<close> of \<open>unsigned long long\<close> is 19.\<close>

definition format_int_buffer_size :: nat where
  "format_int_buffer_size = 19 + 3"

definition format_unsigned :: "uint_width \<Rightarrow> nat \<Rightarrow> string res" where
  "format_unsigned u v = format_decimal u v (format_int_buffer_size - 1)"

definition format_signed :: "uint_width \<Rightarrow> int \<Rightarrow> string res" where
  "format_signed u v =
     (let m = uint_max u + 1;
          abs_value = nat (v mod int m);
          abs_value = (if v < 0 then (m - abs_value) mod m else abs_value)
      in andthen (format_unsigned u abs_value) (\<lambda>s. Inr (if v < 0 then CHR ''-'' # s else s)))"

text \<open>\<open>append_int\<close> on the signed types (\<open>int\<close>, \<open>long\<close>) and on the unsigned ones.\<close>

definition append_string_view :: "string \<Rightarrow> string \<Rightarrow> string" where
  "append_string_view view dest = dest @ view"

definition append_int :: "uint_width \<Rightarrow> int \<Rightarrow> string \<Rightarrow> string res" where
  "append_int u n dest = andthen (format_signed u n) (\<lambda>s. Inr (dest @ s))"

definition append_uint :: "uint_width \<Rightarrow> nat \<Rightarrow> string \<Rightarrow> string res" where
  "append_uint u n dest = andthen (format_unsigned u n) (\<lambda>s. Inr (dest @ s))"

text \<open>The replacement field \<open>{:02}\<close> pads with zeroes, after the sign, to two characters.\<close>

definition pad2 :: "int \<Rightarrow> string \<Rightarrow> string" where
  "pad2 n dest =
     (if 0 \<le> n \<and> n < 100 then dest @ [digit_char (nat (n div 10)), digit_char (nat (n mod 10))]
      else dest @ print_int0 2 n)"

definition pad_uint :: "uint_width \<Rightarrow> nat \<Rightarrow> nat \<Rightarrow> string \<Rightarrow> string res" where
  "pad_uint u n width dest =
     append_uint u n (dest @ replicate (width - count_digits u n) (CHR ''0''))"

definition pad3 :: "uint_width \<Rightarrow> nat \<Rightarrow> string \<Rightarrow> string res" where
  "pad3 u n dest =
     (if n < 1000
      then Inr (dest @ [digit_char (n div 100), digit_char (n mod 100 div 10), digit_char (n mod 100 mod 10)])
      else append_uint u n dest)"

definition pad6 :: "uint_width \<Rightarrow> nat \<Rightarrow> string \<Rightarrow> string res" where
  "pad6 u n dest = pad_uint u n 6 dest"

definition pad9 :: "uint_width \<Rightarrow> nat \<Rightarrow> string \<Rightarrow> string res" where
  "pad9 u n dest = pad_uint u n 9 dest"

text \<open>
  The fraction of a second, in units of \<open>unit\<close> nanoseconds. A conversion of a negative count to an
  unsigned type wraps around.
\<close>

definition time_fraction :: "int \<Rightarrow> int \<Rightarrow> int" where
  "time_fraction unit tp = c_div tp unit - secs_of tp * (10 ^ 9 div unit)"

definition to_unsigned :: "uint_width \<Rightarrow> int \<Rightarrow> nat" where
  "to_unsigned u n = nat (n mod (int (uint_max u) + 1))"

section \<open>The counting routines count the digits\<close>

lemma digit_count_exact: "10 ^ d \<le> n \<Longrightarrow> n < 10 ^ Suc d \<Longrightarrow> digit_count n = Suc d"
proof (induction d arbitrary: n)
  case 0
  then show ?case by (simp add: digit_count_def dec_digits.simps [of n])
next
  case (Suc d)
  have "(1 :: nat) \<le> 10 ^ d" by simp
  with Suc.prems(1) have "\<not> n < 10" unfolding power_Suc by linarith
  moreover have "10 ^ d \<le> n div 10" using Suc.prems(1) by (simp add: less_eq_div_iff_mult_less_eq mult.commute)
  moreover have "n div 10 < 10 ^ Suc d" using Suc.prems(2) by (simp add: less_mult_imp_div_less mult.commute)
  ultimately have "digit_count (n div 10) = Suc d" using Suc.IH by simp
  with \<open>\<not> n < 10\<close> show ?case by (simp add: digit_count_def dec_digits.simps [of n])
qed

lemma digit_count_small: "n < 10 \<Longrightarrow> digit_count n = 1"
  by (simp add: digit_count_def dec_digits.simps [of n])

lemma digit_count_step: "10 \<le> n \<Longrightarrow> digit_count n = Suc (digit_count (n div 10))"
  by (simp add: digit_count_def dec_digits.simps [of n])

lemma count_digits_loop_eq: "count_digits_loop n (Suc c) = digit_count n + c"
proof (induction n arbitrary: c rule: less_induct)
  case (less n)
  show ?case
  proof (cases "n < 10000")
    case True
    then show ?thesis
      by (auto simp: count_digits_loop.simps [of n] digit_count_small digit_count_step div_mult2_eq [symmetric])
  next
    case False
    then have "digit_count n = 4 + digit_count (n div 10000)"
      by (simp add: digit_count_step [of n] digit_count_step [of "n div 10"] digit_count_step [of "n div 100"]
          digit_count_step [of "n div 1000"] div_mult2_eq [symmetric])
    with False less.IH [of "n div 10000" "4 + c"] show ?thesis
      by (simp add: count_digits_loop.simps [of n])
  qed
qed

lemma count_digits_fallback_eq: "count_digits_fallback n = digit_count n"
  by (simp add: count_digits_fallback_def count_digits_loop_eq [where c = 0, simplified])

lemma bsr_bounds: "0 < n \<Longrightarrow> 2 ^ bsr n \<le> n \<and> n < 2 ^ Suc (bsr n)"
proof (induction n rule: bsr.induct)
  case (1 n)
  show ?case
  proof (cases "n \<le> 1")
    case True
    with "1.prems" show ?thesis by (simp add: bsr.simps [of n])
  next
    case False
    with "1.IH" have "2 ^ bsr (n div 2) \<le> n div 2 \<and> n div 2 < 2 ^ Suc (bsr (n div 2))" by simp
    then have "2 ^ Suc (bsr (n div 2)) \<le> n \<and> n < 2 ^ Suc (Suc (bsr (n div 2)))"
      unfolding power_Suc by linarith
    with False show ?thesis by (simp add: bsr.simps [of n])
  qed
qed

lemma bsr_less: "0 < n \<Longrightarrow> n < 2 ^ w \<Longrightarrow> bsr n < w"
  using bsr_bounds [of n] by (metis le_less_trans power_less_imp_less_exp one_less_numeral_iff semiring_norm(76))

lemma or_1_half:
  "Bit_Operations.or n 1 div 2 = n div 2"
  "0 < Bit_Operations.or n 1"
  "n \<le> Bit_Operations.or n 1"
  for n :: nat
  by (auto simp: or_Suc_0_eq intro: odd_pos)

lemma or_1_less: "n < 2 ^ w \<Longrightarrow> 0 < w \<Longrightarrow> Bit_Operations.or n 1 < (2 ^ w :: nat)"
  by (cases w) (auto simp: or_Suc_0_eq elim!: evenE)

lemma xor_mask_nat:
  fixes j :: nat
  assumes "j < 2 ^ n"
  shows "Bit_Operations.xor j (2 ^ n - 1) = 2 ^ n - 1 - j"
proof -
  let ?m = "2 ^ n - 1 :: nat"
  have jm: "Bit_Operations.and j ?m = j"
    using assms by (metis mask_eq_exp_minus_1 take_bit_eq_mask take_bit_nat_eq_self)
  have "Bit_Operations.and j (Bit_Operations.xor j ?m) = 0"
    by (rule bit_eqI) (metis bit_and_iff bit_xor_iff bit_0_eq bot_apply bot_bool_def jm)
  moreover have "Bit_Operations.or j (Bit_Operations.xor j ?m) = ?m"
    by (rule bit_eqI) (metis bit_and_iff bit_xor_iff bit_or_iff jm)
  ultimately have "j + (Bit_Operations.xor j ?m) = ?m" using disjunctive_add_eq_or [of j "Bit_Operations.xor j ?m"] by simp
  then show ?thesis by simp
qed

lemma table_index:
  assumes "w = 32 \<or> w = 64" and "k < w"
  shows "Bit_Operations.xor (w - 1 - k) (w - 1) = (k :: nat)"
  using assms xor_mask_nat [of "w - 1 - k" 5] xor_mask_nat [of "w - 1 - k" 6] by auto

definition row_ok :: "nat \<Rightarrow> nat \<Rightarrow> bool" where
  "row_ok k t \<longleftrightarrow> 0 < t \<and> 2 ^ Suc k \<le> (10 ^ t :: nat) \<and> (2 \<le> t \<longrightarrow> 0 < k \<and> 10 ^ (t - 2) \<le> (2 ^ k :: nat))"

lemma digit_count_row:
  assumes "row_ok k t" and "k = bsr (Bit_Operations.or n 1)"
  shows "digit_count n = (if 2 \<le> t \<and> n < 10 ^ (t - 1) then t - 1 else t)"
proof -
  let ?m = "Bit_Operations.or n 1"
  have m: "2 ^ k \<le> ?m" "?m < 2 ^ Suc k"
    using bsr_bounds [of ?m] or_1_half(2) [of n] assms(2) by auto
  have upper: "n < 10 ^ t"
    using m(2) or_1_half(3) [of n] assms(1) unfolding row_ok_def by linarith
  show ?thesis
  proof (cases "2 \<le> t")
    case False
    with assms(1) have "t = 1" by (auto simp: row_ok_def)
    with upper show ?thesis by (simp add: digit_count_small)
  next
    case True
    then obtain d where d: "t = Suc (Suc d)" by (metis add_2_eq_Suc le_Suc_ex)
    from True assms(1) obtain j where j: "k = Suc j" by (cases k) (auto simp: row_ok_def)
    with m(1) have "2 ^ j \<le> n div 2" using or_1_half(1) [of n]
      by (metis power_Suc div_le_mono nonzero_mult_div_cancel_left zero_neq_numeral)
    then have "2 ^ k \<le> n" unfolding j power_Suc by linarith
    with assms(1) True d have "10 ^ d \<le> n" by (simp add: row_ok_def)
    with upper d digit_count_exact [of d n] digit_count_exact [of "Suc d" n] show ?thesis by auto
  qed
qed

lemma rows64:
  assumes "k < 64"
  shows "row_ok k (bsr2log10 ! k) \<and>
     zero_or_powers_of_10 ! (bsr2log10 ! k) = (if 2 \<le> bsr2log10 ! k then 10 ^ (bsr2log10 ! k - 1) else 0)"
proof -
  have "list_all (\<lambda>(k, t). row_ok k t \<and>
      zero_or_powers_of_10 ! t = (if 2 \<le> t then 10 ^ (t - 1) else 0)) (zip [0..<64] bsr2log10)"
    by (simp add: row_ok_def bsr2log10_def zero_or_powers_of_10_def powers_of_10_def upt_conv_Cons)
  moreover have "length bsr2log10 = 64" by (simp add: bsr2log10_def)
  ultimately show ?thesis using assms by (auto simp: list_all_length)
qed

definition literals32 :: "nat list" where
  "literals32 = [1, 1, 1, 2, 2, 2, 3, 3, 3, 4, 4, 4, 5, 5, 5, 6, 6, 6, 7, 7, 7, 8, 8, 8, 9, 9, 9,
     10, 10, 10, 10, 10]"

lemma length_literals32 [simp]: "length literals32 = 32"
  by (simp add: literals32_def)

lemma print_nat_power: "length (print_nat (10 ^ d)) = Suc d"
  using digit_count_exact [of d "10 ^ d"] by (simp add: digit_count_def print_nat_def)

lemma count_table_eq:
  "count_table = map (\<lambda>t. t * 2 ^ 32 - (if 2 \<le> t then 10 ^ (t - 1) else 0)) literals32"
proof -
  have inc: "fmt_inc (10 ^ d) = Suc d * 2 ^ 32 - 10 ^ d" if "d \<le> 9" for d
  proof -
    have "(10::nat) ^ d \<le> 10 ^ 9" using that by (intro power_increasing) auto
    moreover have "Suc d * 2 ^ 32 < (2 ^ 64 :: nat)" using that by simp
    ultimately show ?thesis unfolding fmt_inc_def print_nat_power by (intro usize_sub_bounded) auto
  qed
  have "fmt_inc 0 = 2 ^ 32"
    by (simp add: fmt_inc_def print_nat_def dec_digits.simps [of 0] usize_sub_def)
  with inc [of 1] inc [of 2] inc [of 3] inc [of 4] inc [of 5] inc [of 6] inc [of 7] inc [of 8] inc [of 9]
  show ?thesis by (simp add: count_table_def literals32_def)
qed

lemma rows32: "k < 32 \<Longrightarrow> row_ok k (literals32 ! k) \<and> literals32 ! k \<le> 10"
proof -
  have "list_all (\<lambda>(k, t). row_ok k t \<and> t \<le> 10) (zip [0..<32] literals32)"
    by (simp add: row_ok_def literals32_def upt_conv_Cons)
  moreover assume "k < 32"
  ultimately show ?thesis by (auto simp: list_all_length)
qed

lemma carry_div:
  fixes n p t :: nat
  assumes "n < 2 ^ 32" and "p \<le> 2 ^ 32" and "0 < t"
  shows "(n + (t * 2 ^ 32 - p)) div 2 ^ 32 = (if n < p then t - 1 else t)"
proof -
  from assms(3) obtain r where r: "t = Suc r" by (cases t) auto
  have "n + (t * 2 ^ 32 - p) = (if n < p then r * 2 ^ 32 + (2 ^ 32 - (p - n)) else t * 2 ^ 32 + (n - p))"
    using assms(2) unfolding r by auto
  with assms r show ?thesis by (auto simp: div_add1_eq [symmetric])
qed

lemma do_count_digits32_eq:
  assumes "n < 2 ^ 32"
  shows "do_count_digits32 n = digit_count n"
proof -
  let ?m = "Bit_Operations.or n 1"
  let ?t = "literals32 ! bsr ?m"
  let ?p = "if 2 \<le> ?t then 10 ^ (?t - 1) else 0 :: nat"
  have k: "bsr ?m < 32" using or_1_less [OF assms] or_1_half(2) [of n] by (intro bsr_less) simp_all
  then have index: "Bit_Operations.xor (builtin_clz 32 ?m) 31 = bsr ?m"
    using table_index [of 32 "bsr ?m"] by (simp add: builtin_clz_def)
  from rows32 [OF k] have row: "row_ok (bsr ?m) ?t" "?t \<le> 10" by auto
  have inc: "count_table ! bsr ?m = ?t * 2 ^ 32 - ?p"
    using k by (simp add: count_table_eq)
  have "10 ^ (?t - 1) \<le> (10 ^ 9 :: nat)" using row(2) by (intro power_increasing) auto
  then have p: "?p \<le> 2 ^ 32" by simp
  have t: "0 < ?t" using row(1) by (simp add: row_ok_def)
  have "n + (?t * 2 ^ 32 - ?p) < 2 ^ 64" using assms row(2) by auto
  then have "do_count_digits32 n = (n + (?t * 2 ^ 32 - ?p)) div 2 ^ 32"
    unfolding do_count_digits32_def index Let_def inc by (simp only: usize_add_bounded)
  also have "\<dots> = (if n < ?p then ?t - 1 else ?t)" by (rule carry_div [OF assms p t])
  also have "\<dots> = digit_count n" using digit_count_row [OF row(1) refl] by auto
  finally show ?thesis .
qed

lemma do_count_digits64_eq:
  assumes "n < 2 ^ 64"
  shows "do_count_digits64 n = digit_count n"
proof -
  let ?m = "Bit_Operations.or n 1"
  have k: "bsr ?m < 64" using or_1_less [OF assms] or_1_half(2) [of n] by (intro bsr_less) simp_all
  then have index: "Bit_Operations.xor (builtin_clz 64 ?m) 63 = bsr ?m"
    using table_index [of 64 "bsr ?m"] by (simp add: builtin_clz_def)
  from k have row: "row_ok (bsr ?m) (bsr2log10 ! bsr ?m) \<and> zero_or_powers_of_10 ! (bsr2log10 ! bsr ?m) =
      (if 2 \<le> bsr2log10 ! bsr ?m then 10 ^ (bsr2log10 ! bsr ?m - 1) else 0)"
    using rows64 by blast
  then show ?thesis
    unfolding do_count_digits64_def index Let_def using digit_count_row [of _ _ n] by auto
qed

lemma count_digits_eq: "n \<le> uint_max u \<Longrightarrow> count_digits u n = digit_count n"
  by (cases u) (simp_all add: do_count_digits32_eq do_count_digits64_eq)

section \<open>The output routines print the number\<close>

lemma take2_concat:
  "\<forall>x\<in>set xs. length (g x) = 2 \<Longrightarrow> i < length xs \<Longrightarrow>
     take 2 (drop (i * 2) (concat (map g xs))) = g (xs ! i)"
proof (induction xs arbitrary: i)
  case (Cons x xs)
  then show ?case by (cases i) auto
qed simp

lemma digit_chars:
  "digit_char 0 = CHR ''0''" "digit_char (Suc 0) = CHR ''1''" "digit_char 2 = CHR ''2''"
  "digit_char 3 = CHR ''3''" "digit_char 4 = CHR ''4''" "digit_char 5 = CHR ''5''"
  "digit_char 6 = CHR ''6''" "digit_char 7 = CHR ''7''" "digit_char 8 = CHR ''8''"
  "digit_char 9 = CHR ''9''"
  unfolding digit_char_def by code_simp+

lemma digits2_table_eq:
  "digits2_table = concat (map (\<lambda>v. [digit_char (v div 10), digit_char (v mod 10)]) [0..<100])"
  by (simp add: digits2_table_def upt_conv_Cons digit_chars digit_chars(3) [unfolded numeral_2_eq_2])

lemma digits2_eq: "v < 100 \<Longrightarrow> digits2 v = [digit_char (v div 10), digit_char (v mod 10)]"
  unfolding digits2_def digits2_table_eq by (subst take2_concat) auto

lemma print_nat_step: "10 \<le> n \<Longrightarrow> print_nat n = print_nat (n div 10) @ [digit_char (n mod 10)]"
  by (simp add: print_nat_def dec_digits.simps [of n])

lemma print_nat_small: "n < 10 \<Longrightarrow> print_nat n = [digit_char n]"
  by (simp add: print_nat_def dec_digits.simps [of n])

lemma format_decimal_loop_eq: "format_decimal_loop v acc = print_nat v @ acc"
proof (induction v acc rule: format_decimal_loop.induct)
  case (1 v acc)
  show ?case
  proof (cases "100 \<le> v")
    case True
    then have "print_nat v = print_nat (v div 100) @ digits2 (v mod 100)"
      by (simp add: digits2_eq print_nat_step [of v] print_nat_step [of "v div 10"] div_mult2_eq [symmetric]
          mod_mult2_eq [of v 10 10, simplified])
    with "1.IH" True show ?thesis by (simp add: format_decimal_loop.simps [of v])
  next
    case False
    then show ?thesis
      by (simp add: format_decimal_loop.simps [of v] digits2_eq print_nat_small print_nat_step)
  qed
qed

lemma digit_count_le: "n \<le> uint_max u \<Longrightarrow> digit_count n \<le> 20"
proof -
  assume "n \<le> uint_max u"
  then have "n < 10 ^ 20" by (cases u) auto
  then show ?thesis unfolding digit_count_def by (rule length_dec_digits) simp
qed

lemma format_unsigned_eq: "n \<le> uint_max u \<Longrightarrow> format_unsigned u n = Inr (print_nat n)"
  using digit_count_le [of n u]
  by (simp add: format_unsigned_def format_decimal_def count_digits_eq format_int_buffer_size_def
      format_decimal_loop_eq)

text \<open>The range of the signed type of a width.\<close>

definition sint_ok :: "uint_width \<Rightarrow> int \<Rightarrow> bool" where
  "sint_ok u n \<longleftrightarrow> - int (uint_max u div 2) - 1 \<le> n \<and> n \<le> int (uint_max u div 2)"

lemma format_signed_eq: "sint_ok u n \<Longrightarrow> format_signed u n = Inr (print_int n)"
proof -
  assume ok: "sint_ok u n"
  let ?m = "uint_max u + 1"
  have half: "2 * (uint_max u div 2) + 1 = uint_max u" by (cases u) auto
  have "nat \<bar>n\<bar> \<le> uint_max u" using ok half unfolding sint_ok_def by linarith
  moreover have "(if n < 0 then (?m - nat (n mod int ?m)) mod ?m else nat (n mod int ?m)) = nat \<bar>n\<bar>"
  proof (cases "n < 0")
    case True
    have "n mod int ?m = (n + int ?m) mod int ?m" by simp
    also have "\<dots> = n + int ?m" using ok True half unfolding sint_ok_def by (intro mod_pos_pos_trivial) linarith+
    finally show ?thesis using True ok half unfolding sint_ok_def by simp
  next
    case False
    then have "n mod int ?m = n" using ok half unfolding sint_ok_def by (intro mod_pos_pos_trivial) linarith+
    with False show ?thesis by simp
  qed
  ultimately show ?thesis
    unfolding format_signed_def Let_def by (simp add: format_unsigned_eq print_int_def)
qed

lemma append_int_eq: "sint_ok u n \<Longrightarrow> append_int u n d = Inr (d @ print_int n)"
  by (simp add: append_int_def format_signed_eq)

lemma append_uint_eq: "n \<le> uint_max u \<Longrightarrow> append_uint u n d = Inr (d @ print_nat n)"
  by (simp add: append_uint_def format_unsigned_eq)

lemma length_print_nat_eq: "length (print_nat n) = digit_count n"
  by (simp add: print_nat_def digit_count_def)

lemma print_int0_nat: "print_int0 w (int n) = replicate (w - digit_count n) (CHR ''0'') @ print_nat n"
  by (simp add: print_int0_def Let_def length_print_nat_eq)

lemma pad_uint_eq: "n \<le> uint_max u \<Longrightarrow> pad_uint u n w d = Inr (d @ print_int0 w (int n))"
  by (simp add: pad_uint_def append_uint_eq count_digits_eq print_int0_nat)

declare digit_chars(1) [simp]

lemma two_digits: "n < 100 \<Longrightarrow> [digit_char (n div 10), digit_char (n mod 10)] = print_int0 2 (int n)"
  by (cases "n < 10")
    (simp_all add: print_int0_nat digit_count_small digit_count_step print_nat_small print_nat_step
      numeral_2_eq_2)

lemma three_digits:
  "n < 1000 \<Longrightarrow> [digit_char (n div 100), digit_char (n mod 100 div 10), digit_char (n mod 100 mod 10)] =
     print_int0 3 (int n)"
proof -
  assume n: "n < 1000"
  have m: "n mod 100 div 10 = n div 10 mod 10" "n mod 100 mod 10 = n mod 10"
    by (simp_all add: mod_mult2_eq [of n 10 10, simplified])
  show ?thesis
  proof (cases "n < 100")
    case True
    then have "print_int0 3 (int n) = CHR ''0'' # print_int0 2 (int n)"
      using True by (cases "n < 10") (simp_all add: print_int0_nat digit_count_small digit_count_step numeral_3_eq_3 numeral_2_eq_2)
    with True show ?thesis by (simp add: two_digits [symmetric])
  next
    case False
    with n show ?thesis
      unfolding m by (simp add: print_int0_nat digit_count_small digit_count_step print_nat_small
          print_nat_step div_mult2_eq [symmetric])
  qed
qed

lemma pad2_eq: "pad2 n d = d @ print_int0 2 n"
proof (cases "0 \<le> n \<and> n < 100")
  case True
  then obtain k where "n = int k" "k < 100" by (metis nat_0_le of_nat_less_numeral_iff)
  then show ?thesis using two_digits [of k]
    by (simp add: pad2_def nat_div_distrib nat_mod_distrib)
qed (auto simp: pad2_def)

lemma pad3_eq: "n \<le> uint_max u \<Longrightarrow> pad3 u n d = Inr (d @ print_int0 3 (int n))"
proof (cases "n < 1000")
  case False
  then have "3 \<le> digit_count n"
    using digit_count_step [of n] digit_count_step [of "n div 10"] digit_count_step [of "n div 100"]
    by (simp add: div_mult2_eq [symmetric])
  moreover assume "n \<le> uint_max u"
  ultimately show ?thesis using False by (simp add: pad3_def append_uint_eq print_int0_nat)
qed (simp add: pad3_def three_digits)

lemmas fmt_output = append_int_eq append_uint_eq pad_uint_eq pad2_eq pad3_eq pad6_def pad9_def

text \<open>
  Property C24. Integers in log messages. The table-driven digit counters agree with the loop they
  replace and with the number of decimal digits, for every number of their width, and what is
  appended for a signed or an unsigned number is its decimal representation, zero padded on
  the left where a width is given; the assertion on the size of the digit buffer never fails.
\<close>

theorem fmt_integers_correct:
  assumes "n \<le> uint_max u" and "sint_ok u i"
  shows "count_digits u n = digit_count n \<and> count_digits_fallback n = digit_count n \<and>
     append_uint u n d = Inr (d @ print_nat n) \<and> append_int u i d = Inr (d @ print_int i) \<and>
     pad_uint u n w d = Inr (d @ replicate (w - digit_count n) (CHR ''0'') @ print_nat n) \<and>
     pad3 u n d = pad_uint u n 3 d"
  using assms by (simp add: fmt_output count_digits_eq count_digits_fallback_eq print_int0_nat)

theorem fmt_integers_correct_witness:
  "count_digits U64 18446744073709551615 = 20 \<and> count_digits U32 0 = 1 \<and>
   append_int U64 (- 42) ''x'' = Inr ''x-42''"
proof -
  have "digit_count 18446744073709551615 = 20" using digit_count_exact [of 19 18446744073709551615] by simp
  moreover have "print_int (- 42) = ''-42''" unfolding print_int_def by code_simp
  ultimately show ?thesis
    using fmt_integers_correct [of 18446744073709551615 U64 "- 42" "''x''" 0]
      fmt_integers_correct [of 0 U32 0 "''x''" 0]
    by (simp add: sint_ok_def digit_count_small)
qed

end
