(* ===== verification/Pattern_Formatter.thy ===== *)
theory Pattern_Formatter
  imports Fmt_Helper
begin

text \<open>
  The pattern formatter of the logging library (\<open>pattern_formatter.h\<close>, \<open>pattern_formatter-inl.h\<close>):
  padding of fields, one \<open>format\<close> function per flag class, the compiler from a pattern string to a
  list of flag formatters, and the formatter itself with its cached calendar time.
  Flag formatters with state of their own (\<open>z\<close>, elapsed time, the full formatter) are returned
  updated. \<open>localtime_r\<close> and \<open>gmtime_r\<close>, the process id and the custom flag formatters of
  the application are parameters (\<open>fmt_env\<close>). The template parameter \<open>ScopedPadder\<close> is the argument
  \<open>padder\<close>. Time points stay far enough inside their 64 bits for differences not to overflow.
\<close>

section \<open>Padding\<close>

datatype pad_side = pad_left | pad_right | pad_center

record padding_info =
  pad_width :: nat
  side_of :: pad_side
  truncate_it :: bool
  pad_enabled :: bool

definition no_padding :: padding_info where
  "no_padding = \<lparr>pad_width = 0, side_of = pad_left, truncate_it = False, pad_enabled = False\<rparr>"

definition padding_info_new :: "nat \<Rightarrow> pad_side \<Rightarrow> bool \<Rightarrow> padding_info" where
  "padding_info_new width side tr =
     \<lparr>pad_width = width, side_of = side, truncate_it = tr, pad_enabled = True\<rparr>"

text \<open>The spaces come from a literal of 64 characters.\<close>

definition pad_it :: "int \<Rightarrow> string \<Rightarrow> string res" where
  "pad_it n dest = check Bad_access (n \<le> 64) (Inr (append_string_view (replicate (nat n) (CHR '' '')) dest))"

text \<open>Constructor and destructor of \<open>scoped_padder\<close>, with \<open>remaining_pad_\<close> passed from one to the other.\<close>

definition scoped_padder_begin :: "nat \<Rightarrow> padding_info \<Rightarrow> string \<Rightarrow> (string \<times> int) res" where
  "scoped_padder_begin wrapped_size p dest =
     (let remaining = int (pad_width p) - int wrapped_size
      in if remaining \<le> 0 then Inr (dest, remaining)
         else if side_of p = pad_left then andthen (pad_it remaining dest) (\<lambda>d. Inr (d, 0))
         else if side_of p = pad_center then
           (let half_pad = remaining div 2; reminder = remaining mod 2
            in andthen (pad_it half_pad dest) (\<lambda>d. Inr (d, half_pad + reminder)))
         else Inr (dest, remaining))"

text \<open>A negative new size becomes an enormous unsigned one, which cannot be allocated.\<close>

definition buf_resize :: "int \<Rightarrow> string \<Rightarrow> string res" where
  "buf_resize n dest = check Bad_alloc (0 \<le> n) (Inr (take (nat n) dest))"

definition scoped_padder_end :: "padding_info \<Rightarrow> int \<Rightarrow> string \<Rightarrow> string res" where
  "scoped_padder_end p remaining dest =
     (if 0 \<le> remaining then pad_it remaining dest
      else if truncate_it p then buf_resize (int (length dest) + remaining) dest
      else Inr dest)"

datatype padder = Scoped | Null

fun with_padder :: "padder \<Rightarrow> nat \<Rightarrow> padding_info \<Rightarrow> (string \<Rightarrow> string res) \<Rightarrow> string \<Rightarrow> string res" where
  "with_padder Scoped wrapped_size p body dest =
     andthen (scoped_padder_begin wrapped_size p dest)
       (\<lambda>(d, remaining). andthen (body d) (scoped_padder_end p remaining))"
| "with_padder Null wrapped_size p body dest = body dest"

fun padder_count_digits :: "padder \<Rightarrow> uint_width \<Rightarrow> nat \<Rightarrow> nat" where
  "padder_count_digits Scoped u n = count_digits u n"
| "padder_count_digits Null u n = 0"

section \<open>Flag formatters\<close>

text \<open>A text of known size, and a body built from pieces.\<close>

definition padded_text :: "padder \<Rightarrow> padding_info \<Rightarrow> string \<Rightarrow> string \<Rightarrow> string res" where
  "padded_text P p s dest = with_padder P (length s) p (\<lambda>d. Inr (append_string_view s d)) dest"

definition push_back :: "char \<Rightarrow> string \<Rightarrow> string" where
  "push_back c dest = dest @ [c]"

definition name_formatter_format :: "padder \<Rightarrow> padding_info \<Rightarrow> log_msg \<Rightarrow> string \<Rightarrow> string res" where
  "name_formatter_format P p m dest = padded_text P p (logger_name m) dest"

definition level_formatter_format :: "padder \<Rightarrow> padding_info \<Rightarrow> log_msg \<Rightarrow> string \<Rightarrow> string res" where
  "level_formatter_format P p m dest =
     andthen (to_string_view (msg_level m)) (\<lambda>level_name. padded_text P p level_name dest)"

definition short_level_formatter_format :: "padder \<Rightarrow> padding_info \<Rightarrow> log_msg \<Rightarrow> string \<Rightarrow> string res" where
  "short_level_formatter_format P p m dest =
     andthen (to_short_c_str (msg_level m)) (\<lambda>level_name. padded_text P p level_name dest)"

definition ampm :: "tm \<Rightarrow> string" where
  "ampm t = (if 12 \<le> tm_hour t then ''PM'' else ''AM'')"

definition to12h :: "tm \<Rightarrow> int" where
  "to12h t = (if 12 < tm_hour t then tm_hour t - 12 else tm_hour t)"

definition days :: "string list" where
  "days = [''Sun'', ''Mon'', ''Tue'', ''Wed'', ''Thu'', ''Fri'', ''Sat'']"

definition full_days :: "string list" where
  "full_days =
     [''Sunday'', ''Monday'', ''Tuesday'', ''Wednesday'', ''Thursday'', ''Friday'', ''Saturday'']"

definition months :: "string list" where
  "months = [''Jan'', ''Feb'', ''Mar'', ''Apr'', ''May'', ''Jun'', ''Jul'', ''Aug'', ''Sept'', ''Oct'',
     ''Nov'', ''Dec'']"

definition full_months :: "string list" where
  "full_months = [''January'', ''February'', ''March'', ''April'', ''May'', ''June'', ''July'', ''August'',
     ''September'', ''October'', ''November'', ''December'']"

text \<open>An array indexed by a member of \<open>tm\<close>, converted to \<open>size_t\<close>.\<close>

definition tm_name :: "string list \<Rightarrow> int \<Rightarrow> string res" where
  "tm_name xs i = array_at xs (to_unsigned U64 i)"

definition a_formatter_format :: "padder \<Rightarrow> padding_info \<Rightarrow> tm \<Rightarrow> string \<Rightarrow> string res" where
  "a_formatter_format P p t dest = andthen (tm_name days (tm_wday t)) (\<lambda>s. padded_text P p s dest)"

definition A_formatter_format :: "padder \<Rightarrow> padding_info \<Rightarrow> tm \<Rightarrow> string \<Rightarrow> string res" where
  "A_formatter_format P p t dest = andthen (tm_name full_days (tm_wday t)) (\<lambda>s. padded_text P p s dest)"

definition b_formatter_format :: "padder \<Rightarrow> padding_info \<Rightarrow> tm \<Rightarrow> string \<Rightarrow> string res" where
  "b_formatter_format P p t dest = andthen (tm_name months (tm_mon t)) (\<lambda>s. padded_text P p s dest)"

definition B_formatter_format :: "padder \<Rightarrow> padding_info \<Rightarrow> tm \<Rightarrow> string \<Rightarrow> string res" where
  "B_formatter_format P p t dest = andthen (tm_name full_months (tm_mon t)) (\<lambda>s. padded_text P p s dest)"

text \<open>\<open>tm_year + 1900\<close> is an \<open>int\<close> addition.\<close>

definition year_1900 :: "tm \<Rightarrow> int res" where
  "year_1900 t = check Int_overflow (tm_year t + 1900 < 2 ^ 31) (Inr (tm_year t + 1900))"

definition c_formatter_format :: "padder \<Rightarrow> padding_info \<Rightarrow> tm \<Rightarrow> string \<Rightarrow> string res" where
  "c_formatter_format P p t dest = with_padder P 24 p (\<lambda>d.
     andthen (tm_name days (tm_wday t)) (\<lambda>day.
     andthen (tm_name months (tm_mon t)) (\<lambda>mon.
     andthen (append_int U32 (tm_mday t)
       (push_back (CHR '' '') (append_string_view mon (push_back (CHR '' '') (append_string_view day d)))))
       (\<lambda>d. let d = push_back (CHR '' '') d;
                d = push_back (CHR '':'') (pad2 (tm_hour t) d);
                d = push_back (CHR '':'') (pad2 (tm_min t) d);
                d = push_back (CHR '' '') (pad2 (tm_sec t) d)
            in andthen (year_1900 t) (\<lambda>y. append_int U32 y d))))) dest"

definition C_formatter_format :: "padder \<Rightarrow> padding_info \<Rightarrow> tm \<Rightarrow> string \<Rightarrow> string res" where
  "C_formatter_format P p t dest = with_padder P 2 p (\<lambda>d. Inr (pad2 (c_mod (tm_year t) 100) d)) dest"

definition D_formatter_format :: "padder \<Rightarrow> padding_info \<Rightarrow> tm \<Rightarrow> string \<Rightarrow> string res" where
  "D_formatter_format P p t dest = with_padder P 10 p (\<lambda>d.
     let d = push_back (CHR ''/'') (pad2 (tm_mon t + 1) d);
         d = push_back (CHR ''/'') (pad2 (tm_mday t) d)
     in Inr (pad2 (c_mod (tm_year t) 100) d)) dest"

definition Y_formatter_format :: "padder \<Rightarrow> padding_info \<Rightarrow> tm \<Rightarrow> string \<Rightarrow> string res" where
  "Y_formatter_format P p t dest = with_padder P 4 p (\<lambda>d.
     andthen (year_1900 t) (\<lambda>y. append_int U32 y d)) dest"

definition m_formatter_format :: "padder \<Rightarrow> padding_info \<Rightarrow> tm \<Rightarrow> string \<Rightarrow> string res" where
  "m_formatter_format P p t dest = with_padder P 2 p (\<lambda>d. Inr (pad2 (tm_mon t + 1) d)) dest"

definition d_formatter_format :: "padder \<Rightarrow> padding_info \<Rightarrow> tm \<Rightarrow> string \<Rightarrow> string res" where
  "d_formatter_format P p t dest = with_padder P 2 p (\<lambda>d. Inr (pad2 (tm_mday t) d)) dest"

definition H_formatter_format :: "padder \<Rightarrow> padding_info \<Rightarrow> tm \<Rightarrow> string \<Rightarrow> string res" where
  "H_formatter_format P p t dest = with_padder P 2 p (\<lambda>d. Inr (pad2 (tm_hour t) d)) dest"

definition I_formatter_format :: "padder \<Rightarrow> padding_info \<Rightarrow> tm \<Rightarrow> string \<Rightarrow> string res" where
  "I_formatter_format P p t dest = with_padder P 2 p (\<lambda>d. Inr (pad2 (to12h t) d)) dest"

definition M_formatter_format :: "padder \<Rightarrow> padding_info \<Rightarrow> tm \<Rightarrow> string \<Rightarrow> string res" where
  "M_formatter_format P p t dest = with_padder P 2 p (\<lambda>d. Inr (pad2 (tm_min t) d)) dest"

definition S_formatter_format :: "padder \<Rightarrow> padding_info \<Rightarrow> tm \<Rightarrow> string \<Rightarrow> string res" where
  "S_formatter_format P p t dest = with_padder P 2 p (\<lambda>d. Inr (pad2 (tm_sec t) d)) dest"

text \<open>Fractions of a second: the units of \<open>e\<close>, \<open>f\<close> and \<open>F\<close> are 1000000, 1000 and 1 nanoseconds.\<close>

definition e_formatter_format :: "padder \<Rightarrow> padding_info \<Rightarrow> log_msg \<Rightarrow> string \<Rightarrow> string res" where
  "e_formatter_format P p m dest =
     (let millis = time_fraction 1000000 (msg_time m)
      in with_padder P 3 p (pad3 U32 (to_unsigned U32 millis)) dest)"

definition f_formatter_format :: "padder \<Rightarrow> padding_info \<Rightarrow> log_msg \<Rightarrow> string \<Rightarrow> string res" where
  "f_formatter_format P p m dest =
     (let micros = time_fraction 1000 (msg_time m)
      in with_padder P 6 p (pad6 U64 (to_unsigned U64 micros)) dest)"

definition F_formatter_format :: "padder \<Rightarrow> padding_info \<Rightarrow> log_msg \<Rightarrow> string \<Rightarrow> string res" where
  "F_formatter_format P p m dest =
     (let ns = time_fraction 1 (msg_time m)
      in with_padder P 9 p (pad9 U64 (to_unsigned U64 ns)) dest)"

definition E_formatter_format :: "padder \<Rightarrow> padding_info \<Rightarrow> log_msg \<Rightarrow> string \<Rightarrow> string res" where
  "E_formatter_format P p m dest =
     with_padder P 10 p (\<lambda>d. append_int U64 (secs_of (msg_time m)) d) dest"

definition p_formatter_format :: "padder \<Rightarrow> padding_info \<Rightarrow> tm \<Rightarrow> string \<Rightarrow> string res" where
  "p_formatter_format P p t dest = with_padder P 2 p (\<lambda>d. Inr (append_string_view (ampm t) d)) dest"

definition r_formatter_format :: "padder \<Rightarrow> padding_info \<Rightarrow> tm \<Rightarrow> string \<Rightarrow> string res" where
  "r_formatter_format P p t dest = with_padder P 11 p (\<lambda>d.
     let d = push_back (CHR '':'') (pad2 (to12h t) d);
         d = push_back (CHR '':'') (pad2 (tm_min t) d);
         d = push_back (CHR '' '') (pad2 (tm_sec t) d)
     in Inr (append_string_view (ampm t) d)) dest"

definition R_formatter_format :: "padder \<Rightarrow> padding_info \<Rightarrow> tm \<Rightarrow> string \<Rightarrow> string res" where
  "R_formatter_format P p t dest = with_padder P 5 p (\<lambda>d.
     Inr (pad2 (tm_min t) (push_back (CHR '':'') (pad2 (tm_hour t) d)))) dest"

definition T_formatter_format :: "padder \<Rightarrow> padding_info \<Rightarrow> tm \<Rightarrow> string \<Rightarrow> string res" where
  "T_formatter_format P p t dest = with_padder P 8 p (\<lambda>d.
     let d = push_back (CHR '':'') (pad2 (tm_hour t) d);
         d = push_back (CHR '':'') (pad2 (tm_min t) d)
     in Inr (pad2 (tm_sec t) d)) dest"

text \<open>The offset from UTC, looked up again when ten seconds have passed since the last look-up.\<close>

definition utc_minutes_offset :: "tm \<Rightarrow> int" where
  "utc_minutes_offset t = to_int32 (c_div (tm_gmtoff t) 60)"

definition get_cached_offset :: "log_msg \<Rightarrow> tm \<Rightarrow> int \<times> int \<Rightarrow> int \<times> int" where
  "get_cached_offset m t = (\<lambda>(last_update, offset_minutes).
     if 10 * 10 ^ 9 \<le> msg_time m - last_update then (msg_time m, utc_minutes_offset t)
     else (last_update, offset_minutes))"

definition z_formatter_format ::
  "padder \<Rightarrow> padding_info \<Rightarrow> int \<times> int \<Rightarrow> log_msg \<Rightarrow> tm \<Rightarrow> string \<Rightarrow> ((int \<times> int) \<times> string) res" where
  "z_formatter_format P p cache m t dest =
     (let cache' = get_cached_offset m t cache; total_minutes = snd cache'
      in andthen (with_padder P 6 p (\<lambda>d.
           andthen (if total_minutes < 0
                    then check Int_overflow (- total_minutes < 2 ^ 31) (Inr (- total_minutes, push_back (CHR ''-'') d))
                    else Inr (total_minutes, push_back (CHR ''+'') d))
             (\<lambda>(mins, d). Inr (pad2 (c_mod mins 60) (push_back (CHR '':'') (pad2 (c_div mins 60) d))))) dest)
         (\<lambda>d. Inr (cache', d)))"

definition t_formatter_format :: "padder \<Rightarrow> padding_info \<Rightarrow> log_msg \<Rightarrow> string \<Rightarrow> string res" where
  "t_formatter_format P p m dest =
     with_padder P (padder_count_digits P U64 (thread_id m)) p (append_uint U64 (thread_id m)) dest"

definition pid_formatter_format :: "padder \<Rightarrow> padding_info \<Rightarrow> int \<Rightarrow> string \<Rightarrow> string res" where
  "pid_formatter_format P p os_pid dest =
     (let pid = to_unsigned U32 os_pid
      in with_padder P (padder_count_digits P U32 pid) p (append_uint U32 pid) dest)"

definition v_formatter_format :: "padder \<Rightarrow> padding_info \<Rightarrow> log_msg \<Rightarrow> string \<Rightarrow> string res" where
  "v_formatter_format P p m dest = padded_text P p (payload m) dest"

definition ch_formatter_format :: "char \<Rightarrow> string \<Rightarrow> string res" where
  "ch_formatter_format ch dest = Inr (push_back ch dest)"

definition aggregate_formatter_format :: "string \<Rightarrow> string \<Rightarrow> string res" where
  "aggregate_formatter_format str dest = Inr (append_string_view str dest)"

text \<open>The two color flags write into the mutable members of the message.\<close>

definition color_start_formatter_format :: "log_msg \<Rightarrow> string \<Rightarrow> log_msg" where
  "color_start_formatter_format m dest = m\<lparr>color_range_start := length dest\<rparr>"

definition color_stop_formatter_format :: "log_msg \<Rightarrow> string \<Rightarrow> log_msg" where
  "color_stop_formatter_format m dest = m\<lparr>color_range_end := length dest\<rparr>"

text \<open>A C string is dereferenced.\<close>

definition with_cstr :: "string option \<Rightarrow> (string \<Rightarrow> 'a res) \<Rightarrow> 'a res" where
  "with_cstr s k = (case s of None \<Rightarrow> Inl Null_deref | Some s \<Rightarrow> k s)"

definition source_location_formatter_format :: "padder \<Rightarrow> padding_info \<Rightarrow> log_msg \<Rightarrow> string \<Rightarrow> string res" where
  "source_location_formatter_format P p m dest =
     (let s = msg_source m
      in if source_loc_empty s then with_padder P 0 p Inr dest
         else with_cstr (filename s) (\<lambda>f.
           let text_size =
             (if pad_enabled p
              then length f + padder_count_digits P U32 (to_unsigned U32 (line_no s)) + 1 else 0)
           in with_padder P text_size p
                (\<lambda>d. append_int U32 (line_no s) (push_back (CHR '':'') (append_string_view f d))) dest))"

definition source_filename_formatter_format :: "padder \<Rightarrow> padding_info \<Rightarrow> log_msg \<Rightarrow> string \<Rightarrow> string res" where
  "source_filename_formatter_format P p m dest =
     (if source_loc_empty (msg_source m) then with_padder P 0 p Inr dest
      else with_cstr (filename (msg_source m)) (\<lambda>f.
        let text_size = (if pad_enabled p then length f else 0)
        in with_padder P text_size p (\<lambda>d. Inr (append_string_view f d)) dest))"

text \<open>\<open>basename\<close>: what follows the last slash.\<close>

definition basename :: "string \<Rightarrow> string" where
  "basename f = rev (takeWhile (\<lambda>c. c \<noteq> CHR ''/'') (rev f))"

definition short_filename_formatter_format :: "padder \<Rightarrow> padding_info \<Rightarrow> log_msg \<Rightarrow> string \<Rightarrow> string res" where
  "short_filename_formatter_format P p m dest =
     (if source_loc_empty (msg_source m) then with_padder P 0 p Inr dest
      else with_cstr (filename (msg_source m)) (\<lambda>f.
        let f = basename f; text_size = (if pad_enabled p then length f else 0)
        in with_padder P text_size p (\<lambda>d. Inr (append_string_view f d)) dest))"

definition source_linenum_formatter_format :: "padder \<Rightarrow> padding_info \<Rightarrow> log_msg \<Rightarrow> string \<Rightarrow> string res" where
  "source_linenum_formatter_format P p m dest =
     (let s = msg_source m
      in if source_loc_empty s then with_padder P 0 p Inr dest
         else with_padder P (padder_count_digits P U32 (to_unsigned U32 (line_no s))) p
           (append_int U32 (line_no s)) dest)"

definition source_funcname_formatter_format :: "padder \<Rightarrow> padding_info \<Rightarrow> log_msg \<Rightarrow> string \<Rightarrow> string res" where
  "source_funcname_formatter_format P p m dest =
     (if source_loc_empty (msg_source m) then with_padder P 0 p Inr dest
      else with_cstr (funcname (msg_source m)) (\<lambda>f.
        let text_size = (if pad_enabled p then length f else 0)
        in with_padder P text_size p (\<lambda>d. Inr (append_string_view f d)) dest))"

text \<open>Elapsed time in units of \<open>unit\<close> nanoseconds since the last message, whose time is kept.\<close>

definition elapsed_formatter_format ::
  "padder \<Rightarrow> padding_info \<Rightarrow> int \<Rightarrow> int \<Rightarrow> log_msg \<Rightarrow> string \<Rightarrow> (int \<times> string) res" where
  "elapsed_formatter_format P p unit last_message_time m dest =
     (let delta = max (msg_time m - last_message_time) 0;
          delta_count = to_unsigned U64 (c_div delta unit);
          n_digits = padder_count_digits P U64 delta_count
      in andthen (with_padder P n_digits p (append_uint U64 delta_count) dest) (\<lambda>d. Inr (msg_time m, d)))"

text \<open>The full formatter; the text of the date is kept for the messages of the same second.\<close>

definition full_datetime :: "tm \<Rightarrow> string res" where
  "full_datetime t =
     andthen (year_1900 t) (\<lambda>y. andthen (append_int U32 y (push_back (CHR ''['') []))
       (\<lambda>d. let d = push_back (CHR ''-'') d;
                d = push_back (CHR ''-'') (pad2 (tm_mon t + 1) d);
                d = push_back (CHR '' '') (pad2 (tm_mday t) d);
                d = push_back (CHR '':'') (pad2 (tm_hour t) d);
                d = push_back (CHR '':'') (pad2 (tm_min t) d)
            in Inr (push_back (CHR ''.'') (pad2 (tm_sec t) d))))"

definition full_source :: "log_msg \<Rightarrow> string \<Rightarrow> string res" where
  "full_source m d =
     (if source_loc_empty (msg_source m) then Inr d
      else with_cstr (filename (msg_source m)) (\<lambda>f.
        andthen (append_int U32 (line_no (msg_source m))
            (push_back (CHR '':'') (append_string_view (basename f) (push_back (CHR ''['') d))))
          (\<lambda>d. Inr (push_back (CHR '' '') (push_back (CHR '']'') d)))))"

definition full_formatter_format ::
  "int \<times> string \<Rightarrow> log_msg \<Rightarrow> tm \<Rightarrow> string \<Rightarrow> ((int \<times> string) \<times> log_msg \<times> string) res" where
  "full_formatter_format cache m t dest =
     (let secs = secs_of (msg_time m)
      in andthen (if fst cache \<noteq> secs \<or> length (snd cache) = 0
                  then andthen (full_datetime t) (\<lambda>s. Inr (secs, s)) else Inr cache)
         (\<lambda>cache'. andthen (pad3 U32 (to_unsigned U32 (time_fraction 1000000 (msg_time m))) (dest @ snd cache'))
         (\<lambda>d. let d = push_back (CHR '' '') (push_back (CHR '']'') d);
                  d = (if 0 < length (logger_name m)
                       then push_back (CHR '' '') (push_back (CHR '']'')
                         (append_string_view (logger_name m) (push_back (CHR ''['') d))) else d);
                  d = push_back (CHR ''['') d;
                  m = m\<lparr>color_range_start := length d\<rparr>
              in andthen (to_string_view (msg_level m)) (\<lambda>level_name.
                 let d = append_string_view level_name d;
                     m = m\<lparr>color_range_end := length d\<rparr>;
                     d = push_back (CHR '' '') (push_back (CHR '']'') d)
                 in andthen (full_source m d) (\<lambda>d.
                    Inr (cache', m, append_string_view (payload m) d))))))"

section \<open>The classes of flag formatters\<close>

datatype flag_class =
    name_formatter | level_formatter | short_level_formatter | a_formatter
  | A_formatter | b_formatter | B_formatter | c_formatter
  | C_formatter | D_formatter | Y_formatter | m_formatter
  | d_formatter | H_formatter | I_formatter | M_formatter
  | S_formatter | e_formatter | f_formatter | F_formatter
  | E_formatter | p_formatter | r_formatter | R_formatter
  | T_formatter | t_formatter | pid_formatter | v_formatter
  | source_location_formatter | source_filename_formatter | short_filename_formatter | source_linenum_formatter
  | source_funcname_formatter

text \<open>A flag of one of these classes, or of a class with members of its own.\<close>

datatype 'c flag_formatter =
    Flag flag_class padder padding_info
  | z_formatter padder padding_info "int \<times> int"
  | ch_formatter char
  | aggregate_formatter string
  | color_start_formatter padding_info
  | color_stop_formatter padding_info
  | elapsed_formatter padder padding_info int int
  | full_formatter padding_info "int \<times> string"
  | custom_formatter 'c padding_info

text \<open>
  The environment: the calendar functions of the C library, as functions of a \<open>time_t\<close>, the
  process id, and \<open>format\<close> of the custom flag formatters.
\<close>

record 'c fmt_env =
  get_tm :: "pattern_time_type \<Rightarrow> int \<Rightarrow> tm"
  os_pid :: int
  custom_format ::
    "'c \<Rightarrow> padding_info \<Rightarrow> log_msg \<Rightarrow> tm \<Rightarrow> string \<Rightarrow> ('c \<times> log_msg \<times> string) res"

fun class_format :: "'c fmt_env \<Rightarrow> flag_class \<Rightarrow> padder \<Rightarrow> padding_info \<Rightarrow> log_msg \<Rightarrow> tm \<Rightarrow> string \<Rightarrow> string res" where
  "class_format E name_formatter P p m t d = name_formatter_format P p m d"
| "class_format E level_formatter P p m t d = level_formatter_format P p m d"
| "class_format E short_level_formatter P p m t d = short_level_formatter_format P p m d"
| "class_format E a_formatter P p m t d = a_formatter_format P p t d"
| "class_format E A_formatter P p m t d = A_formatter_format P p t d"
| "class_format E b_formatter P p m t d = b_formatter_format P p t d"
| "class_format E B_formatter P p m t d = B_formatter_format P p t d"
| "class_format E c_formatter P p m t d = c_formatter_format P p t d"
| "class_format E C_formatter P p m t d = C_formatter_format P p t d"
| "class_format E D_formatter P p m t d = D_formatter_format P p t d"
| "class_format E Y_formatter P p m t d = Y_formatter_format P p t d"
| "class_format E m_formatter P p m t d = m_formatter_format P p t d"
| "class_format E d_formatter P p m t d = d_formatter_format P p t d"
| "class_format E H_formatter P p m t d = H_formatter_format P p t d"
| "class_format E I_formatter P p m t d = I_formatter_format P p t d"
| "class_format E M_formatter P p m t d = M_formatter_format P p t d"
| "class_format E S_formatter P p m t d = S_formatter_format P p t d"
| "class_format E e_formatter P p m t d = e_formatter_format P p m d"
| "class_format E f_formatter P p m t d = f_formatter_format P p m d"
| "class_format E F_formatter P p m t d = F_formatter_format P p m d"
| "class_format E E_formatter P p m t d = E_formatter_format P p m d"
| "class_format E p_formatter P p m t d = p_formatter_format P p t d"
| "class_format E r_formatter P p m t d = r_formatter_format P p t d"
| "class_format E R_formatter P p m t d = R_formatter_format P p t d"
| "class_format E T_formatter P p m t d = T_formatter_format P p t d"
| "class_format E t_formatter P p m t d = t_formatter_format P p m d"
| "class_format E pid_formatter P p m t d = pid_formatter_format P p (os_pid E) d"
| "class_format E v_formatter P p m t d = v_formatter_format P p m d"
| "class_format E source_location_formatter P p m t d = source_location_formatter_format P p m d"
| "class_format E source_filename_formatter P p m t d = source_filename_formatter_format P p m d"
| "class_format E short_filename_formatter P p m t d = short_filename_formatter_format P p m d"
| "class_format E source_linenum_formatter P p m t d = source_linenum_formatter_format P p m d"
| "class_format E source_funcname_formatter P p m t d = source_funcname_formatter_format P p m d"

definition unchanged ::
  "'c flag_formatter \<Rightarrow> log_msg \<Rightarrow> string res \<Rightarrow> ('c flag_formatter \<times> log_msg \<times> string) res" where
  "unchanged f m r = andthen r (\<lambda>d. Inr (f, m, d))"

fun flag_format ::
  "'c fmt_env \<Rightarrow> 'c flag_formatter \<Rightarrow> log_msg \<Rightarrow> tm \<Rightarrow> string \<Rightarrow>
     ('c flag_formatter \<times> log_msg \<times> string) res" where
  "flag_format E (Flag k P p) m t d = unchanged (Flag k P p) m (class_format E k P p m t d)"
| "flag_format E (z_formatter P p c) m t d =
     andthen (z_formatter_format P p c m t d) (\<lambda>(c', d). Inr (z_formatter P p c', m, d))"
| "flag_format E (ch_formatter c) m t d = unchanged (ch_formatter c) m (ch_formatter_format c d)"
| "flag_format E (aggregate_formatter s) m t d = unchanged (aggregate_formatter s) m (aggregate_formatter_format s d)"
| "flag_format E (color_start_formatter p) m t d =
     Inr (color_start_formatter p, color_start_formatter_format m d, d)"
| "flag_format E (color_stop_formatter p) m t d =
     Inr (color_stop_formatter p, color_stop_formatter_format m d, d)"
| "flag_format E (elapsed_formatter P p u lm) m t d =
     andthen (elapsed_formatter_format P p u lm m d) (\<lambda>(lm', d). Inr (elapsed_formatter P p u lm', m, d))"
| "flag_format E (full_formatter p c) m t d =
     andthen (full_formatter_format c m t d) (\<lambda>(c', m, d). Inr (full_formatter p c', m, d))"
| "flag_format E (custom_formatter h p) m t d =
     andthen (custom_format E h p m t d) (\<lambda>(h', m, d). Inr (custom_formatter h' p, m, d))"

section \<open>The pattern compiler\<close>

record 'c pattern_formatter =
  pattern :: string
  eol :: string
  time_type :: pattern_time_type
  needs_localtime :: bool
  cached_tm :: tm
  last_log_secs :: int
  formatters :: "'c flag_formatter list"
  custom_handlers :: "char \<Rightarrow> 'c option"

definition add_formatter :: "'c flag_formatter \<Rightarrow> 'c pattern_formatter \<Rightarrow> 'c pattern_formatter" where
  "add_formatter f pf = pf\<lparr>formatters := formatters pf @ [f]\<rparr>"

text \<open>
  The cases of the switch over the flag: the class and whether it needs the calendar time. First
  the cases up to the time zone, then the others.
\<close>

definition time_flags :: "(char \<times> (padder \<Rightarrow> padding_info \<Rightarrow> 'c flag_formatter) \<times> bool) list" where
  "time_flags =
     [(CHR ''+'', \<lambda>P p. full_formatter p (0, []), True),
      (CHR ''n'', Flag name_formatter, False),
      (CHR ''l'', Flag level_formatter, False),
      (CHR ''L'', Flag short_level_formatter, False),
      (CHR ''t'', Flag t_formatter, False),
      (CHR ''v'', Flag v_formatter, False),
      (CHR ''a'', Flag a_formatter, True),
      (CHR ''A'', Flag A_formatter, True),
      (CHR ''b'', Flag b_formatter, True),
      (CHR ''h'', Flag b_formatter, True),
      (CHR ''B'', Flag B_formatter, True),
      (CHR ''c'', Flag c_formatter, True),
      (CHR ''C'', Flag C_formatter, True),
      (CHR ''Y'', Flag Y_formatter, True),
      (CHR ''D'', Flag D_formatter, True),
      (CHR ''x'', Flag D_formatter, True),
      (CHR ''m'', Flag m_formatter, True),
      (CHR ''d'', Flag d_formatter, True),
      (CHR ''H'', Flag H_formatter, True),
      (CHR ''I'', Flag I_formatter, True),
      (CHR ''M'', Flag M_formatter, True),
      (CHR ''S'', Flag S_formatter, True),
      (CHR ''e'', Flag e_formatter, False),
      (CHR ''f'', Flag f_formatter, False),
      (CHR ''F'', Flag F_formatter, False),
      (CHR ''E'', Flag E_formatter, False)]"

definition other_flags :: "int \<Rightarrow> (char \<times> (padder \<Rightarrow> padding_info \<Rightarrow> 'c flag_formatter) \<times> bool) list" where
  "other_flags now =
     [(CHR ''p'', Flag p_formatter, True),
      (CHR ''r'', Flag r_formatter, True),
      (CHR ''R'', Flag R_formatter, True),
      (CHR ''T'', Flag T_formatter, True),
      (CHR ''X'', Flag T_formatter, True),
      (CHR ''z'', \<lambda>P p. z_formatter P p (0, 0), True),
      (CHR ''P'', Flag pid_formatter, False),
      (CHR ''^'', \<lambda>P. color_start_formatter, False),
      (CHR ''$'', \<lambda>P. color_stop_formatter, False),
      (CHR ''@'', Flag source_location_formatter, False),
      (CHR ''s'', Flag short_filename_formatter, False),
      (CHR ''g'', Flag source_filename_formatter, False),
      (CHR ''#'', Flag source_linenum_formatter, False),
      (CHR ''!'', Flag source_funcname_formatter, False),
      (CHR ''%'', \<lambda>P p. ch_formatter (CHR ''%''), False),
      (CHR ''u'', \<lambda>P p. elapsed_formatter P p 1 now, False),
      (CHR ''i'', \<lambda>P p. elapsed_formatter P p 1000 now, False),
      (CHR ''o'', \<lambda>P p. elapsed_formatter P p 1000000 now, False),
      (CHR ''O'', \<lambda>P p. elapsed_formatter P p 1000000000 now, False)]"

definition handle_flag :: "int \<Rightarrow> padder \<Rightarrow> char \<Rightarrow> padding_info \<Rightarrow> 'c pattern_formatter \<Rightarrow> 'c pattern_formatter" where
  "handle_flag now P flag padding pf =
     (case custom_handlers pf flag of
        Some h \<Rightarrow> add_formatter (custom_formatter h padding) pf
      | None \<Rightarrow>
          (case map_of (time_flags @ other_flags now) flag of
             Some (mk, needs) \<Rightarrow>
               (let pf = add_formatter (mk P padding) pf
                in if needs then pf\<lparr>needs_localtime := True\<rparr> else pf)
           | None \<Rightarrow>
               if \<not> truncate_it padding then add_formatter (aggregate_formatter [CHR ''%'', flag]) pf
               else add_formatter (aggregate_formatter [flag])
                 (add_formatter (Flag source_funcname_formatter P (padding\<lparr>truncate_it := False\<rparr>)) pf)))"

text \<open>The width is a \<open>size_t\<close> and wraps around before it is limited to 64.\<close>

fun padspec_width :: "nat \<Rightarrow> string \<Rightarrow> nat \<times> string" where
  "padspec_width width [] = (width, [])"
| "padspec_width width (c # s) =
     (if is_digit c then padspec_width (usize_add (width * 10 mod 2 ^ 64) (of_char c - 48)) s
      else (width, c # s))"

definition max_width :: nat where
  "max_width = 64"

lemma padspec_width_rest: "padspec_width w s = (w', s') \<Longrightarrow> length s' \<le> length s"
  by (induction w s rule: padspec_width.induct) (auto split: if_splits)

definition padspec_mark :: "string \<Rightarrow> bool \<times> string" where
  "padspec_mark it =
     (case it of [] \<Rightarrow> (False, it) | c # s \<Rightarrow> if c = CHR ''!'' then (True, s) else (False, it))"

definition padspec_side :: "string \<Rightarrow> pad_side \<times> string" where
  "padspec_side it =
     (case it of
        [] \<Rightarrow> (pad_left, it)
      | c # s \<Rightarrow> if c = CHR ''-'' then (pad_right, s) else if c = CHR ''='' then (pad_center, s)
          else (pad_left, it))"

definition handle_padspec :: "string \<Rightarrow> padding_info \<times> string" where
  "handle_padspec it =
     (let (side, it) = padspec_side it
      in case it of
           [] \<Rightarrow> (no_padding, [])
         | c # s \<Rightarrow>
             if \<not> is_digit c then (no_padding, c # s)
             else (let (width, it) = padspec_width (of_char c - 48) s;
                       (tr, it) = padspec_mark it
                   in (padding_info_new (min width max_width) side tr, it)))"

lemma handle_padspec_rest: "length (snd (handle_padspec s)) \<le> length s"
proof -
  obtain side it where side: "padspec_side s = (side, it)" by fastforce
  then have le: "length it \<le> length s" by (auto simp: padspec_side_def split: list.splits if_splits)
  show ?thesis
  proof (cases it)
    case Nil
    with side show ?thesis by (simp add: handle_padspec_def)
  next
    case (Cons c r)
    obtain w it2 where w: "padspec_width (of_char c - 48) r = (w, it2)" by fastforce
    obtain tr it3 where "padspec_mark it2 = (tr, it3)" by fastforce
    then have "length it3 \<le> length it2 \<and> snd (padspec_mark it2) = it3"
      by (auto simp: padspec_mark_def split: list.splits if_splits)
    with padspec_width_rest [OF w] side Cons w le show ?thesis
      by (auto simp: handle_padspec_def split: prod.splits)
  qed
qed

lemma handle_padspec_shorter: "(p, c # r) = handle_padspec s \<Longrightarrow> length r < Suc (length s)"
  using handle_padspec_rest [of s] by (metis Suc_le_length_iff le_imp_less_Suc length_Cons less_SucI less_Suc_eq_le nat_less_le snd_conv)

definition flush_chars :: "string option \<Rightarrow> 'c pattern_formatter \<Rightarrow> 'c pattern_formatter" where
  "flush_chars user_chars pf =
     (case user_chars of None \<Rightarrow> pf | Some s \<Rightarrow> add_formatter (aggregate_formatter s) pf)"

function compile_loop :: "int \<Rightarrow> string \<Rightarrow> string option \<Rightarrow> 'c pattern_formatter \<Rightarrow> 'c pattern_formatter" where
  "compile_loop now [] user_chars pf = flush_chars user_chars pf"
| "compile_loop now (c # s) user_chars pf =
     (if c = CHR ''%''
      then (case handle_padspec s of
              (padding, []) \<Rightarrow> flush_chars user_chars pf
            | (padding, flag # rest) \<Rightarrow>
                compile_loop now rest None
                  (handle_flag now (if pad_enabled padding then Scoped else Null) flag padding
                     (flush_chars user_chars pf)))
      else compile_loop now s (Some ((case user_chars of None \<Rightarrow> [] | Some u \<Rightarrow> u) @ [c])) pf)"
  by pat_completeness auto

termination compile_loop
  by (relation "measure (\<lambda>(now, s, u, pf). length s)") (auto dest: handle_padspec_shorter)

definition compile_pattern :: "int \<Rightarrow> string \<Rightarrow> 'c pattern_formatter \<Rightarrow> 'c pattern_formatter" where
  "compile_pattern now pat pf = compile_loop now pat None (pf\<lparr>formatters := []\<rparr>)"

section \<open>The formatter\<close>

definition pattern_formatter_new ::
  "int \<Rightarrow> string \<Rightarrow> pattern_time_type \<Rightarrow> string \<Rightarrow> (char \<Rightarrow> 'c option) \<Rightarrow> 'c pattern_formatter" where
  "pattern_formatter_new now pat ty e custom =
     compile_pattern now pat
       \<lparr>pattern = pat, eol = e, time_type = ty, needs_localtime = False, cached_tm = tm_zero,
        last_log_secs = 0, formatters = [], custom_handlers = custom\<rparr>"

definition pattern_formatter_default :: "pattern_time_type \<Rightarrow> string \<Rightarrow> 'c pattern_formatter" where
  "pattern_formatter_default ty e =
     \<lparr>pattern = ''%+'', eol = e, time_type = ty, needs_localtime = True, cached_tm = tm_zero,
      last_log_secs = 0, formatters = [full_formatter no_padding (0, [])], custom_handlers = \<lambda>c. None\<rparr>"

definition need_localtime :: "bool \<Rightarrow> 'c pattern_formatter \<Rightarrow> 'c pattern_formatter" where
  "need_localtime need pf = pf\<lparr>needs_localtime := need\<rparr>"

definition pf_clone :: "int \<Rightarrow> 'c pattern_formatter \<Rightarrow> 'c pattern_formatter" where
  "pf_clone now pf = need_localtime (needs_localtime pf)
     (pattern_formatter_new now (pattern pf) (time_type pf) (eol pf) (custom_handlers pf))"

definition set_pattern :: "int \<Rightarrow> string \<Rightarrow> 'c pattern_formatter \<Rightarrow> 'c pattern_formatter" where
  "set_pattern now pat pf = compile_pattern now pat (pf\<lparr>pattern := pat, needs_localtime := False\<rparr>)"

definition add_flag :: "char \<Rightarrow> 'c \<Rightarrow> 'c pattern_formatter \<Rightarrow> 'c pattern_formatter" where
  "add_flag flag h pf = pf\<lparr>custom_handlers := (custom_handlers pf)(flag := Some h)\<rparr>"

text \<open>\<open>log_clock::to_time_t\<close> truncates to seconds.\<close>

definition get_time :: "'c fmt_env \<Rightarrow> 'c pattern_formatter \<Rightarrow> log_msg \<Rightarrow> tm" where
  "get_time E pf m = get_tm E (time_type pf) (secs_of (msg_time m))"

definition refresh_tm :: "'c fmt_env \<Rightarrow> log_msg \<Rightarrow> 'c pattern_formatter \<Rightarrow> 'c pattern_formatter" where
  "refresh_tm E m pf =
     (if needs_localtime pf
      then (let secs = secs_of (msg_time m)
            in if secs \<noteq> last_log_secs pf then pf\<lparr>cached_tm := get_time E pf m, last_log_secs := secs\<rparr>
               else pf)
      else pf)"

fun format_all ::
  "'c fmt_env \<Rightarrow> 'c flag_formatter list \<Rightarrow> log_msg \<Rightarrow> tm \<Rightarrow> string \<Rightarrow>
     ('c flag_formatter list \<times> log_msg \<times> string) res" where
  "format_all E [] m t d = Inr ([], m, d)"
| "format_all E (f # fs) m t d =
     andthen (flag_format E f m t d) (\<lambda>(f', m, d).
     andthen (format_all E fs m t d) (\<lambda>(fs', m, d). Inr (f' # fs', m, d)))"

definition pf_format ::
  "'c fmt_env \<Rightarrow> 'c pattern_formatter \<Rightarrow> log_msg \<Rightarrow> string \<Rightarrow> ('c pattern_formatter \<times> log_msg \<times> string) res" where
  "pf_format E pf m dest =
     (let pf = refresh_tm E m pf
      in andthen (format_all E (formatters pf) m (cached_tm pf) dest) (\<lambda>(fs, m, d).
           Inr (pf\<lparr>formatters := fs\<rparr>, m, append_string_view (eol pf) d)))"

end
