(* ===== verification/Log_Layout.thy ===== *)
theory Log_Layout
  imports Pattern_Formatter
begin

text \<open>
  What the pattern formatter prints. \<open>field\<close> is the reference for a padded field, \<open>flag_text\<close> the
  text a flag stands for and \<open>full_text\<close> the default layout of a message. Shown: every flag class
  prints its text in its field, the default formatter prints the default layout for every message
  of a sequence whatever is in its caches, marks the level name for the colored sinks and agrees
  with the pattern its comment gives; text without flags is printed as it is; and where a class
  announces a size it does not print, truncation removes text of other flags.
\<close>

section \<open>Reference texts\<close>

declare with_padder.simps [simp del]

definition spaces :: "nat \<Rightarrow> string" where
  "spaces n = replicate n (CHR '' '')"

definition padded :: "padding_info \<Rightarrow> string \<Rightarrow> string" where
  "padded p s =
     (let n = length s; w = pad_width p
      in if n \<le> w
         then (case side_of p of
                 pad_left \<Rightarrow> spaces (w - n) @ s
               | pad_right \<Rightarrow> s @ spaces (w - n)
               | pad_center \<Rightarrow> spaces ((w - n) div 2) @ s @ spaces (w - n - (w - n) div 2))
         else if truncate_it p then take w s else s)"

definition field :: "padder \<Rightarrow> padding_info \<Rightarrow> string \<Rightarrow> string" where
  "field P p s = (case P of Scoped \<Rightarrow> padded p s | Null \<Rightarrow> s)"

lemma length_padded:
  "length (padded p s) = (if length s \<le> pad_width p \<or> truncate_it p then pad_width p else length s)"
  by (auto simp: padded_def spaces_def Let_def split: pad_side.split)

lemma pad_it_eq: "n \<le> 64 \<Longrightarrow> pad_it (int n) d = Inr (d @ spaces n)"
  by (simp add: pad_it_def append_string_view_def spaces_def)

lemma scoped_field:
  assumes "pad_width p \<le> 64" and "\<And>d. body d = Inr (d @ s)"
  shows "with_padder Scoped (length s) p body d = Inr (d @ padded p s)"
proof -
  let ?w = "pad_width p" and ?n = "length s"
  consider "?n < ?w" | "?w = ?n" | "?w < ?n" by linarith
  then show ?thesis
  proof cases
    case 1
    then obtain r where r: "?w = ?n + r" "0 < r" by (metis less_imp_add_positive)
    have half: "int r div 2 = int (r div 2)" "int (r div 2) + int r mod 2 = int r - int (r div 2)"
      by presburger+
    have rest: "pad_it (int r - int (r div 2)) e = Inr (e @ spaces (r - r div 2))" for e
      using pad_it_eq [of "r - r div 2" e] r assms(1) by (simp add: of_nat_diff)
    show ?thesis
      using assms r
      by (cases "side_of p")
        (auto simp: scoped_padder_begin_def scoped_padder_end_def padded_def Let_def pad_it_eq half rest
          pad_it_eq [of 0, simplified] spaces_def with_padder.simps)
  next
    case 2
    then show ?thesis using assms(2)
      by (simp add: with_padder.simps scoped_padder_begin_def scoped_padder_end_def padded_def Let_def
          pad_it_eq [of 0, simplified] spaces_def split: pad_side.split)
  next
    case 3
    then show ?thesis using assms(2)
      by (simp add: with_padder.simps scoped_padder_begin_def scoped_padder_end_def padded_def Let_def buf_resize_def
          nat_add_distrib)
  qed
qed

lemma with_padder_field:
  assumes "pad_width p \<le> 64" and "\<And>d. body d = Inr (d @ s)" and "P = Scoped \<Longrightarrow> n = length s"
  shows "with_padder P n p body d = Inr (d @ field P p s)"
  using assms scoped_field [of p body s d] by (cases P) (simp_all add: field_def with_padder.simps)

definition flag_text :: "'c fmt_env \<Rightarrow> flag_class \<Rightarrow> log_msg \<Rightarrow> tm \<Rightarrow> string" where
  "flag_text E k m t =
     (let nn = print_int0 2; s = msg_source m; src = (\<lambda>x. if source_loc_empty s then [] else x)
      in case k of
        name_formatter \<Rightarrow> logger_name m
      | level_formatter \<Rightarrow> level_string_views ! level_int (msg_level m)
      | short_level_formatter \<Rightarrow> short_level_names ! level_int (msg_level m)
      | a_formatter \<Rightarrow> days ! nat (tm_wday t)
      | A_formatter \<Rightarrow> full_days ! nat (tm_wday t)
      | b_formatter \<Rightarrow> months ! nat (tm_mon t)
      | B_formatter \<Rightarrow> full_months ! nat (tm_mon t)
      | c_formatter \<Rightarrow> days ! nat (tm_wday t) @ '' '' @ months ! nat (tm_mon t) @ '' '' @ print_int (tm_mday t) @
          '' '' @ nn (tm_hour t) @ '':'' @ nn (tm_min t) @ '':'' @ nn (tm_sec t) @ '' '' @ print_int (tm_year t + 1900)
      | C_formatter \<Rightarrow> nn (c_mod (tm_year t) 100)
      | D_formatter \<Rightarrow> nn (tm_mon t + 1) @ ''/'' @ nn (tm_mday t) @ ''/'' @ nn (c_mod (tm_year t) 100)
      | Y_formatter \<Rightarrow> print_int (tm_year t + 1900)
      | m_formatter \<Rightarrow> nn (tm_mon t + 1)
      | d_formatter \<Rightarrow> nn (tm_mday t)
      | H_formatter \<Rightarrow> nn (tm_hour t)
      | I_formatter \<Rightarrow> nn (to12h t)
      | M_formatter \<Rightarrow> nn (tm_min t)
      | S_formatter \<Rightarrow> nn (tm_sec t)
      | e_formatter \<Rightarrow> print_int0 3 (msg_time m div 1000000 mod 1000)
      | f_formatter \<Rightarrow> print_int0 6 (msg_time m div 1000 mod 1000000)
      | F_formatter \<Rightarrow> print_int0 9 (msg_time m mod 1000000000)
      | E_formatter \<Rightarrow> print_int (msg_time m div 1000000000)
      | p_formatter \<Rightarrow> ampm t
      | r_formatter \<Rightarrow> nn (to12h t) @ '':'' @ nn (tm_min t) @ '':'' @ nn (tm_sec t) @ '' '' @ ampm t
      | R_formatter \<Rightarrow> nn (tm_hour t) @ '':'' @ nn (tm_min t)
      | T_formatter \<Rightarrow> nn (tm_hour t) @ '':'' @ nn (tm_min t) @ '':'' @ nn (tm_sec t)
      | t_formatter \<Rightarrow> print_nat (thread_id m)
      | pid_formatter \<Rightarrow> print_nat (to_unsigned U32 (os_pid E))
      | v_formatter \<Rightarrow> payload m
      | source_location_formatter \<Rightarrow> src (the (filename s) @ '':'' @ print_int (line_no s))
      | source_filename_formatter \<Rightarrow> src (the (filename s))
      | short_filename_formatter \<Rightarrow> src (basename (the (filename s)))
      | source_linenum_formatter \<Rightarrow> src (print_int (line_no s))
      | source_funcname_formatter \<Rightarrow> src (the (funcname s)))"

text \<open>
  Messages as the library makes them: a level with a name, a time after the epoch, and a source
  location that is either empty or complete.
\<close>

definition msg_ok :: "log_msg \<Rightarrow> bool" where
  "msg_ok m \<longleftrightarrow> msg_level m \<noteq> n_levels \<and> 0 \<le> msg_time m \<and> msg_time m < 2 ^ 63 \<and> thread_id m < 2 ^ 64 \<and>
     0 \<le> line_no (msg_source m) \<and> line_no (msg_source m) < 2 ^ 31 \<and>
     (line_no (msg_source m) \<noteq> 0 \<longrightarrow> filename (msg_source m) \<noteq> None \<and> funcname (msg_source m) \<noteq> None)"

lemma tm_name_eq: "0 \<le> i \<Longrightarrow> nat i < length xs \<Longrightarrow> length xs \<le> 12 \<Longrightarrow> tm_name xs i = Inr (xs ! nat i)"
  by (simp add: tm_name_def array_at_def to_unsigned_def)

lemma length_print_int0: "0 \<le> i \<Longrightarrow> nat i < 10 ^ w \<Longrightarrow> 0 < w \<Longrightarrow> length (print_int0 w i) = w"
  using length_print_nat [of "nat i" w] by (simp add: print_int0_def Let_def)

lemma year_1900_ok: "tm_ok t \<Longrightarrow> year_1900 t = Inr (tm_year t + 1900)"
  by (simp add: year_1900_def tm_ok_def)

lemma to_unsigned_id: "0 \<le> n \<Longrightarrow> n \<le> int (uint_max u) \<Longrightarrow> to_unsigned u n = nat n"
  by (simp add: to_unsigned_def mod_pos_pos_trivial)

lemma to_unsigned_le: "to_unsigned u n \<le> uint_max u"
proof -
  have "n mod (int (uint_max u) + 1) < int (uint_max u) + 1" by (rule pos_mod_bound) simp
  then show ?thesis by (simp add: to_unsigned_def nat_le_iff)
qed

lemma time_fraction_eq:
  assumes "0 \<le> t" and "0 < unit" and "unit dvd 10 ^ 9"
  shows "time_fraction unit t = t div unit mod (10 ^ 9 div unit)"
proof -
  obtain k where k: "(10 ^ 9 :: int) = unit * k" using assms(3) by (elim dvdE)
  have "0 < unit * k" using k by simp
  then have "0 \<le> k" using assms(2) by (simp add: zero_less_mult_iff)
  then have "t div 10 ^ 9 = t div unit div k" unfolding k by (rule zdiv_zmult2_eq)
  moreover have "10 ^ 9 div unit = k" using k assms(2) by (metis nonzero_mult_div_cancel_left less_irrefl)
  ultimately show ?thesis using assms(1,2)
    by (simp add: time_fraction_def secs_of_def minus_div_mult_eq_mod [symmetric])
qed


text \<open>The three classes whose announced size is not that of their text are left out.\<close>

definition sized_class :: "flag_class \<Rightarrow> bool" where
  "sized_class k \<longleftrightarrow> k \<noteq> c_formatter \<and> k \<noteq> D_formatter \<and> k \<noteq> E_formatter"

lemma padded_text_field: "pad_width p \<le> 64 \<Longrightarrow> padded_text P p s d = Inr (d @ field P p s)"
  unfolding padded_text_def by (rule with_padder_field) (simp_all add: append_string_view_def)

lemma sized_names:
  assumes "tm_ok t" and "msg_ok m" and "pad_width p \<le> 64"
  shows "k \<in> {name_formatter, level_formatter, short_level_formatter, v_formatter} \<Longrightarrow>
      class_format E k P p m t d = Inr (d @ field P p (flag_text E k m t))"
    and "k \<in> {a_formatter, A_formatter, b_formatter, B_formatter} \<Longrightarrow>
      class_format E k P p m t d = Inr (d @ field P p (flag_text E k m t))"
  using assms
  by (auto simp: flag_text_def name_formatter_format_def level_formatter_format_def v_formatter_format_def
      short_level_formatter_format_def a_formatter_format_def A_formatter_format_def b_formatter_format_def
      B_formatter_format_def padded_text_field to_string_view_Inr to_short_c_str_Inr msg_ok_def tm_ok_def
      tm_name_eq days_def full_days_def months_def full_months_def)

lemma tm_ok_two:
  assumes "tm_ok t"
  shows "length (print_int0 2 (tm_sec t)) = 2" "length (print_int0 2 (tm_min t)) = 2"
    "length (print_int0 2 (tm_hour t)) = 2" "length (print_int0 2 (tm_mday t)) = 2"
    "length (print_int0 2 (tm_mon t + 1)) = 2" "length (print_int0 2 (to12h t)) = 2"
  using assms by (auto simp: tm_ok_def to12h_def intro!: length_print_int0)

lemma length_ampm: "length (ampm t) = 2"
  by (simp add: ampm_def)

lemma year_digits: "tm_ok t \<Longrightarrow> length (print_int (tm_year t + 1900)) = 4"
proof -
  assume "tm_ok t"
  then have "10 ^ 3 \<le> nat (tm_year t + 1900)" "nat (tm_year t + 1900) < 10 ^ Suc 3"
    by (auto simp: tm_ok_def)
  from digit_count_exact [OF this] \<open>tm_ok t\<close> show ?thesis
    by (simp add: print_int_def length_print_nat_eq tm_ok_def)
qed

lemma year_append: "tm_ok t \<Longrightarrow> append_int U32 (tm_year t + 1900) d = Inr (d @ print_int (tm_year t + 1900))"
  by (rule append_int_eq) (simp add: sint_ok_def tm_ok_def)

lemmas text_simps = append_string_view_def push_back_def pad2_eq Let_def flag_text_def

lemma sized_clock:
  assumes "tm_ok t" and "pad_width p \<le> 64"
    and "k \<in> {m_formatter, d_formatter, H_formatter, I_formatter, M_formatter, S_formatter, p_formatter,
      r_formatter, R_formatter, T_formatter, Y_formatter}"
  shows "class_format E k P p m t d = Inr (d @ field P p (flag_text E k m t))"
proof -
  note facts = tm_ok_two [OF assms(1)] length_ampm year_digits [OF assms(1)] year_1900_ok [OF assms(1)]
    year_append [OF assms(1)]
  note defs = m_formatter_format_def d_formatter_format_def H_formatter_format_def I_formatter_format_def
      M_formatter_format_def S_formatter_format_def p_formatter_format_def r_formatter_format_def
      R_formatter_format_def T_formatter_format_def Y_formatter_format_def
  show ?thesis using assms(3)
    by (elim insertE emptyE; simp only: class_format.simps defs; intro with_padder_field [OF assms(2)];
        simp add: text_simps facts)
qed

lemma year_of_century:
  assumes "tm_ok t"
  shows "length (print_int0 2 (c_mod (tm_year t) 100)) = 2"
  using assms by (intro length_print_int0) (auto simp: c_mod_nonneg tm_ok_def)

lemma sized_century:
  assumes "tm_ok t" and "pad_width p \<le> 64"
  shows "class_format E C_formatter P p m t d = Inr (d @ field P p (flag_text E C_formatter m t))"
  unfolding class_format.simps C_formatter_format_def
  by (rule with_padder_field [OF assms(2)]) (simp_all add: text_simps year_of_century [OF assms(1)])

lemma sized_fractions:
  assumes "msg_ok m" and "pad_width p \<le> 64" and "k \<in> {e_formatter, f_formatter, F_formatter}"
  shows "class_format E k P p m t d = Inr (d @ field P p (flag_text E k m t))"
proof -
  have t: "0 \<le> msg_time m" using assms(1) by (simp add: msg_ok_def)
  have e: "time_fraction 1000000 (msg_time m) = msg_time m div 1000000 mod 1000"
    and f: "time_fraction 1000 (msg_time m) = msg_time m div 1000 mod 1000000"
    and F: "time_fraction 1 (msg_time m) = msg_time m mod 1000000000"
    using time_fraction_eq [OF t] by simp_all
  have bounds: "x mod 1000 \<le> int (uint_max U32)" "x mod 1000000 \<le> int (uint_max U64)"
      "x mod 1000000000 \<le> int (uint_max U64)" "nat (x mod 1000) < 10 ^ 3"
      "nat (x mod 1000000) < 10 ^ 6" "nat (x mod 1000000000) < 10 ^ 9" for x :: int
    using pos_mod_bound [of 1000 x] pos_mod_bound [of 1000000 x] pos_mod_bound [of 1000000000 x]
    by auto
  have "to_unsigned U32 (msg_time m div 1000000 mod 1000) = nat (msg_time m div 1000000 mod 1000)"
    "to_unsigned U64 (msg_time m div 1000 mod 1000000) = nat (msg_time m div 1000 mod 1000000)"
    "to_unsigned U64 (msg_time m mod 1000000000) = nat (msg_time m mod 1000000000)"
    using bounds(1-3) by (auto intro!: to_unsigned_id simp del: uint_max.simps)
  note unsigned = this
  have sizes: "length (print_int0 3 (x mod 1000)) = 3" "length (print_int0 6 (x mod 1000000)) = 6"
      "length (print_int0 9 (x mod 1000000000)) = 9" for x :: int
    using bounds(4-6) by (auto intro!: length_print_int0)
  have small: "nat (x mod 1000) \<le> uint_max U32" "nat (x mod 1000000) \<le> uint_max U64"
      "nat (x mod 1000000000) \<le> uint_max U64" for x :: int
    using bounds(1-3) by (auto simp: nat_le_iff simp del: uint_max.simps)
  show ?thesis using assms(3)
    by (elim insertE emptyE;
        simp only: class_format.simps e_formatter_format_def f_formatter_format_def F_formatter_format_def
          Let_def e f F unsigned;
        intro with_padder_field [OF assms(2)];
        simp add: text_simps fmt_output sizes small del: uint_max.simps)
qed

lemma sized_numbers:
  assumes "msg_ok m" and "pad_width p \<le> 64" and "k \<in> {t_formatter, pid_formatter}"
  shows "class_format E k P p m t d = Inr (d @ field P p (flag_text E k m t))"
proof -
  have "thread_id m \<le> uint_max U64" using assms(1) by (simp add: msg_ok_def)
  moreover have "to_unsigned U32 (os_pid E) \<le> uint_max U32" by (rule to_unsigned_le)
  ultimately show ?thesis using assms(3)
    by (elim insertE emptyE; simp only: class_format.simps t_formatter_format_def pid_formatter_format_def Let_def;
        intro with_padder_field [OF assms(2)];
        simp add: text_simps append_uint_eq count_digits_eq length_print_nat_eq
          del: uint_max.simps count_digits.simps)
qed

lemma line_text:
  assumes "msg_ok m"
  shows "append_int U32 (line_no (msg_source m)) d = Inr (d @ print_int (line_no (msg_source m)))"
    and "count_digits U32 (to_unsigned U32 (line_no (msg_source m))) = length (print_int (line_no (msg_source m)))"
proof -
  let ?l = "line_no (msg_source m)"
  have l: "0 \<le> ?l" "?l < 2 ^ 31" using assms by (simp_all add: msg_ok_def)
  show "append_int U32 ?l d = Inr (d @ print_int ?l)" using l by (intro append_int_eq) (simp add: sint_ok_def)
  have "to_unsigned U32 ?l = nat ?l" "nat ?l \<le> uint_max U32" using l by (auto intro!: to_unsigned_id)
  with l show "count_digits U32 (to_unsigned U32 ?l) = length (print_int ?l)"
    by (simp add: count_digits_eq print_int_def length_print_nat_eq del: count_digits.simps)
qed

lemma sized_source:
  assumes "msg_ok m" and "pad_width p \<le> 64" and "P = Scoped \<longleftrightarrow> pad_enabled p"
    and "k \<in> {source_location_formatter, source_filename_formatter, short_filename_formatter,
      source_linenum_formatter, source_funcname_formatter}"
  shows "class_format E k P p m t d = Inr (d @ field P p (flag_text E k m t))"
proof (cases "source_loc_empty (msg_source m)")
  case True
  have none: "with_padder P 0 p Inr d = Inr (d @ field P p [])" for d
    by (rule with_padder_field [OF assms(2)]) simp_all
  from True assms(4) show ?thesis
    by (auto simp: text_simps none source_location_formatter_format_def source_filename_formatter_format_def
        short_filename_formatter_format_def source_linenum_formatter_format_def
        source_funcname_formatter_format_def)
next
  case False
  with assms(1) obtain f g where fg: "filename (msg_source m) = Some f" "funcname (msg_source m) = Some g"
    by (auto simp: msg_ok_def source_loc_empty_def)
  have digits: "padder_count_digits Scoped U32 (to_unsigned U32 (line_no (msg_source m))) =
      length (print_int (line_no (msg_source m)))"
    using line_text(2) [OF assms(1)] by simp
  note defs = source_location_formatter_format_def source_filename_formatter_format_def
    short_filename_formatter_format_def source_linenum_formatter_format_def source_funcname_formatter_format_def
  from assms(4) show ?thesis
    by (elim insertE emptyE; simp only: class_format.simps defs False fg with_cstr_def option.case Let_def if_False;
        intro with_padder_field [OF assms(2)];
        simp add: text_simps fg False digits line_text(1) [OF assms(1)] assms(3) [symmetric]
          del: padder_count_digits.simps)
qed

lemma class_prints_text:
  assumes "tm_ok t" and "msg_ok m" and "pad_width p \<le> 64" and "P = Scoped \<longleftrightarrow> pad_enabled p"
    and "sized_class k"
  shows "class_format E k P p m t d = Inr (d @ field P p (flag_text E k m t))"
proof -
  from assms(5) consider
      "k \<in> {name_formatter, level_formatter, short_level_formatter, v_formatter}"
    | "k \<in> {a_formatter, A_formatter, b_formatter, B_formatter}"
    | "k \<in> {m_formatter, d_formatter, H_formatter, I_formatter, M_formatter, S_formatter, p_formatter,
        r_formatter, R_formatter, T_formatter, Y_formatter}"
    | "k = C_formatter"
    | "k \<in> {e_formatter, f_formatter, F_formatter}"
    | "k \<in> {t_formatter, pid_formatter}"
    | "k \<in> {source_location_formatter, source_filename_formatter, short_filename_formatter,
        source_linenum_formatter, source_funcname_formatter}"
    by (cases k) (auto simp: sized_class_def)
  then show ?thesis
  proof cases
    case 1 then show ?thesis by (rule sized_names(1) [OF assms(1-3)])
  next
    case 2 then show ?thesis by (rule sized_names(2) [OF assms(1-3)])
  next
    case 3 then show ?thesis by (rule sized_clock [OF assms(1,3)])
  next
    case 4 then show ?thesis using sized_century [OF assms(1,3)] by simp
  next
    case 5 then show ?thesis by (rule sized_fractions [OF assms(2,3)])
  next
    case 6 then show ?thesis by (rule sized_numbers [OF assms(2,3)])
  next
    case 7 then show ?thesis by (rule sized_source [OF assms(2-4)])
  qed
qed

section \<open>The default layout\<close>

definition datetime_text :: "tm \<Rightarrow> string" where
  "datetime_text t = ''['' @ print_int (tm_year t + 1900) @ ''-'' @ print_int0 2 (tm_mon t + 1) @ ''-'' @
     print_int0 2 (tm_mday t) @ '' '' @ print_int0 2 (tm_hour t) @ '':'' @ print_int0 2 (tm_min t) @ '':'' @
     print_int0 2 (tm_sec t) @ ''.''"

definition full_head :: "tm \<Rightarrow> log_msg \<Rightarrow> string" where
  "full_head t m = datetime_text t @ print_int0 3 (msg_time m div 1000000 mod 1000) @ ''] '' @
     (if logger_name m = [] then [] else ''['' @ logger_name m @ ''] '') @ ''[''"

definition level_text :: "log_msg \<Rightarrow> string" where
  "level_text m = level_string_views ! level_int (msg_level m)"

definition full_text :: "tm \<Rightarrow> log_msg \<Rightarrow> string" where
  "full_text t m = full_head t m @ level_text m @ ''] '' @
     (if source_loc_empty (msg_source m) then []
      else ''['' @ basename (the (filename (msg_source m))) @ '':'' @ print_int (line_no (msg_source m)) @ ''] '') @
     payload m"

lemma full_datetime_eq: "tm_ok t \<Longrightarrow> full_datetime t = Inr (datetime_text t)"
  by (simp add: full_datetime_def year_1900_ok year_append text_simps datetime_text_def)

lemma datetime_nonempty [simp]: "datetime_text t \<noteq> []"
  by (simp add: datetime_text_def)

definition colored :: "nat \<Rightarrow> tm \<Rightarrow> log_msg \<Rightarrow> log_msg" where
  "colored n t m = m\<lparr>color_range_start := n + length (full_head t m),
     color_range_end := n + length (full_head t m) + length (level_text m)\<rparr>"

lemma millis_text:
  assumes "msg_ok m"
  shows "pad3 U32 (to_unsigned U32 (time_fraction 1000000 (msg_time m))) d =
     Inr (d @ print_int0 3 (msg_time m div 1000000 mod 1000))"
proof -
  let ?x = "msg_time m div 1000000 mod 1000"
  have x: "0 \<le> ?x" "?x \<le> int (uint_max U32)" using pos_mod_bound [of 1000 "msg_time m div 1000000"] by auto
  then have "to_unsigned U32 ?x = nat ?x" by (rule to_unsigned_id)
  moreover have "time_fraction 1000000 (msg_time m) = ?x"
    using time_fraction_eq [of "msg_time m" 1000000] assms by (simp add: msg_ok_def)
  ultimately show ?thesis using x pad3_eq [of "nat ?x" U32 d] by (simp add: nat_le_iff del: uint_max.simps)
qed

lemma full_source_eq:
  assumes "msg_ok m"
  shows "full_source m d = Inr (d @ (if source_loc_empty (msg_source m) then []
      else ''['' @ basename (the (filename (msg_source m))) @ '':'' @ print_int (line_no (msg_source m)) @ ''] ''))"
proof (cases "source_loc_empty (msg_source m)")
  case False
  with assms obtain f where "filename (msg_source m) = Some f"
    by (auto simp: msg_ok_def source_loc_empty_def)
  with False show ?thesis by (simp add: full_source_def with_cstr_def text_simps line_text(1) [OF assms])
qed (simp add: full_source_def)

lemma full_formatter_eq:
  assumes "tm_ok t" and "msg_ok m"
    and "fst c = secs_of (msg_time m) \<Longrightarrow> snd c \<noteq> [] \<Longrightarrow> snd c = datetime_text t"
  shows "full_formatter_format c m t d =
     Inr ((secs_of (msg_time m), datetime_text t), colored (length d) t m, d @ full_text t m)"
proof -
  have cache: "(if fst c \<noteq> secs_of (msg_time m) \<or> length (snd c) = 0
      then andthen (full_datetime t) (\<lambda>s. Inr (secs_of (msg_time m), s)) else Inr c) =
      Inr (secs_of (msg_time m), datetime_text t)"
    using assms(3) by (cases c) (auto simp: full_datetime_eq [OF assms(1)])
  have src: "full_source (m\<lparr>color_range_start := a, color_range_end := b\<rparr>) = full_source m" for a b
    by (simp add: full_source_def fun_eq_iff)
  have "msg_level m \<noteq> n_levels" using assms(2) by (simp add: msg_ok_def)
  then show ?thesis
    unfolding full_formatter_format_def Let_def cache
    by (simp add: millis_text [OF assms(2)] to_string_view_Inr src full_source_eq [OF assms(2)]
        append_string_view_def push_back_def full_text_def full_head_def colored_def level_text_def)
qed

text \<open>The level name is what the color range marks.\<close>

lemma colored_range:
  "take (color_range_end (colored (length d) t m) - color_range_start (colored (length d) t m))
     (drop (color_range_start (colored (length d) t m)) (d @ full_text t m @ e)) = level_text m"
  by (simp add: colored_def full_text_def)

section \<open>Cached calendar time\<close>

definition tm_cache_ok :: "'c fmt_env \<Rightarrow> 'c pattern_formatter \<Rightarrow> bool" where
  "tm_cache_ok E pf \<longleftrightarrow> last_log_secs pf = 0 \<or> cached_tm pf = get_tm E (time_type pf) (last_log_secs pf)"

lemma refresh_tm_eq:
  assumes "tm_cache_ok E pf" and "secs_of (msg_time m) \<noteq> 0" and "needs_localtime pf"
  shows "refresh_tm E m pf = pf\<lparr>cached_tm := get_tm E (time_type pf) (secs_of (msg_time m)),
     last_log_secs := secs_of (msg_time m)\<rparr>"
  using assms by (auto simp: refresh_tm_def tm_cache_ok_def get_time_def Let_def)

definition default_inv :: "'c fmt_env \<Rightarrow> pattern_time_type \<Rightarrow> string \<Rightarrow> 'c pattern_formatter \<Rightarrow> bool" where
  "default_inv E ty e pf \<longleftrightarrow> needs_localtime pf \<and> time_type pf = ty \<and> eol pf = e \<and> tm_cache_ok E pf \<and>
     (\<exists>p c. formatters pf = [full_formatter p c] \<and>
        (snd c = [] \<or> snd c = datetime_text (get_tm E ty (fst c))))"

lemma default_inv_new: "default_inv E ty e (pattern_formatter_default ty e)"
  by (simp add: default_inv_def pattern_formatter_default_def tm_cache_ok_def)

definition msg_tm :: "'c fmt_env \<Rightarrow> pattern_time_type \<Rightarrow> log_msg \<Rightarrow> tm" where
  "msg_tm E ty m = get_tm E ty (secs_of (msg_time m))"

text \<open>A message the default layout is defined for: after the first second of the epoch.\<close>

definition loggable :: "'c fmt_env \<Rightarrow> pattern_time_type \<Rightarrow> log_msg \<Rightarrow> bool" where
  "loggable E ty m \<longleftrightarrow> msg_ok m \<and> 10 ^ 9 \<le> msg_time m \<and> tm_ok (msg_tm E ty m)"

lemma default_format:
  assumes "default_inv E ty e pf" and "loggable E ty m"
  shows "\<exists>pf'. pf_format E pf m d =
       Inr (pf', colored (length d) (msg_tm E ty m) m, d @ full_text (msg_tm E ty m) m @ e) \<and>
     default_inv E ty e pf'"
proof -
  from assms(1) obtain p c where pf: "needs_localtime pf" "time_type pf = ty" "eol pf = e" "tm_cache_ok E pf"
      "formatters pf = [full_formatter p c]" "snd c = [] \<or> snd c = datetime_text (get_tm E ty (fst c))"
    by (auto simp: default_inv_def)
  have m: "msg_ok m" "tm_ok (msg_tm E ty m)" "secs_of (msg_time m) \<noteq> 0"
    using assms(2) by (auto simp: loggable_def secs_of_def div_eq_0_iff)
  have "full_formatter_format c m (msg_tm E ty m) d =
      Inr ((secs_of (msg_time m), datetime_text (msg_tm E ty m)), colored (length d) (msg_tm E ty m) m,
        d @ full_text (msg_tm E ty m) m)"
    using pf(6) by (intro full_formatter_eq m) (auto simp: msg_tm_def)
  then show ?thesis
    using pf unfolding pf_format_def refresh_tm_eq [OF pf(4) m(3) pf(1)]
    by (auto simp: msg_tm_def Let_def append_string_view_def default_inv_def tm_cache_ok_def)
qed

fun format_msgs ::
  "'c fmt_env \<Rightarrow> 'c pattern_formatter \<Rightarrow> log_msg list \<Rightarrow> ('c pattern_formatter \<times> (log_msg \<times> string) list) res" where
  "format_msgs E pf [] = Inr (pf, [])"
| "format_msgs E pf (m # ms) =
     andthen (pf_format E pf m []) (\<lambda>(pf, m', s).
     andthen (format_msgs E pf ms) (\<lambda>(pf, out). Inr (pf, (m', s) # out)))"

lemma default_format_msgs:
  assumes "default_inv E ty e pf" and "\<forall>m\<in>set ms. loggable E ty m"
  shows "\<exists>pf' out. format_msgs E pf ms = Inr (pf', out) \<and> list_all2 (\<lambda>m (m', s).
     m' = colored 0 (msg_tm E ty m) m \<and> s = full_text (msg_tm E ty m) m @ e) ms out"
  using assms
proof (induction ms arbitrary: pf)
  case (Cons m ms)
  then obtain pf1 where "pf_format E pf m [] =
      Inr (pf1, colored 0 (msg_tm E ty m) m, full_text (msg_tm E ty m) m @ e)" "default_inv E ty e pf1"
    using default_format [of E ty e pf m "[]"] by auto
  moreover from this Cons obtain pf2 out where "format_msgs E pf1 ms = Inr (pf2, out)"
      "list_all2 (\<lambda>m (m', s). m' = colored 0 (msg_tm E ty m) m \<and> s = full_text (msg_tm E ty m) m @ e) ms out"
    by fastforce
  ultimately show ?case by simp
qed simp

section \<open>Patterns without state\<close>

fun plain :: "'c flag_formatter \<Rightarrow> bool" where
  "plain (Flag k P p) = (sized_class k \<and> pad_width p \<le> 64 \<and> (P = Scoped \<longleftrightarrow> pad_enabled p))"
| "plain (ch_formatter c) = True"
| "plain (aggregate_formatter s) = True"
| "plain f = False"

fun piece :: "'c fmt_env \<Rightarrow> log_msg \<Rightarrow> tm \<Rightarrow> 'c flag_formatter \<Rightarrow> string" where
  "piece E m t (Flag k P p) = field P p (flag_text E k m t)"
| "piece E m t (ch_formatter c) = [c]"
| "piece E m t (aggregate_formatter s) = s"
| "piece E m t f = []"

lemma plain_format:
  assumes "plain f" and "tm_ok t" and "msg_ok m"
  shows "flag_format E f m t d = Inr (f, m, d @ piece E m t f)"
  using assms
  by (cases f) (auto simp: unchanged_def class_prints_text ch_formatter_format_def aggregate_formatter_format_def
      text_simps)

lemma plain_format_all:
  assumes "list_all plain fs" and "tm_ok t" and "msg_ok m"
  shows "format_all E fs m t d = Inr (fs, m, d @ concat (map (piece E m t) fs))"
  using assms(1) by (induction fs arbitrary: d) (simp_all add: plain_format assms(2,3))

fun is_literal :: "'c flag_formatter \<Rightarrow> bool" where
  "is_literal (ch_formatter c) = True"
| "is_literal (aggregate_formatter s) = True"
| "is_literal f = False"

lemma literal_format_all:
  "list_all is_literal fs \<Longrightarrow> format_all E fs m t d = Inr (fs, m, d @ concat (map (piece E m t) fs))"
proof (induction fs arbitrary: d)
  case (Cons f fs)
  then show ?case
    by (cases f) (auto simp: unchanged_def ch_formatter_format_def aggregate_formatter_format_def text_simps)
qed simp

definition escape :: "string \<Rightarrow> string" where
  "escape s = concat (map (\<lambda>c. if c = CHR ''%'' then ''%%'' else [c]) s)"

definition chars_of :: "string option \<Rightarrow> string" where
  "chars_of u = (case u of None \<Rightarrow> [] | Some s \<Rightarrow> s)"

lemma percent_padspec: "handle_padspec (CHR ''%'' # s) = (no_padding, CHR ''%'' # s)"
  by (simp add: handle_padspec_def padspec_side_def is_digit_def)

lemma percent_flag:
  "custom_handlers pf (CHR ''%'') = None \<Longrightarrow>
     handle_flag now P (CHR ''%'') p pf = add_formatter (ch_formatter (CHR ''%'')) pf"
  by (simp add: handle_flag_def time_flags_def other_flags_def)

lemma compile_escaped:
  assumes "custom_handlers pf (CHR ''%'') = None"
  shows "\<exists>fs. compile_loop now (escape s) u pf = pf\<lparr>formatters := formatters pf @ fs\<rparr> \<and>
     list_all is_literal fs \<and> (\<forall>E m t. concat (map (piece E m t) fs) = chars_of u @ s)"
  using assms
proof (induction s arbitrary: u pf)
  case Nil
  show ?case
  proof (cases u)
    case None
    then show ?thesis by (intro exI [of _ "[]"]) (simp add: escape_def flush_chars_def chars_of_def)
  next
    case (Some x)
    then show ?thesis
      by (intro exI [of _ "[aggregate_formatter x]"])
        (simp add: escape_def flush_chars_def chars_of_def add_formatter_def)
  qed
next
  case (Cons c s)
  show ?case
  proof (cases "c = CHR ''%''")
    case False
    with Cons.IH [OF Cons.prems, of "Some (chars_of u @ [c])"] show ?thesis
      by (simp add: escape_def chars_of_def)
  next
    case True
    let ?pf = "add_formatter (ch_formatter (CHR ''%'')) (flush_chars u pf)"
    have "custom_handlers (flush_chars u pf) (CHR ''%'') = None"
      using Cons.prems by (cases u) (simp_all add: flush_chars_def add_formatter_def)
    then have loop: "compile_loop now (escape (c # s)) u pf = compile_loop now (escape s) None ?pf"
      using True by (simp add: escape_def percent_padspec percent_flag no_padding_def)
    have "custom_handlers ?pf (CHR ''%'') = None"
      using Cons.prems by (cases u) (simp_all add: flush_chars_def add_formatter_def)
    from Cons.IH [OF this, of None] obtain fs where fs:
      "compile_loop now (escape s) None ?pf = ?pf\<lparr>formatters := formatters ?pf @ fs\<rparr>"
      "list_all is_literal fs" "\<forall>E m t. concat (map (piece E m t) fs) = s"
      by (auto simp: chars_of_def)
    show ?thesis
    proof (cases u)
      case None
      with fs True loop show ?thesis
        by (intro exI [of _ "ch_formatter (CHR ''%'') # fs"])
          (simp add: add_formatter_def flush_chars_def chars_of_def)
    next
      case (Some x)
      with fs True loop show ?thesis
        by (intro exI [of _ "aggregate_formatter x # ch_formatter (CHR ''%'') # fs"])
          (simp add: add_formatter_def flush_chars_def chars_of_def)
    qed
  qed
qed

section \<open>The documented pattern of the default layout\<close>

definition full_pattern :: string where
  "full_pattern = ''[%Y-%m-%d %H:%M:%S.%e] [%n] [%l] [%s:%#] %v''"

definition full_pattern_flags :: "'c flag_formatter list" where
  "full_pattern_flags =
     (let f = (\<lambda>k. Flag k Null no_padding); s = aggregate_formatter
      in [s ''['', f Y_formatter, s ''-'', f m_formatter, s ''-'', f d_formatter, s '' '', f H_formatter,
          s '':'', f M_formatter, s '':'', f S_formatter, s ''.'', f e_formatter, s ''] ['', f name_formatter,
          s ''] ['', f level_formatter, s ''] ['', f short_filename_formatter, s '':'',
          f source_linenum_formatter, s ''] '', f v_formatter])"

lemma letter_padspec:
  "\<not> is_digit c \<Longrightarrow> c \<noteq> CHR ''-'' \<Longrightarrow> c \<noteq> CHR ''='' \<Longrightarrow> handle_padspec (c # s) = (no_padding, c # s)"
  by (simp add: handle_padspec_def padspec_side_def)

lemma compile_full_pattern:
  "pattern_formatter_new now full_pattern ty e (\<lambda>c. None) =
     \<lparr>pattern = full_pattern, eol = e, time_type = ty, needs_localtime = True, cached_tm = tm_zero,
      last_log_secs = 0, formatters = full_pattern_flags, custom_handlers = \<lambda>c. None\<rparr>"
  by (simp add: pattern_formatter_new_def compile_pattern_def full_pattern_def letter_padspec is_digit_def
      no_padding_def flush_chars_def handle_flag_def time_flags_def other_flags_def add_formatter_def
      full_pattern_flags_def)

lemma full_pattern_text:
  assumes "logger_name m \<noteq> []" and "\<not> source_loc_empty (msg_source m)"
  shows "concat (map (piece E m t) full_pattern_flags) = full_text t m"
  using assms
  by (simp add: full_pattern_flags_def field_def flag_text_def full_text_def full_head_def datetime_text_def
      level_text_def Let_def)

lemma full_pattern_plain: "list_all plain full_pattern_flags"
  by (simp add: full_pattern_flags_def sized_class_def no_padding_def)

lemma replicate_numeral: "replicate (numeral n) x = x # replicate (pred_numeral n) x"
  by (simp add: numeral_eq_Suc)

section \<open>Properties\<close>

definition sample_tm :: tm where
  "sample_tm = \<lparr>tm_sec = 7, tm_min = 5, tm_hour = 0, tm_mday = 9, tm_mon = 8, tm_year = 124, tm_wday = 1,
     tm_yday = 252, tm_isdst = 0, tm_gmtoff = 0\<rparr>"

definition sample_env :: "unit fmt_env" where
  "sample_env = \<lparr>get_tm = \<lambda>ty s. sample_tm, os_pid = 4242, custom_format = \<lambda>h p m t d. Inr (h, m, d)\<rparr>"

definition sample_msg :: "string \<Rightarrow> log_msg" where
  "sample_msg s = log_msg_new 1725840307123456789 77
     \<lparr>filename = Some ''src/TcpServer.cpp'', line_no = 42, funcname = Some ''start''\<rparr> ''tractor'' level_info s"

lemma sample_tm_ok: "tm_ok sample_tm"
  by (simp add: tm_ok_def sample_tm_def)

lemma sample_msg_ok: "msg_ok (sample_msg s)"
  by (simp add: msg_ok_def sample_msg_def log_msg_new_def)

lemma sample_loggable: "loggable sample_env ty (sample_msg s)"
  using sample_tm_ok sample_msg_ok [of s]
  by (simp add: loggable_def msg_tm_def sample_env_def) (simp add: sample_msg_def log_msg_new_def)



text \<open>
  The default layout. Whatever sequence of messages the default formatter is given
  (after the first second of the epoch, with calendar times in range), its two caches never show:
  each message comes out as the date and time of its own second, its milliseconds, the logger
  name, level, source location and text in the documented order, and the color range
  left in the message delimits the level name.
\<close>

theorem default_layout:
  assumes "\<forall>m\<in>set ms. loggable E ty m"
  shows "\<exists>pf' out. format_msgs E (pattern_formatter_default ty e) ms = Inr (pf', out) \<and>
     list_all2 (\<lambda>m (m', s). s = full_text (msg_tm E ty m) m @ e \<and>
       take (color_range_end m' - color_range_start m') (drop (color_range_start m') s) = level_text m) ms out"
proof -
  from default_format_msgs [OF default_inv_new assms] obtain pf' out where
    out: "format_msgs E (pattern_formatter_default ty e) ms = Inr (pf', out)"
    "list_all2 (\<lambda>m (m', s). m' = colored 0 (msg_tm E ty m) m \<and> s = full_text (msg_tm E ty m) m @ e) ms out"
    by blast
  have "list_all2 (\<lambda>m (m', s). s = full_text (msg_tm E ty m) m @ e \<and>
       take (color_range_end m' - color_range_start m') (drop (color_range_start m') s) = level_text m) ms out"
    using out(2) by (rule list_all2_mono) (use colored_range [of "[]"] in auto)
  with out(1) show ?thesis by blast
qed

theorem default_layout_witness:
  "\<exists>pf' out. format_msgs sample_env (pattern_formatter_default time_utc ''$'') [sample_msg ''a'', sample_msg ''b''] =
     Inr (pf', out) \<and> map snd out = [full_text sample_tm (sample_msg ''a'') @ ''$'', full_text sample_tm (sample_msg ''b'') @ ''$'']"
proof -
  have "msg_tm sample_env time_utc m = sample_tm" for m by (simp add: msg_tm_def sample_env_def)
  then show ?thesis
    using default_layout [of "[sample_msg ''a'', sample_msg ''b'']" sample_env time_utc "''$''"]
    by (auto simp: sample_loggable list_all2_Cons1)
qed

text \<open>
  The full formatter against the pattern in its comment,
  \<open>[%Y-%m-%d %H:%M:%S.%e] [%n] [%l] [%s:%#] %v\<close>: for a message with a logger name and a
  source location, a formatter compiled from that pattern prints what the
  default formatter prints.
\<close>

theorem full_matches_pattern:
  assumes "loggable E ty m" and "logger_name m \<noteq> []" and "\<not> source_loc_empty (msg_source m)"
  shows "\<exists>pf1 m1 pf2 m2 s.
     pf_format E (pattern_formatter_default ty e) m d = Inr (pf1, m1, s) \<and>
     pf_format E (pattern_formatter_new now full_pattern ty e (\<lambda>c. None)) m d = Inr (pf2, m2, s)"
proof -
  let ?pf = "pattern_formatter_new now full_pattern ty e (\<lambda>c. None)"
  have m: "msg_ok m" "tm_ok (msg_tm E ty m)" "secs_of (msg_time m) \<noteq> 0"
    using assms(1) by (auto simp: loggable_def secs_of_def div_eq_0_iff)
  have pf: "tm_cache_ok E ?pf" "needs_localtime ?pf" "eol ?pf = e" "time_type ?pf = ty"
      "formatters ?pf = full_pattern_flags"
    by (simp_all add: compile_full_pattern tm_cache_ok_def)
  have "\<exists>pf2 m2. pf_format E ?pf m d = Inr (pf2, m2, d @ full_text (msg_tm E ty m) m @ e)"
    using plain_format_all [OF full_pattern_plain m(2,1), of E d]
    unfolding pf_format_def refresh_tm_eq [OF pf(1) m(3) pf(2)]
    by (simp add: Let_def pf(3-5) msg_tm_def full_pattern_text [OF assms(2,3)] append_string_view_def)
  moreover obtain pf1 m1 where "pf_format E (pattern_formatter_default ty e) m d =
      Inr (pf1, m1, d @ full_text (msg_tm E ty m) m @ e)"
    using default_format [OF default_inv_new assms(1)] by blast
  ultimately show ?thesis by blast
qed

theorem full_matches_pattern_witness:
  "\<exists>pf1 m1 pf2 m2 s.
     pf_format sample_env (pattern_formatter_default time_utc ''$'') (sample_msg ''a'') [] = Inr (pf1, m1, s) \<and>
     pf_format sample_env (pattern_formatter_new 0 full_pattern time_utc ''$'' (\<lambda>c. None)) (sample_msg ''a'') [] =
       Inr (pf2, m2, s)"
  using full_matches_pattern [OF sample_loggable, of "''a''"]
  by (simp add: sample_msg_def log_msg_new_def source_loc_empty_def)

text \<open>
  Text in a pattern. A text whose percent signs are doubled is compiled to a
  pattern that prints the text itself, for every message, and needs no calendar time.
\<close>

theorem pattern_text_roundtrip:
  assumes "custom (CHR ''%'') = None"
  shows "\<exists>pf'. pf_format E (pattern_formatter_new now (escape s) ty e custom) m d = Inr (pf', m, d @ s @ e) \<and>
     \<not> needs_localtime pf'"
proof -
  let ?pf = "\<lparr>pattern = escape s, eol = e, time_type = ty, needs_localtime = False, cached_tm = tm_zero,
        last_log_secs = 0, formatters = [], custom_handlers = custom\<rparr> :: 'a pattern_formatter"
  from compile_escaped [of ?pf now s None] assms obtain fs where fs:
    "compile_loop now (escape s) None ?pf = ?pf\<lparr>formatters := fs\<rparr>" "list_all is_literal fs"
    "\<forall>(E :: 'a fmt_env) m t. concat (map (piece E m t) fs) = s"
    by (auto simp: chars_of_def)
  then have "pattern_formatter_new now (escape s) ty e custom = ?pf\<lparr>formatters := fs\<rparr>"
    by (simp add: pattern_formatter_new_def compile_pattern_def)
  with fs(3) show ?thesis
    by (simp add: pf_format_def refresh_tm_def literal_format_all [OF fs(2)] append_string_view_def)
qed

theorem pattern_text_roundtrip_witness:
  "\<exists>pf'. pf_format sample_env (pattern_formatter_new 0 ''100%% of %%v'' time_local ''!'' (\<lambda>c. None))
     (sample_msg ''x'') [] = Inr (pf', sample_msg ''x'', ''100% of %v!'')"
  using pattern_text_roundtrip [of "\<lambda>c. None" sample_env 0 "''100% of %v''" time_local "''!''" "sample_msg ''x''" "[]"]
  by (auto simp: escape_def)

text \<open>
  Property C29. The date flag and truncation. \<open>%D\<close> announces ten characters and prints eight, so
  with truncation to a width below ten it cuts two characters too many: the field has two
  characters less than asked for, a width below two removes text that other flags have printed,
  and when there is none the buffer is resized to a negative size, an allocation that throws.
\<close>

theorem date_flag_truncated:
  assumes "tm_ok t" and "truncate_it p" and "pad_width p < 10"
  shows "class_format E D_formatter Scoped p m t d =
     (if length d + pad_width p < 2 then Inl Bad_alloc
      else Inr (take (length d + pad_width p - 2) (d @ flag_text E D_formatter m t)))"
proof -
  let ?s = "flag_text E D_formatter m t"
  have s: "length ?s = 8"
    using tm_ok_two [OF assms(1)] year_of_century [OF assms(1)] by (simp add: flag_text_def Let_def)
  have body: "class_format E D_formatter Scoped p m t d = with_padder Scoped 10 p (\<lambda>d. Inr (d @ ?s)) d"
    by (simp add: D_formatter_format_def text_simps)
  have sz: "int (length d) + 8 + (int (pad_width p) - 10) = int (length d) + int (pad_width p) - 2" by simp
  show ?thesis
    unfolding body using assms(2,3) s
    by (auto simp: with_padder.simps scoped_padder_begin_def scoped_padder_end_def buf_resize_def Let_def
        nat_diff_distrib' nat_add_distrib check_def intro!: arg_cong2 [where f = take])
qed

theorem date_flag_truncated_witness:
  "class_format sample_env D_formatter Scoped (padding_info_new 1 pad_left True) (sample_msg ''x'') sample_tm [] =
     Inl Bad_alloc"
  using date_flag_truncated [OF sample_tm_ok, of "padding_info_new 1 pad_left True" sample_env "sample_msg ''x''" "[]"]
  by (simp add: padding_info_new_def)

section \<open>Flags that fit their padder\<close>

text \<open>
  The class of padder of a flag is chosen by the compiler from its padding, and the width of a padding is limited: the padding
  is taken from an array of 64 spaces.
\<close>

definition padding_wf :: "padder \<Rightarrow> padding_info \<Rightarrow> bool" where
  "padding_wf P p \<longleftrightarrow> (P = Scoped \<longleftrightarrow> pad_enabled p) \<and> pad_width p \<le> max_width"

fun flag_wf :: "'c flag_formatter \<Rightarrow> bool" where
  "flag_wf (Flag k P p) = padding_wf P p"
| "flag_wf (z_formatter P p c) = padding_wf P p"
| "flag_wf (elapsed_formatter P p u lm) = (padding_wf P p \<and> u \<in> {1, 1000, 1000000, 1000000000})"
| "flag_wf (color_start_formatter p) = (pad_width p \<le> max_width)"
| "flag_wf (color_stop_formatter p) = (pad_width p \<le> max_width)"
| "flag_wf (full_formatter p c) = (pad_width p \<le> max_width)"
| "flag_wf (custom_formatter h p) = (pad_width p \<le> max_width)"
| "flag_wf (ch_formatter c) = True"
| "flag_wf (aggregate_formatter s) = True"

lemma handle_padspec_wf: "pad_width (fst (handle_padspec s)) \<le> max_width"
  by (auto simp: handle_padspec_def no_padding_def padding_info_new_def max_width_def split: prod.splits list.splits)

lemma flag_table_wf:
  assumes "map_of (time_flags @ other_flags now) c = Some (mk, needs)" and "padding_wf P p"
  shows "flag_wf (mk P p)"
proof -
  have "list_all (\<lambda>(c, mk, needs). flag_wf (mk P p)) (time_flags @ other_flags now)"
    using assms(2) by (simp add: time_flags_def other_flags_def padding_wf_def)
  with map_of_SomeD [OF assms(1)] show ?thesis by (fastforce simp: list_all_iff)
qed

lemma handle_flag_wf:
  fixes pf :: "'c pattern_formatter"
  assumes "list_all flag_wf (formatters pf)" and "padding_wf P p"
  shows "list_all flag_wf (formatters (handle_flag now P c p pf))"
proof (cases "map_of (time_flags @ other_flags now) c :: ((padder \<Rightarrow> padding_info \<Rightarrow> 'c flag_formatter) \<times> bool) option")
  case None
  with assms show ?thesis by (auto simp: handle_flag_def add_formatter_def padding_wf_def split: option.split)
next
  case (Some e)
  obtain mk needs where "e = (mk, needs)" by (cases e)
  with Some flag_table_wf [of now c mk needs P p] assms show ?thesis
    by (auto simp: handle_flag_def add_formatter_def padding_wf_def Let_def simp del: map_of_append split: option.split)
qed

lemma flush_chars_wf: "list_all flag_wf (formatters pf) \<Longrightarrow> list_all flag_wf (formatters (flush_chars u pf))"
  by (simp add: flush_chars_def add_formatter_def split: option.split)

lemma compile_loop_wf: "list_all flag_wf (formatters pf) \<Longrightarrow> list_all flag_wf (formatters (compile_loop now s u pf))"
proof (induction now s u pf rule: compile_loop.induct)
  case (2 now c s u pf)
  show ?case
  proof (cases "c = CHR ''%''")
    case True
    obtain p r where p: "handle_padspec s = (p, r)" by fastforce
    then have "padding_wf (if pad_enabled p then Scoped else Null) p"
      using handle_padspec_wf [of s] by (simp add: padding_wf_def)
    then have "list_all flag_wf (formatters (handle_flag now (if pad_enabled p then Scoped else Null) f p (flush_chars u pf)))" for f
      using 2(3) by (intro handle_flag_wf flush_chars_wf)
    with 2 True p show ?thesis by (cases r) (auto intro: flush_chars_wf)
  qed (use 2 in auto)
qed (simp add: flush_chars_wf)

lemma flag_format_wf: "flag_wf f \<Longrightarrow> flag_format E f m t d = Inr (f', m', d') \<Longrightarrow> flag_wf f'"
  by (cases f) (auto simp: unchanged_def res_simps)

lemma format_all_wf: "list_all flag_wf fs \<Longrightarrow> format_all E fs m t d = Inr (fs', m', d') \<Longrightarrow> list_all flag_wf fs'"
  by (induction fs arbitrary: m d fs' m' d') (auto simp: res_simps dest: flag_format_wf)

lemma format_msgs_wf: "list_all flag_wf (formatters pf) \<Longrightarrow> format_msgs E pf ms = Inr (pf', out) \<Longrightarrow> list_all flag_wf (formatters pf')"
proof (induction ms arbitrary: pf out)
  case (Cons m ms)
  from Cons.prems(2) obtain pf1 m1 s1 out1 where "pf_format E pf m [] = Inr (pf1, m1, s1)" "format_msgs E pf1 ms = Inr (pf', out1)"
    by (auto simp: res_simps)
  moreover have "formatters (refresh_tm E m pf) = formatters pf" by (simp add: refresh_tm_def Let_def)
  ultimately have "list_all flag_wf (formatters pf1)"
    using Cons.prems(1) by (auto simp: pf_format_def Let_def res_simps dest: format_all_wf)
  with Cons.IH \<open>format_msgs E pf1 ms = Inr (pf', out1)\<close> show ?case by blast
qed simp



end
