(* ===== verification/Console_Sinks.thy ===== *)
theory Console_Sinks
  imports Log_Layout
begin

text \<open>
  Sinks that write to a stream: the standard streams (\<open>sinks/stdout_sinks(-inl).h\<close>), with colors
  (\<open>sinks/ansicolor_sink(-inl).h\<close>) and an output stream of the program (\<open>sinks/ostream_sink.h\<close>), with the part they take
  from \<open>sinks/base_sink(-inl).h\<close>. Their formatter is a pattern formatter. The stream takes what is written to it; the results
  of \<open>fwrite\<close> and \<open>fflush\<close> are ignored by the code. The mutex makes each operation a single step. The color range is part of
  the message, so the operations return the message too.
\<close>

record 'c stream_sink =
  ss_out :: string
  ss_flushed :: nat
  ss_formatter :: "'c pattern_formatter"

definition fwrite :: "string \<Rightarrow> ('c, 'z) stream_sink_scheme \<Rightarrow> ('c, 'z) stream_sink_scheme" where
  "fwrite t s = s\<lparr>ss_out := ss_out s @ t\<rparr>"

definition fflush :: "('c, 'z) stream_sink_scheme \<Rightarrow> ('c, 'z) stream_sink_scheme" where
  "fflush s = s\<lparr>ss_flushed := length (ss_out s)\<rparr>"

definition format_to ::
  "'c fmt_env \<Rightarrow> log_msg \<Rightarrow> ('c, 'z) stream_sink_scheme \<Rightarrow> (log_msg \<times> string \<times> ('c, 'z) stream_sink_scheme) res" where
  "format_to E m s =
     andthen (pf_format E (ss_formatter s) m []) (\<lambda>(pf, m, formatted). Inr (m, formatted, s\<lparr>ss_formatter := pf\<rparr>))"

section \<open>The standard streams and output streams\<close>

definition stdout_sink_new :: "'c stream_sink" where
  "stdout_sink_new = \<lparr>ss_out = [], ss_flushed = 0, ss_formatter = pattern_formatter_default time_local [CHR 0x0A]\<rparr>"

definition stdout_log :: "'c fmt_env \<Rightarrow> log_msg \<Rightarrow> 'c stream_sink \<Rightarrow> (log_msg \<times> 'c stream_sink) res" where
  "stdout_log E m s = andthen (format_to E m s) (\<lambda>(m, formatted, s). Inr (m, fflush (fwrite formatted s)))"

definition stream_flush :: "('c, 'z) stream_sink_scheme \<Rightarrow> ('c, 'z) stream_sink_scheme" where
  "stream_flush s = fflush s"

definition stream_set_formatter :: "'c pattern_formatter \<Rightarrow> ('c, 'z) stream_sink_scheme \<Rightarrow> ('c, 'z) stream_sink_scheme" where
  "stream_set_formatter pf s = s\<lparr>ss_formatter := pf\<rparr>"

definition stream_set_pattern :: "int \<Rightarrow> string \<Rightarrow> ('c, 'z) stream_sink_scheme \<Rightarrow> ('c, 'z) stream_sink_scheme" where
  "stream_set_pattern now pat s =
     stream_set_formatter (pattern_formatter_new now pat time_local [CHR 0x0A] (\<lambda>c. None)) s"

record 'c ostream_sink = "'c stream_sink" +
  force_flush :: bool

definition ostream_sink_it :: "'c fmt_env \<Rightarrow> log_msg \<Rightarrow> 'c ostream_sink \<Rightarrow> (log_msg \<times> 'c ostream_sink) res" where
  "ostream_sink_it E m s =
     andthen (format_to E m s) (\<lambda>(m, formatted, s).
       let s = fwrite formatted s in Inr (m, if force_flush s then fflush s else s))"

section \<open>Colors\<close>

datatype color_mode = color_always | color_automatic | color_never

definition color_reset :: string where
  "color_reset = [CHR 0x1B] @ ''[m''"

text \<open>The codes of the levels: white, cyan, green, bold yellow, bold red, bold on red, reset.\<close>

definition level_colors :: "string list" where
  "level_colors =
     [[CHR 0x1B] @ ''[37m'', [CHR 0x1B] @ ''[36m'', [CHR 0x1B] @ ''[32m'', [CHR 0x1B] @ ''[33m'' @ [CHR 0x1B] @ ''[1m'',
      [CHR 0x1B] @ ''[31m'' @ [CHR 0x1B] @ ''[1m'', [CHR 0x1B] @ ''[1m'' @ [CHR 0x1B] @ ''[41m'', color_reset]"

definition color_terms :: "string list" where
  "color_terms = [''ansi'', ''color'', ''console'', ''cygwin'', ''gnome'', ''konsole'', ''kterm'', ''linux'',
     ''msys'', ''putty'', ''rxvt'', ''screen'', ''vt100'', ''xterm'', ''alacritty'', ''vt102'']"

text \<open>The environment variables \<open>COLORTERM\<close> and \<open>TERM\<close>.\<close>

definition is_color_terminal :: "string option \<Rightarrow> string option \<Rightarrow> bool" where
  "is_color_terminal env_colorterm env_term =
     (if env_colorterm \<noteq> None then True
      else (case env_term of None \<Rightarrow> False | Some t \<Rightarrow> list_ex (\<lambda>term. sublist term t) color_terms))"

record 'c ansicolor_sink = "'c stream_sink" +
  should_do_colors :: bool
  level_color :: "string list"

text \<open>\<open>in_term\<close> is \<open>isatty\<close> of the stream.\<close>

definition set_color_mode :: "bool \<Rightarrow> string option \<Rightarrow> string option \<Rightarrow> color_mode \<Rightarrow> 'c ansicolor_sink \<Rightarrow> 'c ansicolor_sink" where
  "set_color_mode in_term colorterm term mode s =
     s\<lparr>should_do_colors :=
         (case mode of
            color_always \<Rightarrow> True
          | color_automatic \<Rightarrow> in_term \<and> is_color_terminal colorterm term
          | color_never \<Rightarrow> False)\<rparr>"

definition ansicolor_sink_new :: "bool \<Rightarrow> string option \<Rightarrow> string option \<Rightarrow> color_mode \<Rightarrow> 'c ansicolor_sink" where
  "ansicolor_sink_new in_term colorterm term mode =
     (set_color_mode in_term colorterm term mode
       \<lparr>ss_out = [], ss_flushed = 0, ss_formatter = pattern_formatter_default time_local [CHR 0x0A],
        should_do_colors = False, level_color = replicate 7 []\<rparr>)\<lparr>level_color := level_colors\<rparr>"

text \<open>The array of colors is indexed without a check.\<close>

definition set_color :: "level_enum \<Rightarrow> string \<Rightarrow> 'c ansicolor_sink \<Rightarrow> 'c ansicolor_sink res" where
  "set_color l color s =
     check Bad_access (level_int l < length (level_color s)) (Inr (s\<lparr>level_color := (level_color s)[level_int l := color]\<rparr>))"

definition print_ccode :: "string \<Rightarrow> 'c ansicolor_sink \<Rightarrow> 'c ansicolor_sink" where
  "print_ccode code s = fwrite code s"

text \<open>The number of characters is a \<open>size_t\<close> difference; reading past the buffer is an error.\<close>

definition print_range :: "string \<Rightarrow> nat \<Rightarrow> nat \<Rightarrow> 'c ansicolor_sink \<Rightarrow> 'c ansicolor_sink res" where
  "print_range formatted start stop s =
     (let n = usize_sub stop start
      in check Bad_access (start + n \<le> length formatted) (Inr (fwrite (take n (drop start formatted)) s)))"

definition ansicolor_log :: "'c fmt_env \<Rightarrow> log_msg \<Rightarrow> 'c ansicolor_sink \<Rightarrow> (log_msg \<times> 'c ansicolor_sink) res" where
  "ansicolor_log E msg s =
     andthen (format_to E (msg\<lparr>color_range_start := 0, color_range_end := 0\<rparr>) s) (\<lambda>(m, formatted, s).
       andthen
         (if should_do_colors s \<and> color_range_end m > color_range_start m
          then andthen (print_range formatted 0 (color_range_start m) s) (\<lambda>s.
            andthen (array_at (level_color s) (level_int (msg_level m))) (\<lambda>code.
            andthen (print_range formatted (color_range_start m) (color_range_end m) (print_ccode code s)) (\<lambda>s.
            print_range formatted (color_range_end m) (length formatted) (print_ccode color_reset s))))
          else print_range formatted 0 (length formatted) s)
         (\<lambda>s. Inr (m, fflush s)))"

section \<open>What the color sink writes\<close>

definition color_text :: "string \<Rightarrow> nat \<Rightarrow> nat \<Rightarrow> string \<Rightarrow> string" where
  "color_text code a b t =
     (if a < b then take a t @ code @ take (b - a) (drop a t) @ color_reset @ drop b t else t)"

definition shown_text :: "'c ansicolor_sink \<Rightarrow> log_msg \<Rightarrow> string \<Rightarrow> string" where
  "shown_text s m t =
     (if should_do_colors s
      then color_text (level_color s ! level_int (msg_level m)) (color_range_start m) (color_range_end m) t else t)"

lemma print_range_ok:
  assumes "a \<le> b" and "b \<le> length t" and "length t < 2 ^ 64"
  shows "print_range t a b s = Inr (fwrite (take (b - a) (drop a t)) s)"
  using assms by (simp add: print_range_def usize_simps Let_def)

lemma ansicolor_log_eq:
  assumes "pf_format E (ss_formatter s) (m\<lparr>color_range_start := 0, color_range_end := 0\<rparr>) [] = Inr (pf, m', t)"
    and "color_range_end m' \<le> length t" and "length t < 2 ^ 64" and "level_int (msg_level m') < length (level_color s)"
  shows "ansicolor_log E m s = Inr (m', s\<lparr>ss_out := ss_out s @ shown_text s m' t,
     ss_flushed := length (ss_out s @ shown_text s m' t), ss_formatter := pf\<rparr>)"
  using assms
  by (auto simp: ansicolor_log_def format_to_def print_range_ok array_at_def print_ccode_def fwrite_def fflush_def shown_text_def
      color_text_def)

text \<open>A sequence of messages; the color ranges left in them are not used any more.\<close>

definition ansicolor_log_all :: "'c fmt_env \<Rightarrow> log_msg list \<Rightarrow> 'c ansicolor_sink \<Rightarrow> 'c ansicolor_sink res" where
  "ansicolor_log_all E = fold_res (\<lambda>m s. andthen (ansicolor_log E m s) (\<lambda>(m, s). Inr s))"

section \<open>The default layout in color\<close>

definition color_line :: "tm \<Rightarrow> log_msg \<Rightarrow> string" where
  "color_line t m = full_head t m @ level_colors ! level_int (msg_level m) @ level_text m @ color_reset @
     drop (length (full_head t m @ level_text m)) (full_text t m) @ [CHR 0x0A]"

lemma reset_range_full [simp]:
  "full_head t (m\<lparr>color_range_start := a, color_range_end := b\<rparr>) = full_head t m"
  "full_text t (m\<lparr>color_range_start := a, color_range_end := b\<rparr>) = full_text t m"
  "level_text (m\<lparr>color_range_start := a, color_range_end := b\<rparr>) = level_text m"
  "msg_tm E ty (m\<lparr>color_range_start := a, color_range_end := b\<rparr>) = msg_tm E ty m"
  "msg_ok (m\<lparr>color_range_start := a, color_range_end := b\<rparr>) = msg_ok m"
  "loggable E ty (m\<lparr>color_range_start := a, color_range_end := b\<rparr>) = loggable E ty m"
  by (simp_all add: full_text_def full_head_def level_text_def msg_tm_def msg_ok_def loggable_def)

definition color_sink_ok :: "'c fmt_env \<Rightarrow> 'c ansicolor_sink \<Rightarrow> bool" where
  "color_sink_ok E s \<longleftrightarrow> default_inv E time_local [CHR 0x0A] (ss_formatter s) \<and> level_color s = level_colors"

lemma level_in_colors: "msg_ok m \<Longrightarrow> level_int (msg_level m) < length level_colors \<and> level_text m \<noteq> []"
  by (cases "msg_level m") (simp_all add: msg_ok_def level_colors_def level_text_def level_string_views_def)

lemma ansicolor_log_default:
  assumes "color_sink_ok E s" and "loggable E time_local m" and "length (full_text (msg_tm E time_local m) m) < 2 ^ 64 - 1"
  shows "\<exists>m' s'. ansicolor_log E m s = Inr (m', s') \<and> color_sink_ok E s' \<and> should_do_colors s' = should_do_colors s \<and>
     ss_out s' = ss_out s @ (if should_do_colors s then color_line (msg_tm E time_local m) m
       else full_text (msg_tm E time_local m) m @ [CHR 0x0A]) \<and> ss_flushed s' = length (ss_out s')"
proof -
  let ?t = "msg_tm E time_local m" and ?m = "m\<lparr>color_range_start := 0, color_range_end := 0\<rparr>"
  let ?m' = "colored 0 ?t ?m" and ?x = "full_text ?t m @ [CHR 0x0A]"
  from default_format [of E time_local "[CHR 0x0A]" "ss_formatter s" ?m "[]"] assms(1,2) obtain pf where
    pf: "pf_format E (ss_formatter s) ?m [] = Inr (pf, ?m', ?x)" "default_inv E time_local [CHR 0x0A] pf"
    by (auto simp: color_sink_ok_def)
  have ok: "msg_ok m" using assms(2) by (simp add: loggable_def)
  have "color_range_end ?m' \<le> length ?x" by (simp add: colored_def full_text_def)
  moreover have "length ?x < 2 ^ 64" using assms(3) by simp
  moreover have "level_int (msg_level ?m') < length (level_color s)"
    using level_in_colors [OF ok] assms(1) by (simp add: colored_def color_sink_ok_def)
  ultimately have log: "ansicolor_log E m s = Inr (?m', s\<lparr>ss_out := ss_out s @ shown_text s ?m' ?x,
      ss_flushed := length (ss_out s @ shown_text s ?m' ?x), ss_formatter := pf\<rparr>)" by (rule ansicolor_log_eq [OF pf(1)])
  have "shown_text s ?m' ?x = (if should_do_colors s then color_line ?t m else ?x)"
    using assms(1) level_in_colors [OF ok]
    by (simp add: shown_text_def color_text_def color_line_def colored_def color_sink_ok_def) (simp add: full_text_def)
  with log pf(2) assms(1) show ?thesis by (simp add: color_sink_ok_def)
qed

text \<open>
  Property C37. The color sink. With the default formatter and colors on, every message comes out in the default layout with the code
  of its level before the level name and the reset code behind it, and is flushed at once; a sink made with colors off writes the
  default layout unchanged.
\<close>

theorem color_sink_default:
  assumes "\<forall>m\<in>set ms. loggable E time_local m \<and> length (full_text (msg_tm E time_local m) m) < 2 ^ 64 - 1"
    and "mode = color_always \<or> mode = color_never"
  shows "\<exists>s'. ansicolor_log_all E ms (ansicolor_sink_new in_term colorterm term mode) = Inr s' \<and> ss_flushed s' = length (ss_out s') \<and>
     ss_out s' = concat (map (\<lambda>m. if mode = color_always then color_line (msg_tm E time_local m) m
       else full_text (msg_tm E time_local m) m @ [CHR 0x0A]) ms)"
proof -
  let ?line = "\<lambda>m. if mode = color_always then color_line (msg_tm E time_local m) m
       else full_text (msg_tm E time_local m) m @ [CHR 0x0A]"
  have "\<exists>s'. ansicolor_log_all E ms s = Inr s' \<and> ss_flushed s' = length (ss_out s') \<and> ss_out s' = ss_out s @ concat (map ?line ms)"
    if "color_sink_ok E s" "should_do_colors s \<longleftrightarrow> mode = color_always" "ss_flushed s = length (ss_out s)" for s
    using assms(1) that
  proof (induction ms arbitrary: s)
    case (Cons m ms)
    from ansicolor_log_default [OF Cons.prems(2), of m] Cons.prems(1) obtain m' s1 where
      s1: "ansicolor_log E m s = Inr (m', s1)" "color_sink_ok E s1" "should_do_colors s1 = should_do_colors s"
      "ss_out s1 = ss_out s @ ?line m" "ss_flushed s1 = length (ss_out s1)" using Cons.prems(3) by auto
    with Cons.IH [of s1] Cons.prems show ?case by (auto simp: ansicolor_log_all_def)
  qed (simp add: ansicolor_log_all_def)
  moreover have "color_sink_ok E (ansicolor_sink_new in_term colorterm term mode)"
    by (simp add: ansicolor_sink_new_def color_sink_ok_def set_color_mode_def default_inv_new)
  ultimately show ?thesis using assms(2) by (fastforce simp: ansicolor_sink_new_def set_color_mode_def)
qed

theorem color_sink_default_witness:
  "\<exists>s'. ansicolor_log_all sample_env [sample_msg ''a''] (ansicolor_sink_new True None None color_always) = Inr s' \<and>
     ss_out s' = color_line sample_tm (sample_msg ''a'')"
proof -
  have "msg_tm sample_env time_local m = sample_tm" for m by (simp add: msg_tm_def sample_env_def)
  moreover have "length (full_text sample_tm (sample_msg ''a'')) < 100" by code_simp
  ultimately show ?thesis
    using color_sink_default [of "[sample_msg ''a'']" sample_env color_always True None None]
    by (auto simp: sample_loggable)
qed

text \<open>A pattern whose truncated date fields cut away text behind the color range makes the sink read outside the buffer.\<close>

lemma overrun_format:
  "map_sum id snd (pf_format sample_env (pattern_formatter_new 0 ''%^ab%$%1!D%1!D'' time_local [CHR 0x0A] (\<lambda>c. None))
     ((sample_msg ''x'')\<lparr>color_range_start := 0, color_range_end := 0\<rparr>) []) =
   Inr ((sample_msg ''x'')\<lparr>color_range_start := 0, color_range_end := 2\<rparr>, [CHR 0x0A])"
  by code_simp

lemma color_range_overrun:
  "ansicolor_log sample_env (sample_msg ''x'')
     (stream_set_pattern 0 ''%^ab%$%1!D%1!D'' (ansicolor_sink_new True None None color_always)) = Inl Bad_access"
proof -
  obtain pf where "pf_format sample_env (pattern_formatter_new 0 ''%^ab%$%1!D%1!D'' time_local [CHR 0x0A] (\<lambda>c. None))
      ((sample_msg ''x'')\<lparr>color_range_start := 0, color_range_end := 0\<rparr>) [] =
      Inr (pf, (sample_msg ''x'')\<lparr>color_range_start := 0, color_range_end := 2\<rparr>, [CHR 0x0A])"
    using overrun_format by (auto simp: map_sum_def split: sum.splits)
  then show ?thesis
    by (simp add: ansicolor_log_def format_to_def stream_set_pattern_def stream_set_formatter_def ansicolor_sink_new_def
        set_color_mode_def print_range_def usize_sub_bounded check_def array_at_def sample_msg_def log_msg_new_def
        level_colors_def print_ccode_def fwrite_def)
qed

end
