(* ===== verification/Circular_Q.thy ===== *)
theory Circular_Q
  imports Log_Common
begin

text \<open>
  The circular queue of the logging library (\<open>details/circular_q.h\<close>) and its users that keep the
  last messages: the backtracer (\<open>details/backtracer.h\<close>) and the ring buffer sink
  (\<open>sinks/ringbuffer_sink.h\<close>). The vector has one slot more than the queue holds.
  The locale \<open>bounded_queue\<close> states what the users rely on: a queue that drops its oldest element
  when it is full. \<open>circular_q\<close> is its interpretation; the users are shown correct through it.
  The allocation of the vector is taken to succeed.
\<close>

section \<open>The queue\<close>

record 'a circular_q =
  max_items :: nat
  cq_head :: nat
  cq_tail :: nat
  overruns :: nat
  cq_v :: "'a list"

text \<open>The default constructor makes a disabled queue.\<close>

definition circular_q_disabled :: "'a circular_q" where
  "circular_q_disabled = \<lparr>max_items = 0, cq_head = 0, cq_tail = 0, overruns = 0, cq_v = []\<rparr>"

text \<open>The elements of the new vector are default constructed: \<open>dflt\<close>.\<close>

definition circular_q_new :: "'a \<Rightarrow> nat \<Rightarrow> 'a circular_q" where
  "circular_q_new dflt n =
     \<lparr>max_items = usize_add n 1, cq_head = 0, cq_tail = 0, overruns = 0,
      cq_v = replicate (usize_add n 1) dflt\<rparr>"

definition cq_incr :: "'a circular_q \<Rightarrow> nat \<Rightarrow> nat res" where
  "cq_incr q i = check Div_by_zero (max_items q \<noteq> 0) (Inr (usize_add i 1 mod max_items q))"

definition cq_push_back :: "'a \<Rightarrow> 'a circular_q \<Rightarrow> 'a circular_q res" where
  "cq_push_back item q =
     (if max_items q > 0
      then check Bad_access (cq_tail q < length (cq_v q))
        (let q = q\<lparr>cq_v := (cq_v q)[cq_tail q := item]\<rparr>
         in andthen (cq_incr q (cq_tail q)) (\<lambda>tl.
            let q = q\<lparr>cq_tail := tl\<rparr>
            in if cq_tail q = cq_head q
               then andthen (cq_incr q (cq_head q)) (\<lambda>hd.
                      Inr (q\<lparr>cq_head := hd, overruns := usize_add (overruns q) 1\<rparr>))
               else Inr q))
      else Inr q)"

definition cq_front :: "'a circular_q \<Rightarrow> 'a res" where
  "cq_front q = array_at (cq_v q) (cq_head q)"

definition cq_size :: "'a circular_q \<Rightarrow> nat" where
  "cq_size q =
     (if cq_head q \<le> cq_tail q then usize_sub (cq_tail q) (cq_head q)
      else usize_sub (max_items q) (usize_sub (cq_head q) (cq_tail q)))"

definition cq_at :: "nat \<Rightarrow> 'a circular_q \<Rightarrow> 'a res" where
  "cq_at i q = asserting (i < cq_size q)
     (check Div_by_zero (max_items q \<noteq> 0) (array_at (cq_v q) (usize_add (cq_head q) i mod max_items q)))"

definition cq_pop_front :: "'a circular_q \<Rightarrow> 'a circular_q res" where
  "cq_pop_front q = andthen (cq_incr q (cq_head q)) (\<lambda>hd. Inr (q\<lparr>cq_head := hd\<rparr>))"

definition cq_empty :: "'a circular_q \<Rightarrow> bool" where
  "cq_empty q \<longleftrightarrow> cq_tail q = cq_head q"

definition cq_full :: "'a circular_q \<Rightarrow> bool" where
  "cq_full q = (if max_items q > 0 then usize_add (cq_tail q) 1 mod max_items q = cq_head q else False)"

definition reset_overrun_counter :: "'a circular_q \<Rightarrow> 'a circular_q" where
  "reset_overrun_counter q = q\<lparr>overruns := 0\<rparr>"

text \<open>Moving a queue: the new value and what is left of the old one.\<close>

definition copy_moveable :: "'a circular_q \<Rightarrow> 'a circular_q \<times> 'a circular_q" where
  "copy_moveable other =
     (other, other\<lparr>max_items := 0, cq_head := 0, cq_tail := 0, overruns := 0, cq_v := []\<rparr>)"

section \<open>Invariant and contents\<close>

definition cq_ok :: "'a circular_q \<Rightarrow> bool" where
  "cq_ok q \<longleftrightarrow> length (cq_v q) = max_items q \<and> max_items q < 2 ^ 63 \<and>
     (if max_items q = 0 then cq_head q = 0 \<and> cq_tail q = 0
      else cq_head q < max_items q \<and> cq_tail q < max_items q)"

text \<open>The number of elements and the elements, oldest first.\<close>

definition cq_count :: "'a circular_q \<Rightarrow> nat" where
  "cq_count q = (cq_tail q + max_items q - cq_head q) mod max_items q"

definition cq_list :: "'a circular_q \<Rightarrow> 'a list" where
  "cq_list q = map (\<lambda>i. cq_v q ! ((cq_head q + i) mod max_items q)) [0..<cq_count q]"

definition cq_cap :: "'a circular_q \<Rightarrow> nat" where
  "cq_cap q = max_items q - 1"

lemma mod_same: "a mod n = b mod n \<Longrightarrow> a \<le> b \<Longrightarrow> b < a + n \<Longrightarrow> a = (b :: nat)"
proof -
  assume a: "a mod n = b mod n" "a \<le> b" "b < a + n"
  then obtain k where "b - a = n * k" by (metis mod_eq_dvd_iff_nat dvdE)
  with a show "a = b" by (cases k) auto
qed

lemma ring_count: "h < m \<Longrightarrow> k < m \<Longrightarrow> ((h + k) mod m + m - h) mod m = (k :: nat)"
proof (cases "h + k < m")
  case False
  moreover assume "h < m" "k < m"
  ultimately have "(h + k) mod m = h + k - m" by (simp add: mod_if)
  with False \<open>k < m\<close> \<open>h < m\<close> show ?thesis by simp
qed simp

lemma usize_incr: "i < m \<Longrightarrow> m < 2 ^ 64 \<Longrightarrow> usize_add i (Suc 0) = Suc i"
  by (simp add: usize_simps)

lemma cq_incr_ok: "cq_ok q \<Longrightarrow> i < max_items q \<Longrightarrow> cq_incr q i = Inr (Suc i mod max_items q)"
  by (simp add: cq_incr_def cq_ok_def usize_incr)

lemma cq_tail_eq:
  assumes "cq_ok q" and "0 < max_items q"
  shows "cq_tail q = (cq_head q + cq_count q) mod max_items q" and "cq_count q < max_items q"
proof -
  have "cq_head q < max_items q" "cq_tail q < max_items q" using assms by (auto simp: cq_ok_def)
  then show "cq_tail q = (cq_head q + cq_count q) mod max_items q"
    by (simp add: cq_count_def mod_add_right_eq)
  show "cq_count q < max_items q" using assms(2) by (simp add: cq_count_def)
qed

lemma cq_disabled: "cq_ok q \<Longrightarrow> max_items q = 0 \<Longrightarrow> cq_list q = []"
  by (simp add: cq_list_def cq_count_def cq_ok_def)

lemma length_cq_list [simp]: "length (cq_list q) = cq_count q"
  by (simp add: cq_list_def)

lemma cq_size_eq: "cq_ok q \<Longrightarrow> cq_size q = cq_count q"
proof -
  assume q: "cq_ok q"
  show ?thesis
  proof (cases "max_items q = 0")
    case True
    with q show ?thesis by (simp add: cq_ok_def cq_size_def cq_count_def usize_sub_def)
  next
    case False
    then have b: "cq_head q < max_items q" "cq_tail q < max_items q" "max_items q < 2 ^ 64"
      using q by (auto simp: cq_ok_def)
    show ?thesis
    proof (cases "cq_head q \<le> cq_tail q")
      case True
      with b ring_count [of "cq_head q" "max_items q" "cq_tail q - cq_head q"] show ?thesis
        by (simp add: cq_size_def cq_count_def usize_simps)
    next
      case False
      with b show ?thesis by (simp add: cq_size_def cq_count_def usize_simps)
    qed
  qed
qed

lemma cq_empty_iff: "cq_ok q \<Longrightarrow> cq_empty q \<longleftrightarrow> cq_list q = []"
proof -
  assume q: "cq_ok q"
  show ?thesis
  proof (cases "max_items q = 0")
    case False
    with q have "cq_empty q \<longleftrightarrow> cq_count q = 0"
      using cq_tail_eq [OF q] mod_same [of "cq_head q" "max_items q" "cq_head q + cq_count q"]
      by (auto simp: cq_empty_def cq_ok_def)
    then show ?thesis by (metis length_0_conv length_cq_list)
  qed (use q in \<open>simp add: cq_disabled cq_empty_def cq_ok_def\<close>)
qed

lemma cq_front_eq: "cq_ok q \<Longrightarrow> cq_list q = x # xs \<Longrightarrow> cq_front q = Inr x"
proof -
  assume q: "cq_ok q" "cq_list q = x # xs"
  then have n: "0 < cq_count q" by (metis length_Cons length_cq_list zero_less_Suc)
  then have "0 < max_items q" using q cq_disabled by fastforce
  with q have "cq_head q < max_items q" by (simp add: cq_ok_def split: if_splits)
  moreover have "x = cq_v q ! (cq_head q mod max_items q)"
    using q(2) n by (simp add: cq_list_def upt_rec [of 0])
  ultimately show ?thesis using q by (simp add: cq_front_def array_at_def cq_ok_def)
qed

lemma cq_pop_front_eq:
  assumes "cq_ok q" and "cq_list q = x # xs"
  shows "\<exists>q'. cq_pop_front q = Inr q' \<and> cq_ok q' \<and> cq_list q' = xs \<and> cq_cap q' = cq_cap q \<and> overruns q' = overruns q"
proof -
  let ?m = "max_items q"
  from assms(2) obtain k where k: "cq_count q = Suc k" by (metis length_Cons length_cq_list)
  then have m: "0 < ?m" using assms cq_disabled by fastforce
  with assms(1) have b: "cq_head q < ?m" "cq_tail q < ?m" by (auto simp: cq_ok_def)
  let ?q = "q\<lparr>cq_head := Suc (cq_head q) mod ?m\<rparr>"
  have "cq_tail q = (Suc (cq_head q) mod ?m + k) mod ?m" "k < ?m"
    using cq_tail_eq [OF assms(1) m] k by (simp_all add: mod_add_left_eq)
  then have "(cq_tail q + ?m - Suc (cq_head q) mod ?m) mod ?m = k"
    using ring_count [of "Suc (cq_head q) mod ?m" ?m k] m by simp
  then have count: "cq_count ?q = k" by (simp add: cq_count_def)
  have "cq_list ?q = xs"
  proof -
    have "xs = map (\<lambda>i. cq_v q ! ((cq_head q + Suc i) mod ?m)) [0..<k]"
      using assms(2) k by (simp add: cq_list_def map_upt_Suc del: upt_Suc)
    then show ?thesis by (simp add: cq_list_def count mod_add_left_eq)
  qed
  then show ?thesis
    using assms(1) b m by (simp add: cq_pop_front_def cq_incr_ok cq_cap_def) (simp add: cq_ok_def)
qed

lemma cq_full_iff: "cq_ok q \<Longrightarrow> 0 < max_items q \<Longrightarrow> cq_full q \<longleftrightarrow> cq_count q = cq_cap q"
proof -
  assume q: "cq_ok q" "0 < max_items q"
  let ?m = "max_items q"
  have b: "cq_head q < ?m" "cq_tail q < ?m" "?m < 2 ^ 64" using q by (auto simp: cq_ok_def)
  have "Suc (cq_tail q) mod ?m = (cq_head q + Suc (cq_count q)) mod ?m"
    using cq_tail_eq(1) [OF q] by (simp add: mod_Suc_eq)
  moreover have "(cq_head q + Suc (cq_count q)) mod ?m = cq_head q \<longleftrightarrow> Suc (cq_count q) = ?m"
  proof
    assume "(cq_head q + Suc (cq_count q)) mod ?m = cq_head q"
    then show "Suc (cq_count q) = ?m"
      using mod_same [of "cq_head q + Suc (cq_count q)" ?m "cq_head q + ?m"] b cq_tail_eq(2) [OF q] by auto
  next
    assume "Suc (cq_count q) = ?m"
    then show "(cq_head q + Suc (cq_count q)) mod ?m = cq_head q" using b(1) by (simp only: mod_add_self2 mod_less)
  qed
  ultimately show ?thesis using q b by (auto simp: cq_full_def usize_incr cq_cap_def)
qed

lemma cq_push_back_eq:
  assumes "cq_ok q" and "0 < max_items q"
  shows "\<exists>q'. cq_push_back x q = Inr q' \<and> cq_ok q' \<and> cq_cap q' = cq_cap q \<and> max_items q' = max_items q \<and>
     (if cq_count q < cq_cap q then cq_list q' = cq_list q @ [x] \<and> overruns q' = overruns q
      else cq_list q' = tl (cq_list q @ [x]) \<and> overruns q' = usize_add (overruns q) 1)"
proof -
  let ?m = "max_items q" and ?n = "cq_count q" and ?h = "cq_head q"
  let ?v = "(cq_v q)[cq_tail q := x]"
  have b: "?h < ?m" "cq_tail q < ?m" "?m < 2 ^ 63" "length (cq_v q) = ?m"
    using assms by (auto simp: cq_ok_def)
  have t: "cq_tail q = (?h + ?n) mod ?m" and n: "?n < ?m" using cq_tail_eq [OF assms] .
  let ?t = "Suc (cq_tail q) mod ?m"
  let ?q = "q\<lparr>cq_v := ?v, cq_tail := ?t\<rparr>"
  have elem: "?v ! ((?h + i) mod ?m) = (if i = ?n then x else cq_v q ! ((?h + i) mod ?m))" if "i \<le> ?n" for i
    using mod_same [of "?h + i" ?m "?h + ?n"] that t n b by (auto simp: nth_list_update)
  have list: "map (\<lambda>i. ?v ! ((?h + i) mod ?m)) [0..<Suc ?n] = cq_list q @ [x]"
    using elem by (auto simp: cq_list_def)
  have full: "?t = ?h \<longleftrightarrow> ?n = cq_cap q"
    using cq_full_iff [OF assms] b by (simp add: cq_full_def usize_incr)
  have push: "cq_push_back x q = (if ?t = ?h then Inr (?q\<lparr>cq_head := Suc ?h mod ?m,
      overruns := usize_add (overruns q) 1\<rparr>) else Inr ?q)"
    using assms b by (simp add: cq_push_back_def cq_incr_def usize_incr Let_def)
  have t': "?t = (?h + Suc ?n) mod ?m" using t by (simp add: mod_Suc_eq)
  show ?thesis
  proof (cases "?n = cq_cap q")
    case False
    then have "Suc ?n < ?m" using n by (simp add: cq_cap_def)
    then have "cq_count ?q = Suc ?n"
      using ring_count [of ?h ?m "Suc ?n"] b t' by (simp add: cq_count_def)
    then have "cq_list ?q = cq_list q @ [x]" using list by (simp add: cq_list_def)
    with False push full n b assms(2) show ?thesis by (auto simp: cq_ok_def cq_cap_def)
  next
    case True
    let ?r = "?q\<lparr>cq_head := Suc ?h mod ?m, overruns := usize_add (overruns q) 1\<rparr>"
    have th: "?t = ?h" using True full by simp
    have "(Suc ?h mod ?m + ?n) mod ?m = ?h" using t' th by (simp add: mod_add_left_eq)
    then have "cq_count ?r = ?n"
      using ring_count [of "Suc ?h mod ?m" ?m ?n] n assms(2) th by (simp add: cq_count_def)
    then have "cq_list ?r = map (\<lambda>i. ?v ! ((?h + Suc i) mod ?m)) [0..<?n]"
      by (simp add: cq_list_def mod_add_left_eq)
    also have "\<dots> = tl (map (\<lambda>i. ?v ! ((?h + i) mod ?m)) [0..<Suc ?n])"
      by (simp add: map_upt_Suc del: upt_Suc)
    finally have "cq_list ?r = tl (cq_list q @ [x])" using list by simp
    with True push th b assms(2) show ?thesis by (auto simp: cq_ok_def cq_cap_def)
  qed
qed

section \<open>The contract of a bounded queue\<close>

definition last_n :: "nat \<Rightarrow> 'a list \<Rightarrow> 'a list" where
  "last_n n xs = drop (length xs - n) xs"

lemma last_n_append: "last_n n (last_n n xs @ ys) = last_n n (xs @ ys)"
  by (cases "length xs \<le> n") (auto simp: last_n_def add.commute)

lemma last_n_short: "length xs \<le> n \<Longrightarrow> last_n n xs = xs"
  by (simp add: last_n_def)

lemma last_n_snoc: "length xs \<le> n \<Longrightarrow> last_n n (xs @ [x]) = (if length xs < n then xs @ [x] else tl (xs @ [x]))"
  by (cases xs) (auto simp: last_n_def Suc_diff_le)

lemma last_n_last_n: "last_n k (last_n n xs) = last_n (min k n) xs"
  unfolding last_n_def drop_drop by (rule arg_cong2 [where f = drop]) auto

lemma map_last_n: "map g (last_n n xs) = last_n n (map g xs)"
  by (simp add: last_n_def drop_map)

locale bounded_queue =
  fixes push :: "'a \<Rightarrow> 'q \<Rightarrow> 'q res" and pop :: "'q \<Rightarrow> 'q res" and front :: "'q \<Rightarrow> 'a res"
    and is_empty :: "'q \<Rightarrow> bool" and elems :: "'q \<Rightarrow> 'a list" and cap :: "'q \<Rightarrow> nat" and inv :: "'q \<Rightarrow> bool"
  assumes push_law: "inv q \<Longrightarrow> \<exists>q'. push x q = Inr q' \<and> inv q' \<and> cap q' = cap q \<and>
      elems q' = last_n (cap q) (elems q @ [x])"
    and pop_law: "inv q \<Longrightarrow> elems q = x # xs \<Longrightarrow> \<exists>q'. pop q = Inr q' \<and> inv q' \<and> cap q' = cap q \<and> elems q' = xs"
    and front_law: "inv q \<Longrightarrow> elems q = x # xs \<Longrightarrow> front q = Inr x"
    and empty_law: "inv q \<Longrightarrow> is_empty q \<longleftrightarrow> elems q = []"
    and bounded_law: "inv q \<Longrightarrow> length (elems q) \<le> cap q"
begin

lemma push_all:
  "inv q \<Longrightarrow> \<exists>q'. fold_res push xs q = Inr q' \<and> inv q' \<and> cap q' = cap q \<and>
     elems q' = last_n (cap q) (elems q @ xs)"
proof (induction xs arbitrary: q)
  case Nil
  then show ?case using bounded_law by (simp add: last_n_short)
next
  case (Cons x xs)
  from push_law [OF Cons.prems, of x] obtain q1 where q1: "push x q = Inr q1" "inv q1" "cap q1 = cap q"
    "elems q1 = last_n (cap q) (elems q @ [x])" by blast
  from Cons.IH [OF q1(2)] obtain q2 where "fold_res push xs q1 = Inr q2" "inv q2" "cap q2 = cap q1"
    "elems q2 = last_n (cap q1) (elems q1 @ xs)" by blast
  with q1 show ?case by (simp add: last_n_append)
qed

text \<open>A loop that takes the elements off the front one by one.\<close>

lemma drain_induct:
  assumes "inv q"
    and empty: "\<And>q. inv q \<Longrightarrow> elems q = [] \<Longrightarrow> is_empty q \<Longrightarrow> P q"
    and pops: "\<And>q x xs q'. inv q \<Longrightarrow> elems q = x # xs \<Longrightarrow> \<not> is_empty q \<Longrightarrow> front q = Inr x \<Longrightarrow>
      pop q = Inr q' \<Longrightarrow> inv q' \<Longrightarrow> elems q' = xs \<Longrightarrow> P q' \<Longrightarrow> P q"
  shows "P q"
  using assms(1)
proof (induction "elems q" arbitrary: q)
  case Nil
  then show ?case using empty empty_law by metis
next
  case (Cons x xs)
  from pop_law [OF Cons.prems Cons.hyps(2) [symmetric]] obtain q' where
    q': "pop q = Inr q'" "inv q'" "elems q' = xs" by blast
  have "\<not> is_empty q" using empty_law [OF Cons.prems] Cons.hyps(2) by auto
  with q' Cons pops front_law [OF Cons.prems Cons.hyps(2) [symmetric]] show ?case by metis
qed

end

interpretation cq: bounded_queue cq_push_back cq_pop_front cq_front cq_empty cq_list cq_cap cq_ok
proof
  fix q :: "'a circular_q" and x xs
  assume q: "cq_ok q"
  have bound: "length (cq_list q) \<le> cq_cap q"
  proof (cases "max_items q = 0")
    case False
    then show ?thesis using cq_tail_eq(2) [OF q] by (simp add: cq_cap_def)
  qed (use q in \<open>simp add: cq_disabled\<close>)
  then show "length (cq_list q) \<le> cq_cap q" .
  show "\<exists>q'. cq_push_back x q = Inr q' \<and> cq_ok q' \<and> cq_cap q' = cq_cap q \<and>
      cq_list q' = last_n (cq_cap q) (cq_list q @ [x])"
  proof (cases "max_items q = 0")
    case True
    with q show ?thesis by (simp add: cq_push_back_def cq_disabled cq_cap_def last_n_def)
  next
    case False
    then show ?thesis using cq_push_back_eq [OF q, of x] bound
      by (auto simp: last_n_snoc split: if_splits)
  qed
  show "cq_list q = x # xs \<Longrightarrow>
      \<exists>q'. cq_pop_front q = Inr q' \<and> cq_ok q' \<and> cq_cap q' = cq_cap q \<and> cq_list q' = xs"
    using cq_pop_front_eq [OF q] by blast
  show "cq_list q = x # xs \<Longrightarrow> cq_front q = Inr x" by (rule cq_front_eq [OF q])
  show "cq_empty q \<longleftrightarrow> cq_list q = []" by (rule cq_empty_iff [OF q])
qed

lemma cq_new_ok:
  assumes "n < 2 ^ 63 - 1"
  shows "cq_ok (circular_q_new d n)" "cq_list (circular_q_new d n) = []" "cq_cap (circular_q_new d n) = n"
  using assms by (simp_all add: cq_ok_def circular_q_new_def cq_list_def cq_count_def cq_cap_def usize_simps)

lemma cq_at_eq: "cq_ok q \<Longrightarrow> i < cq_count q \<Longrightarrow> cq_at i q = Inr (cq_list q ! i)"
proof -
  assume q: "cq_ok q" "i < cq_count q"
  then have m: "0 < max_items q" by (cases "max_items q") (auto simp: cq_count_def cq_ok_def)
  have "cq_head q < max_items q" "i < max_items q" "max_items q < 2 ^ 63" "length (cq_v q) = max_items q"
    using q m cq_tail_eq(2) [OF q(1) m] by (auto simp: cq_ok_def)
  with q m show ?thesis
    by (simp add: cq_at_def cq_size_eq cq_list_def array_at_def usize_simps)
qed

section \<open>Backtracer\<close>

text \<open>The messages are kept in the order of logging. A message in the queue owns its text.\<close>

record backtracer =
  bt_enabled :: bool
  bt_messages :: "log_msg_buffer circular_q"

definition log_msg_buffer_default :: log_msg_buffer where
  "log_msg_buffer_default =
     \<lparr>lmb_msg = log_msg_new 0 0 no_source_loc [] level_off [], lmb_buffer = [], name_view = (0, 0), payload_view = (0, 0)\<rparr>"

definition backtracer_new :: backtracer where
  "backtracer_new = \<lparr>bt_enabled = False, bt_messages = circular_q_disabled\<rparr>"

text \<open>Copying copies both members, moving leaves a disabled queue behind.\<close>

definition backtracer_copy :: "backtracer \<Rightarrow> backtracer" where
  "backtracer_copy other = \<lparr>bt_enabled = bt_enabled other, bt_messages = bt_messages other\<rparr>"

definition backtracer_move :: "backtracer \<Rightarrow> backtracer \<times> backtracer" where
  "backtracer_move other =
     (let (q, rest) = copy_moveable (bt_messages other)
      in (\<lparr>bt_enabled = bt_enabled other, bt_messages = q\<rparr>, other\<lparr>bt_messages := rest\<rparr>))"

definition bt_enable :: "nat \<Rightarrow> backtracer \<Rightarrow> backtracer" where
  "bt_enable n b = b\<lparr>bt_enabled := True, bt_messages := circular_q_new log_msg_buffer_default n\<rparr>"

definition bt_disable :: "backtracer \<Rightarrow> backtracer" where
  "bt_disable b = b\<lparr>bt_enabled := False\<rparr>"

definition bt_push_back :: "log_msg \<Rightarrow> backtracer \<Rightarrow> backtracer res" where
  "bt_push_back m b =
     andthen (cq_push_back (log_msg_buffer_of m) (bt_messages b)) (\<lambda>q. Inr (b\<lparr>bt_messages := q\<rparr>))"

text \<open>\<open>foreach_pop\<close>: the queue is emptied from the front; \<open>f\<close> is called on each message with a state.\<close>

partial_function (option) foreach_pop_loop ::
  "(log_msg \<Rightarrow> 's \<Rightarrow> 's res) \<Rightarrow> log_msg_buffer circular_q \<Rightarrow> 's \<Rightarrow> (log_msg_buffer circular_q \<times> 's) res option" where
  "foreach_pop_loop f q s =
     (if cq_empty q then Some (Inr (q, s))
      else (case andthen (cq_front q) (\<lambda>b. andthen (f (lmb_view b) s) (\<lambda>s'.
                  andthen (cq_pop_front q) (\<lambda>q'. Inr (q', s')))) of
              Inl e \<Rightarrow> Some (Inl e)
            | Inr (q', s') \<Rightarrow> foreach_pop_loop f q' s'))"

declare foreach_pop_loop.simps [code]

definition foreach_pop :: "(log_msg \<Rightarrow> 's \<Rightarrow> 's res) \<Rightarrow> backtracer \<Rightarrow> 's \<Rightarrow> (backtracer \<times> 's) res option" where
  "foreach_pop f b s =
     map_option (\<lambda>r. andthen r (\<lambda>(q, s'). Inr (b\<lparr>bt_messages := q\<rparr>, s'))) (foreach_pop_loop f (bt_messages b) s)"

lemma foreach_pop_loop_eq:
  assumes "cq_ok q"
  shows "\<forall>s. \<exists>q'. cq_ok q' \<and> cq_list q' = [] \<and> foreach_pop_loop f q s =
     Some (andthen (fold_res f (map lmb_view (cq_list q)) s) (\<lambda>s'. Inr (q', s')))"
  using assms
proof (induction q rule: cq.drain_induct)
  case 1
  show ?case by (rule assms)
next
  case (2 q)
  then show ?case by (auto simp: foreach_pop_loop.simps [of f q])
next
  case (3 q x xs q')
  show ?case
  proof
    fix s
    show "\<exists>q'. cq_ok q' \<and> cq_list q' = [] \<and> foreach_pop_loop f q s =
        Some (andthen (fold_res f (map lmb_view (cq_list q)) s) (\<lambda>s'. Inr (q', s')))"
    proof (cases "f (lmb_view x) s")
      case (Inl e)
      with 3 show ?thesis by (auto simp: foreach_pop_loop.simps [of f q])
    next
      case (Inr s1)
      with 3 show ?thesis by (auto simp: foreach_pop_loop.simps [of f q])
    qed
  qed
qed

lemma bt_push_all:
  assumes "cq_ok (bt_messages b)"
  shows "\<exists>b'. fold_res bt_push_back ms b = Inr b' \<and> cq_ok (bt_messages b') \<and> bt_enabled b' = bt_enabled b \<and>
     cq_list (bt_messages b') = last_n (cq_cap (bt_messages b)) (cq_list (bt_messages b) @ map log_msg_buffer_of ms)"
proof -
  have "fold_res bt_push_back ms b =
      andthen (fold_res cq_push_back (map log_msg_buffer_of ms) (bt_messages b)) (\<lambda>q. Inr (b\<lparr>bt_messages := q\<rparr>))" for b
  proof (induction ms arbitrary: b)
    case (Cons m ms)
    show ?case by (cases "cq_push_back (log_msg_buffer_of m) (bt_messages b)") (simp_all add: bt_push_back_def [of m b] Cons.IH)
  qed simp
  with cq.push_all [OF assms, of "map log_msg_buffer_of ms"] show ?thesis by auto
qed

section \<open>Ring buffer sink\<close>

definition ringbuffer_sink_it :: "log_msg \<Rightarrow> log_msg_buffer circular_q \<Rightarrow> log_msg_buffer circular_q res" where
  "ringbuffer_sink_it m q = cq_push_back (log_msg_buffer_of m) q"

text \<open>The loop over the last indices, with what is done to each item.\<close>

definition collect_last ::
  "(log_msg_buffer \<Rightarrow> 's \<Rightarrow> ('s \<times> 'a) res) \<Rightarrow> nat \<Rightarrow> log_msg_buffer circular_q \<Rightarrow> 's \<Rightarrow> ('s \<times> 'a list) res" where
  "collect_last item lim q s =
     (let items_available = cq_size q;
          n_items = (if lim > 0 then min lim items_available else items_available)
      in fold_res (\<lambda>i (s, ret). andthen (cq_at i q) (\<lambda>b. andthen (item b s) (\<lambda>(s, x). Inr (s, ret @ [x]))))
           [usize_sub items_available n_items..<items_available] (s, []))"

definition last_raw :: "nat \<Rightarrow> log_msg_buffer circular_q \<Rightarrow> log_msg_buffer list res" where
  "last_raw lim q = andthen (collect_last (\<lambda>b s. Inr (s, b)) lim q ()) (\<lambda>(s, ret). Inr ret)"

text \<open>\<open>fmt\<close> is the formatter of the sink, with its state.\<close>

definition last_formatted ::
  "('f \<Rightarrow> log_msg \<Rightarrow> ('f \<times> string) res) \<Rightarrow> nat \<Rightarrow> log_msg_buffer circular_q \<Rightarrow> 'f \<Rightarrow> ('f \<times> string list) res" where
  "last_formatted fmt lim q f = collect_last (\<lambda>b f. fmt f (lmb_view b)) lim q f"

lemma collect_last_eq:
  assumes "cq_ok q" and "\<And>b s. item b s = Inr (s, g b)"
  shows "collect_last item lim q s = Inr (s, map g (last_n (if lim > 0 then lim else cq_count q) (cq_list q)))"
proof -
  let ?n = "cq_count q"
  let ?k = "if lim > 0 then min lim ?n else ?n"
  let ?step = "\<lambda>i (s, ret). andthen (cq_at i q) (\<lambda>b. andthen (item b s) (\<lambda>(s, x). Inr (s, ret @ [x])))"
  have loop: "j \<le> ?n \<Longrightarrow> fold_res ?step [j..<?n] (s, ret) = Inr (s, ret @ map g (drop j (cq_list q)))" for j ret
  proof (induction "?n - j" arbitrary: j ret)
    case (Suc d)
    then have "j < ?n" by simp
    then show ?case
      using Suc.hyps(1) [of "Suc j" "ret @ [g (cq_list q ! j)]"] Suc.hyps(2)
      by (simp add: upt_conv_Cons cq_at_eq [OF assms(1)] assms(2) Cons_nth_drop_Suc [symmetric])
  qed simp
  have "?n < 2 ^ 64"
  proof (cases "max_items q = 0")
    case False
    then show ?thesis using cq_tail_eq(2) [OF assms(1)] assms(1) by (simp add: cq_ok_def)
  qed (use assms(1) in \<open>simp add: cq_ok_def cq_count_def\<close>)
  then have "usize_sub ?n ?k = ?n - ?k" by (intro usize_sub_bounded) auto
  then have "collect_last item lim q s = Inr (s, map g (drop (?n - ?k) (cq_list q)))"
    using loop [of "?n - ?k" "[]"] by (simp add: collect_last_def Let_def cq_size_eq [OF assms(1)])
  then show ?thesis by (simp add: last_n_def min_def)
qed

lemma ringbuffer_log_all:
  assumes "n < 2 ^ 63 - 1"
  shows "\<exists>q. fold_res ringbuffer_sink_it ms (circular_q_new d n) = Inr q \<and> cq_ok q \<and>
     cq_list q = last_n n (map log_msg_buffer_of ms)"
proof -
  have "fold_res ringbuffer_sink_it ms = fold_res cq_push_back (map log_msg_buffer_of ms)"
    unfolding fold_res_map ringbuffer_sink_it_def [abs_def] ..
  with cq.push_all [OF cq_new_ok(1) [OF assms], of "map log_msg_buffer_of ms" d] cq_new_ok(2,3) [OF assms, of d]
  show ?thesis by auto
qed

lemma push_all_new:
  assumes "n < 2 ^ 63 - 1" and "length xs < 2 ^ 64"
  shows "\<exists>q. fold_res cq_push_back xs (circular_q_new d n) = Inr q \<and> cq_ok q \<and> max_items q = Suc n \<and>
     cq_list q = last_n n xs \<and> overruns q = length xs - n"
  using assms(2)
proof (induction xs rule: rev_induct)
  case Nil
  have "max_items (circular_q_new d n) = Suc n" "overruns (circular_q_new d n) = 0"
    using assms(1) by (simp_all add: circular_q_new_def usize_simps)
  then show ?case using cq_new_ok [OF assms(1), of d] by (simp add: last_n_def)
next
  case (snoc x xs)
  then obtain q where q: "fold_res cq_push_back xs (circular_q_new d n) = Inr q" "cq_ok q" "max_items q = Suc n"
    "cq_list q = last_n n xs" "overruns q = length xs - n" by auto
  have cap: "cq_cap q = n" and count: "cq_count q = min n (length xs)"
    using q(3) arg_cong [OF q(4), of length] by (simp_all add: cq_cap_def last_n_def)
  obtain q' where q': "cq_push_back x q = Inr q'" "cq_ok q'" "max_items q' = max_items q"
    "if cq_count q < cq_cap q then cq_list q' = cq_list q @ [x] \<and> overruns q' = overruns q
     else cq_list q' = tl (cq_list q @ [x]) \<and> overruns q' = usize_add (overruns q) 1"
    using cq_push_back_eq [OF q(2), of x] q(3) by auto
  have "length (last_n n xs) = min n (length xs)" by (simp add: last_n_def)
  then have "cq_list q' = last_n n (last_n n xs @ [x])"
    using q'(4) q(4) cap count by (simp add: last_n_snoc split: if_splits)
  moreover have "overruns q' = length (xs @ [x]) - n"
    using q'(4) q(5) cap count snoc.prems by (auto simp: min_def usize_simps split: if_splits)
  ultimately show ?case using q q' by (simp add: fold_res_append last_n_append)
qed

section \<open>Properties\<close>

text \<open>
  Property C25. The circular queue implements a bounded queue that overwrites its oldest element: for
  every sequence of elements pushed into a new queue for \<open>n\<close> items it stores exactly the last \<open>n\<close> of
  them in order, never writes outside its vector, reports its size, its fullness and its first element
  accordingly, and counts the overwritten ones.
\<close>

theorem circular_q_keeps_last:
  assumes "n < 2 ^ 63 - 1" and "length xs < 2 ^ 64"
  shows "\<exists>q. fold_res cq_push_back xs (circular_q_new d n) = Inr q \<and> cq_list q = last_n n xs \<and>
     cq_size q = min n (length xs) \<and> (cq_full q \<longleftrightarrow> n \<le> length xs) \<and> (cq_empty q \<longleftrightarrow> last_n n xs = []) \<and>
     overruns q = length xs - n \<and> (last_n n xs \<noteq> [] \<longrightarrow> cq_front q = Inr (hd (last_n n xs)))"
proof -
  from push_all_new [OF assms] obtain q where q: "fold_res cq_push_back xs (circular_q_new d n) = Inr q" "cq_ok q"
    "max_items q = Suc n" "cq_list q = last_n n xs" "overruns q = length xs - n" by blast
  have "cq_count q = min n (length xs)" using arg_cong [OF q(4), of length] by (simp add: last_n_def)
  moreover have "last_n n xs \<noteq> [] \<longrightarrow> cq_front q = Inr (hd (last_n n xs))"
    using cq_front_eq [OF q(2)] q(4) by (cases "last_n n xs") auto
  ultimately show ?thesis
    using q cq_full_iff [OF q(2)] cq_size_eq [OF q(2)] cq_empty_iff [OF q(2)] by (auto simp: cq_cap_def)
qed

theorem circular_q_keeps_last_witness:
  "\<exists>q. fold_res cq_push_back [1, 2, 3, 4, 5] (circular_q_new 0 3) = Inr q \<and> cq_list q = [3, 4, 5 :: nat] \<and>
     cq_full q \<and> overruns q = 2"
  using circular_q_keeps_last [of 3 "[1, 2, 3, 4, 5 :: nat]" 0] by (auto simp: last_n_def)

text \<open>
  A backtrace of \<open>n\<close> messages hands the last \<open>n\<close> messages logged, with their own text and in
  the order of logging, to the function it is dumped with, always ends, and is empty afterwards.
\<close>

theorem backtrace_keeps_last:
  assumes "n < 2 ^ 63 - 1"
  shows "\<exists>b b'. fold_res bt_push_back ms (bt_enable n backtracer_new) = Inr b \<and>
     foreach_pop f b s = Some (andthen (fold_res f (last_n n ms) s) (\<lambda>s'. Inr (b', s'))) \<and>
     cq_list (bt_messages b') = [] \<and> bt_enabled b'"
proof -
  let ?b = "bt_enable n backtracer_new"
  have "cq_ok (bt_messages ?b)" "cq_list (bt_messages ?b) = []" "cq_cap (bt_messages ?b) = n" "bt_enabled ?b"
    using cq_new_ok [OF assms] by (simp_all add: bt_enable_def)
  with bt_push_all [of ?b ms] obtain b where b: "fold_res bt_push_back ms ?b = Inr b" "cq_ok (bt_messages b)"
    "bt_enabled b" "cq_list (bt_messages b) = last_n n (map log_msg_buffer_of ms)" by auto
  from foreach_pop_loop_eq [OF b(2), of f] obtain q' where q': "cq_list q' = []" "foreach_pop_loop f (bt_messages b) s =
      Some (andthen (fold_res f (map lmb_view (cq_list (bt_messages b))) s) (\<lambda>s'. Inr (q', s')))" by blast
  have "map lmb_view (last_n n (map log_msg_buffer_of ms)) = last_n n ms"
    by (simp add: map_last_n comp_def)
  with b q' show ?thesis
    by (intro exI [of _ b] exI [of _ "b\<lparr>bt_messages := q'\<rparr>"]) (simp add: foreach_pop_def andthen_assoc)
qed

theorem backtrace_keeps_last_witness:
  "\<exists>b b'. fold_res bt_push_back [log_msg_new 1 7 no_source_loc ''n'' level_info ''a'',
       log_msg_new 2 7 no_source_loc ''n'' level_info ''b'', log_msg_new 3 7 no_source_loc ''n'' level_info ''c'']
     (bt_enable 2 backtracer_new) = Inr b \<and>
     foreach_pop (\<lambda>m s. Inr (s @ payload m)) b [] = Some (Inr (b', ''bc'')) \<and> cq_list (bt_messages b') = []"
  using backtrace_keeps_last [of 2 "[log_msg_new 1 7 no_source_loc ''n'' level_info ''a'',
       log_msg_new 2 7 no_source_loc ''n'' level_info ''b'', log_msg_new 3 7 no_source_loc ''n'' level_info ''c'']"
       "\<lambda>m s. Inr (s @ payload m)" "[]"]
  by (auto simp: last_n_def log_msg_new_def)

text \<open>
  The ring buffer sink returns its newest messages: after any log, \<open>last_raw\<close> gives
  the last \<open>lim\<close> messages (all that are kept when \<open>lim\<close> is 0), oldest first.
\<close>

theorem ringbuffer_last:
  assumes "n < 2 ^ 63 - 1"
  shows "\<exists>q bs. fold_res ringbuffer_sink_it ms (circular_q_new d n) = Inr q \<and> last_raw lim q = Inr bs \<and>
     map lmb_view bs = last_n (if lim > 0 then min lim n else n) ms"
proof -
  from ringbuffer_log_all [OF assms, of ms d] obtain q where q: "fold_res ringbuffer_sink_it ms (circular_q_new d n) = Inr q"
    "cq_ok q" "cq_list q = last_n n (map log_msg_buffer_of ms)" by blast
  let ?bs = "last_n (if lim > 0 then lim else cq_count q) (cq_list q)"
  have c: "collect_last (\<lambda>b s. Inr (s, b)) lim q () = Inr ((), ?bs)"
    using collect_last_eq [OF q(2), of "\<lambda>b s. Inr (s, b)" "\<lambda>b. b" lim "()"] by simp
  have "last_raw lim q = Inr ?bs" unfolding last_raw_def c by simp
  moreover have "map lmb_view ?bs = last_n (if lim > 0 then min lim n else n) ms"
    by (simp add: last_n_short) (simp add: q(3) last_n_last_n map_last_n comp_def)
  ultimately show ?thesis using q(1) by blast
qed

theorem ringbuffer_last_witness:
  "\<exists>q bs. fold_res ringbuffer_sink_it [log_msg_new 1 7 no_source_loc ''n'' level_info ''a'',
       log_msg_new 2 7 no_source_loc ''n'' level_info ''b''] (circular_q_new log_msg_buffer_default 5) = Inr q \<and>
     last_raw 1 q = Inr bs \<and> map lmb_view bs = [log_msg_new 2 7 no_source_loc ''n'' level_info ''b'']"
  using ringbuffer_last [of 5 "[log_msg_new 1 7 no_source_loc ''n'' level_info ''a'',
       log_msg_new 2 7 no_source_loc ''n'' level_info ''b'']" log_msg_buffer_default 1]
  by (auto simp: last_n_def)

end
