(* ===== verification/Async_Log.thy ===== *)
theory Async_Log
  imports Circular_Q
begin

text \<open>
  Asynchronous logging: the blocking queue (\<open>details/mpmc_blocking_q.h\<close>), as a transition system of
  the threads that use it, and the thread pool that takes the messages from it
  (\<open>details/thread_pool.h\<close>). The steps are the critical sections of \<open>enqueue\<close>,
  \<open>enqueue_nowait\<close> and \<open>dequeue_for\<close>, the waits on the two condition variables, which may end without
  a notification, and the notifications, which happen after the mutex is released.
\<close>

section \<open>The blocking queue\<close>

text \<open>
  \<open>asleep_push\<close> are the items of the threads waiting on \<open>pop_cv_\<close>, \<open>awake_push\<close> those of the threads
  that were woken and have not got the mutex back; \<open>asleep_pop\<close> and \<open>awake_pop\<close> count the threads in
  \<open>dequeue_for\<close> likewise. \<open>push_notes\<close> and \<open>pop_notes\<close> count the calls of \<open>notify_one\<close> that are due.
  \<open>pushed\<close>, \<open>removed\<close> and \<open>nowaits\<close> are histories: the items put in, those taken off the front
  (delivered, or overwritten), and the number of items put in by \<open>enqueue_nowait\<close>.
\<close>

record 'a mpmc =
  mq :: "'a circular_q"
  asleep_push :: "'a list"
  awake_push :: "'a list"
  asleep_pop :: nat
  awake_pop :: nat
  push_notes :: nat
  pop_notes :: nat
  timeouts :: nat
  pushed :: "'a list"
  removed :: "(bool \<times> 'a) list"
  nowaits :: nat

definition mpmc_new :: "'a \<Rightarrow> nat \<Rightarrow> 'a mpmc" where
  "mpmc_new dflt n =
     \<lparr>mq = circular_q_new dflt n, asleep_push = [], awake_push = [], asleep_pop = 0, awake_pop = 0,
      push_notes = 0, pop_notes = 0, timeouts = 0, pushed = [], removed = [], nowaits = 0\<rparr>"

text \<open>The state after an item was put in, with what the circular queue overwrote, and after one was taken.\<close>

definition overwritten :: "'a \<Rightarrow> 'a circular_q \<Rightarrow> 'a list" where
  "overwritten x q = (if cq_count q < cq_cap q then [] else [hd (cq_list q @ [x])])"

definition after_push :: "'a \<Rightarrow> 'a circular_q \<Rightarrow> 'a mpmc \<Rightarrow> 'a mpmc" where
  "after_push x q' s = s\<lparr>mq := q', push_notes := Suc (push_notes s), pushed := pushed s @ [x],
     removed := removed s @ map (Pair False) (overwritten x (mq s))\<rparr>"

definition after_pop :: "'a \<Rightarrow> 'a circular_q \<Rightarrow> 'a mpmc \<Rightarrow> 'a mpmc" where
  "after_pop x q' s = s\<lparr>mq := q', pop_notes := Suc (pop_notes s), removed := removed s @ [(True, x)]\<rparr>"

inductive mpmc_step :: "'a mpmc \<Rightarrow> 'a mpmc \<Rightarrow> bool" where
  Enqueue:
    "\<not> cq_full (mq s) \<Longrightarrow> cq_push_back x (mq s) = Inr q' \<Longrightarrow> mpmc_step s (after_push x q' s)"
| Enqueue_waits:
    "cq_full (mq s) \<Longrightarrow> mpmc_step s (s\<lparr>asleep_push := asleep_push s @ [x]\<rparr>)"
| Enqueue_wakes:
    "asleep_push s = xs @ x # ys \<Longrightarrow>
       mpmc_step s (s\<lparr>asleep_push := xs @ ys, awake_push := awake_push s @ [x]\<rparr>)"
| Enqueue_resumes:
    "awake_push s = xs @ x # ys \<Longrightarrow> \<not> cq_full (mq s) \<Longrightarrow> cq_push_back x (mq s) = Inr q' \<Longrightarrow>
       mpmc_step s (after_push x q' (s\<lparr>awake_push := xs @ ys\<rparr>))"
| Enqueue_waits_again:
    "awake_push s = xs @ x # ys \<Longrightarrow> cq_full (mq s) \<Longrightarrow>
       mpmc_step s (s\<lparr>awake_push := xs @ ys, asleep_push := asleep_push s @ [x]\<rparr>)"
| Enqueue_nowait:
    "cq_push_back x (mq s) = Inr q' \<Longrightarrow>
       mpmc_step s (after_push x q' (s\<lparr>nowaits := Suc (nowaits s)\<rparr>))"
| Notify_push:
    "push_notes s = Suc n \<Longrightarrow> asleep_pop s = Suc k \<Longrightarrow>
       mpmc_step s (s\<lparr>push_notes := n, asleep_pop := k, awake_pop := Suc (awake_pop s)\<rparr>)"
| Notify_push_nobody:
    "push_notes s = Suc n \<Longrightarrow> asleep_pop s = 0 \<Longrightarrow> mpmc_step s (s\<lparr>push_notes := n\<rparr>)"
| Notify_pop:
    "pop_notes s = Suc n \<Longrightarrow> asleep_push s = xs @ x # ys \<Longrightarrow>
       mpmc_step s (s\<lparr>pop_notes := n, asleep_push := xs @ ys, awake_push := awake_push s @ [x]\<rparr>)"
| Notify_pop_nobody:
    "pop_notes s = Suc n \<Longrightarrow> asleep_push s = [] \<Longrightarrow> mpmc_step s (s\<lparr>pop_notes := n\<rparr>)"
| Dequeue:
    "\<not> cq_empty (mq s) \<Longrightarrow> cq_front (mq s) = Inr x \<Longrightarrow> cq_pop_front (mq s) = Inr q' \<Longrightarrow>
       mpmc_step s (after_pop x q' s)"
| Dequeue_waits:
    "cq_empty (mq s) \<Longrightarrow> mpmc_step s (s\<lparr>asleep_pop := Suc (asleep_pop s)\<rparr>)"
| Dequeue_wakes:
    "asleep_pop s = Suc k \<Longrightarrow> mpmc_step s (s\<lparr>asleep_pop := k, awake_pop := Suc (awake_pop s)\<rparr>)"
| Dequeue_resumes:
    "awake_pop s = Suc k \<Longrightarrow> \<not> cq_empty (mq s) \<Longrightarrow> cq_front (mq s) = Inr x \<Longrightarrow> cq_pop_front (mq s) = Inr q' \<Longrightarrow>
       mpmc_step s (after_pop x q' (s\<lparr>awake_pop := k\<rparr>))"
| Dequeue_waits_again:
    "awake_pop s = Suc k \<Longrightarrow> cq_empty (mq s) \<Longrightarrow>
       mpmc_step s (s\<lparr>awake_pop := k, asleep_pop := Suc (asleep_pop s)\<rparr>)"
| Dequeue_times_out:
    "awake_pop s = Suc k \<Longrightarrow> cq_empty (mq s) \<Longrightarrow>
       mpmc_step s (s\<lparr>awake_pop := k, timeouts := Suc (timeouts s)\<rparr>)"

section \<open>Invariant of the queue\<close>

definition mpmc_inv :: "nat \<Rightarrow> 'a mpmc \<Rightarrow> bool" where
  "mpmc_inv n s \<longleftrightarrow> cq_ok (mq s) \<and> max_items (mq s) = Suc n \<and>
     pushed s = map snd (removed s) @ cq_list (mq s) \<and>
     length (filter (\<lambda>r. \<not> fst r) (removed s)) \<le> nowaits s \<and>
     (asleep_push s \<noteq> [] \<longrightarrow> n - cq_count (mq s) \<le> pop_notes s + length (awake_push s)) \<and>
     (0 < asleep_pop s \<longrightarrow> cq_count (mq s) \<le> push_notes s + awake_pop s)"

lemma push_removed:
  assumes "cq_ok q" and "max_items q = Suc n" and "cq_push_back x q = Inr q'"
  shows "cq_ok q' \<and> max_items q' = Suc n \<and> overwritten x q @ cq_list q' = cq_list q @ [x] \<and>
     cq_count q' = (if cq_count q < n then Suc (cq_count q) else cq_count q)"
proof -
  have "0 < max_items q" using assms(2) by simp
  from cq_push_back_eq [OF assms(1) this, of x] assms(3) have q':
    "cq_ok q'" "max_items q' = Suc n" "if cq_count q < cq_cap q then cq_list q' = cq_list q @ [x]
      else cq_list q' = tl (cq_list q @ [x])"
    using assms(2) by (auto split: if_splits)
  have "cq_cap q = n" using assms(2) by (simp add: cq_cap_def)
  moreover have "overwritten x q @ cq_list q' = cq_list q @ [x]"
    using q'(3) by (auto simp: overwritten_def)
  moreover from arg_cong [OF this, of length] have
    "cq_count q' = (if cq_count q < cq_cap q then Suc (cq_count q) else cq_count q)"
    by (auto simp: overwritten_def split: if_splits)
  ultimately show ?thesis using q' by simp
qed

lemma pop_removed:
  assumes "cq_ok q" and "cq_front q = Inr x" and "cq_pop_front q = Inr q'" and "\<not> cq_empty q"
  shows "cq_ok q' \<and> max_items q' = max_items q \<and> x # cq_list q' = cq_list q \<and> Suc (cq_count q') = cq_count q"
proof -
  from assms(4) obtain y ys where y: "cq_list q = y # ys" using cq_empty_iff [OF assms(1)] by (cases "cq_list q") auto
  from cq_pop_front_eq [OF assms(1) y] assms(3) have "cq_ok q'" "cq_list q' = ys" by auto
  moreover have "max_items q' = max_items q"
    using assms(3) by (auto simp: cq_pop_front_def cq_incr_def check_def split: if_splits)
  moreover have "x = y" using cq_front_eq [OF assms(1) y] assms(2) by simp
  ultimately show ?thesis using y by (metis length_Cons length_cq_list)
qed

lemma mpmc_inv_new: "n < 2 ^ 63 - 1 \<Longrightarrow> mpmc_inv n (mpmc_new d n)"
  using cq_new_ok [of n d] by (simp add: mpmc_inv_def mpmc_new_def circular_q_new_def usize_simps)

lemma mpmc_inv_push:
  assumes "mpmc_inv n s" and "cq_push_back x (mq s) = Inr q'"
    and "cq_full (mq s) \<Longrightarrow> length (filter (\<lambda>r. \<not> fst r) (removed s)) < nowaits s"
  shows "mpmc_inv n (after_push x q' s)"
proof -
  have ok: "cq_ok (mq s)" "max_items (mq s) = Suc n" using assms(1) by (simp_all add: mpmc_inv_def)
  have full: "cq_full (mq s) \<longleftrightarrow> cq_count (mq s) = n" using cq_full_iff [OF ok(1)] ok(2) by (simp add: cq_cap_def)
  have cap: "cq_cap (mq s) = n" and le: "cq_count (mq s) \<le> n"
    using ok cq_tail_eq(2) [OF ok(1)] by (simp_all add: cq_cap_def)
  have dropped: "length (filter (\<lambda>r. \<not> fst r) (map (Pair False) (overwritten x (mq s)))) =
      (if cq_full (mq s) then 1 else 0)"
    using full cap le by (auto simp: overwritten_def)
  from push_removed [OF ok assms(2)] assms(1,3) dropped le show ?thesis
    by (auto simp: mpmc_inv_def after_push_def comp_def split: if_splits)
qed

lemma mpmc_inv_resume:
  assumes "mpmc_inv n s" and "awake_push s = xs @ x # ys" and "\<not> cq_full (mq s)" and "cq_push_back x (mq s) = Inr q'"
  shows "mpmc_inv n (after_push x q' (s\<lparr>awake_push := xs @ ys\<rparr>))"
proof -
  have ok: "cq_ok (mq s)" "max_items (mq s) = Suc n" using assms(1) by (simp_all add: mpmc_inv_def)
  have full: "cq_count (mq s) < n"
    using cq_full_iff [OF ok(1)] cq_tail_eq(2) [OF ok(1)] ok(2) assms(3) by (simp add: cq_cap_def)
  moreover have "mpmc_inv n (after_push x q' s)" using assms by (intro mpmc_inv_push) auto
  ultimately show ?thesis
    using push_removed [OF ok assms(4)] assms(1,2) by (auto simp: mpmc_inv_def after_push_def)
qed

lemma mpmc_inv_pop:
  assumes "mpmc_inv n s" and "\<not> cq_empty (mq s)" and "cq_front (mq s) = Inr x" and "cq_pop_front (mq s) = Inr q'"
    and "k \<le> awake_pop s" and "awake_pop s \<le> Suc k"
  shows "mpmc_inv n (after_pop x q' (s\<lparr>awake_pop := k\<rparr>))"
proof -
  have ok: "cq_ok (mq s)" "max_items (mq s) = Suc n" using assms(1) by (simp_all add: mpmc_inv_def)
  from pop_removed [OF ok(1) assms(3,4,2)] assms(1,5,6) show ?thesis
    by (auto simp: mpmc_inv_def after_pop_def)
qed

lemma mpmc_inv_step: "mpmc_step s s' \<Longrightarrow> mpmc_inv n s \<Longrightarrow> mpmc_inv n s'"
proof (induction rule: mpmc_step.induct)
  case (Enqueue s x q')
  then show ?case by (intro mpmc_inv_push) auto
next
  case (Enqueue_waits s x)
  then have "cq_count (mq s) = n"
    using cq_full_iff [of "mq s"] by (auto simp: mpmc_inv_def cq_cap_def)
  with Enqueue_waits show ?case by (auto simp: mpmc_inv_def)
next
  case (Enqueue_resumes s xs x ys q')
  then show ?case by (intro mpmc_inv_resume)
next
  case (Enqueue_waits_again s xs x ys)
  then have "cq_count (mq s) = n"
    using cq_full_iff [of "mq s"] by (auto simp: mpmc_inv_def cq_cap_def)
  with Enqueue_waits_again show ?case by (auto simp: mpmc_inv_def)
next
  case (Enqueue_nowait x s q')
  then have "mpmc_inv n (s\<lparr>nowaits := Suc (nowaits s)\<rparr>)" by (auto simp: mpmc_inv_def)
  moreover have "length (filter (\<lambda>r. \<not> fst r) (removed s)) < Suc (nowaits s)"
    using Enqueue_nowait.prems by (auto simp: mpmc_inv_def)
  ultimately show ?case using Enqueue_nowait.hyps by (intro mpmc_inv_push) auto
next
  case (Dequeue s x q')
  then show ?case using mpmc_inv_pop [of n s x q' "awake_pop s"] by simp
next
  case (Dequeue_waits s)
  then have "cq_count (mq s) = 0"
    using cq_empty_iff [of "mq s"] length_cq_list [of "mq s"] by (auto simp: mpmc_inv_def)
  with Dequeue_waits show ?case by (auto simp: mpmc_inv_def)
next
  case (Dequeue_resumes s k x q')
  then show ?case by (intro mpmc_inv_pop) auto
next
  case (Dequeue_waits_again s k)
  then have "cq_count (mq s) = 0"
    using cq_empty_iff [of "mq s"] length_cq_list [of "mq s"] by (auto simp: mpmc_inv_def)
  with Dequeue_waits_again show ?case by (auto simp: mpmc_inv_def)
next
  case (Dequeue_times_out s k)
  then have "cq_count (mq s) = 0"
    using cq_empty_iff [of "mq s"] length_cq_list [of "mq s"] by (auto simp: mpmc_inv_def)
  with Dequeue_times_out show ?case by (auto simp: mpmc_inv_def)
qed (auto simp: mpmc_inv_def)

lemma mpmc_inv_reachable:
  "mpmc_step\<^sup>*\<^sup>* (mpmc_new d n) s \<Longrightarrow> n < 2 ^ 63 - 1 \<Longrightarrow> mpmc_inv n s"
  by (induction rule: rtranclp_induct) (auto intro: mpmc_inv_new mpmc_inv_step)

section \<open>The thread pool\<close>

datatype async_overflow_policy = block | overrun_oldest

datatype async_msg_type = async_log | async_flush | async_terminate

text \<open>\<open>worker_ptr\<close> is a reference to the logger, \<open>None\<close> for a terminate message.\<close>

record 'w async_msg =
  am_msg :: log_msg_buffer
  msg_type :: async_msg_type
  worker_ptr :: "'w option"

definition async_msg_of :: "'w \<Rightarrow> async_msg_type \<Rightarrow> log_msg \<Rightarrow> 'w async_msg" where
  "async_msg_of worker ty m = \<lparr>am_msg = log_msg_buffer_of m, msg_type = ty, worker_ptr = Some worker\<rparr>"

definition async_msg_bare :: "'w option \<Rightarrow> async_msg_type \<Rightarrow> 'w async_msg" where
  "async_msg_bare worker ty = \<lparr>am_msg = log_msg_buffer_default, msg_type = ty, worker_ptr = worker\<rparr>"

definition thread_pool_new :: "'w async_msg \<Rightarrow> nat \<Rightarrow> nat \<Rightarrow> ('w async_msg mpmc \<times> nat) res" where
  "thread_pool_new dflt q_max_items threads_n =
     (if threads_n = 0 \<or> threads_n > 1000
      then Inl (Spdlog_ex ''spdlog::thread_pool(): invalid threads_n param (valid range is 1-1000)'')
      else Inr (mpmc_new dflt q_max_items, threads_n))"

text \<open>\<open>post_async_msg_\<close> by a thread that does not wait: the step of the queue it takes.\<close>

definition post_async_msg :: "'w async_msg \<Rightarrow> async_overflow_policy \<Rightarrow> 'w async_msg mpmc \<Rightarrow> 'w async_msg mpmc res" where
  "post_async_msg m policy s =
     (if policy = block
      then (if cq_full (mq s) then Inr (s\<lparr>asleep_push := asleep_push s @ [m]\<rparr>)
            else andthen (cq_push_back m (mq s)) (\<lambda>q'. Inr (after_push m q' s)))
      else andthen (cq_push_back m (mq s)) (\<lambda>q'. Inr (after_push m q' (s\<lparr>nowaits := Suc (nowaits s)\<rparr>))))"

definition post_log ::
  "'w \<Rightarrow> log_msg \<Rightarrow> async_overflow_policy \<Rightarrow> 'w async_msg mpmc \<Rightarrow> 'w async_msg mpmc res" where
  "post_log worker m policy s = post_async_msg (async_msg_of worker async_log m) policy s"

definition post_flush :: "'w \<Rightarrow> async_overflow_policy \<Rightarrow> 'w async_msg mpmc \<Rightarrow> 'w async_msg mpmc res" where
  "post_flush worker policy s = post_async_msg (async_msg_bare (Some worker) async_flush) policy s"

text \<open>The destructor first asks every thread to terminate; it then waits for the threads.\<close>

definition thread_pool_delete :: "nat \<Rightarrow> 'w async_msg mpmc \<Rightarrow> 'w async_msg mpmc res" where
  "thread_pool_delete threads_n s =
     fold_res (\<lambda>_. post_async_msg (async_msg_bare None async_terminate) block) [0..<threads_n] s"

text \<open>
  One turn of a worker on the outcome of \<open>dequeue_for\<close> (\<open>None\<close> when it timed out). \<open>sink_it\<close> and \<open>flush\<close> are
  \<open>backend_sink_it_\<close> and \<open>backend_flush_\<close> of the logger. The result says whether the worker goes on.
\<close>

definition process_next_msg ::
  "('w \<Rightarrow> log_msg \<Rightarrow> 's \<Rightarrow> 's res) \<Rightarrow> ('w \<Rightarrow> 's \<Rightarrow> 's res) \<Rightarrow> 'w async_msg option \<Rightarrow> 's \<Rightarrow> ('s \<times> bool) res" where
  "process_next_msg sink_it flush incoming s =
     (case incoming of
        None \<Rightarrow> Inr (s, True)
      | Some m \<Rightarrow>
          (case msg_type m of
             async_log \<Rightarrow> (case worker_ptr m of None \<Rightarrow> Inl Null_deref
               | Some w \<Rightarrow> andthen (sink_it w (lmb_view (am_msg m)) s) (\<lambda>s'. Inr (s', True)))
           | async_flush \<Rightarrow> (case worker_ptr m of None \<Rightarrow> Inl Null_deref
               | Some w \<Rightarrow> andthen (flush w s) (\<lambda>s'. Inr (s', True)))
           | async_terminate \<Rightarrow> Inr (s, False)))"

text \<open>The loop of a worker over the outcomes; the rest of them is what it leaves for other workers.\<close>

fun worker_loop ::
  "('w \<Rightarrow> log_msg \<Rightarrow> 's \<Rightarrow> 's res) \<Rightarrow> ('w \<Rightarrow> 's \<Rightarrow> 's res) \<Rightarrow> 'w async_msg option list \<Rightarrow> 's \<Rightarrow>
     ('s \<times> 'w async_msg option list) res" where
  "worker_loop sink_it flush [] s = Inr (s, [])"
| "worker_loop sink_it flush (i # is) s =
     andthen (process_next_msg sink_it flush i s) (\<lambda>(s', active).
       if active then worker_loop sink_it flush is s' else Inr (s', is))"

lemma post_block_room:
  assumes "mpmc_inv n s" and "cq_count (mq s) < n"
  shows "\<exists>s'. post_async_msg m block s = Inr s' \<and> mpmc_inv n s' \<and> cq_list (mq s') = cq_list (mq s) @ [m]"
proof -
  have ok: "cq_ok (mq s)" "max_items (mq s) = Suc n" using assms(1) by (simp_all add: mpmc_inv_def)
  have cap: "cq_cap (mq s) = n" using ok(2) by (simp add: cq_cap_def)
  have full: "\<not> cq_full (mq s)" using cq_full_iff [OF ok(1)] ok(2) assms(2) cap by simp
  obtain q' where q': "cq_push_back m (mq s) = Inr q'" "cq_list q' = cq_list (mq s) @ [m]"
    using cq_push_back_eq [OF ok(1), of m] ok(2) assms(2) cap by auto
  moreover have "mpmc_inv n (after_push m q' s)" using assms(1) q'(1) full by (intro mpmc_inv_push) auto
  ultimately show ?thesis using full by (simp add: post_async_msg_def after_push_def)
qed

lemma post_all_block:
  assumes "mpmc_inv n s" and "cq_count (mq s) + length ms \<le> n"
  shows "\<exists>s'. fold_res (\<lambda>m. post_async_msg m block) ms s = Inr s' \<and> mpmc_inv n s' \<and>
     cq_list (mq s') = cq_list (mq s) @ ms"
  using assms
proof (induction ms arbitrary: s)
  case (Cons m ms)
  then obtain s1 where s1: "post_async_msg m block s = Inr s1" "mpmc_inv n s1"
    "cq_list (mq s1) = cq_list (mq s) @ [m]" using post_block_room [of n s m] by auto
  then have "cq_count (mq s1) = Suc (cq_count (mq s))" by (metis length_append_singleton length_cq_list)
  with Cons.prems Cons.IH [OF s1(2)] s1 show ?case by auto
qed simp

lemma worker_loop_logs:
  "worker_loop sink_it flush (map (\<lambda>m. Some (async_msg_of w async_log m)) ms @ Some (async_msg_bare None async_terminate) # rest) st =
     andthen (fold_res (sink_it w) ms st) (\<lambda>st'. Inr (st', rest))"
proof (induction ms arbitrary: st)
  case (Cons m ms)
  show ?case
    by (cases "sink_it w m st") (simp_all add: process_next_msg_def async_msg_of_def Cons.IH [unfolded async_msg_of_def])
qed (simp add: process_next_msg_def async_msg_bare_def)

section \<open>Properties\<close>


definition sample_mpmc :: "nat mpmc" where
  "sample_mpmc = after_pop 7 ((circular_q_new 0 1)\<lparr>cq_head := 1, cq_tail := 1, cq_v := [7, 0]\<rparr>)
     (after_push 7 ((circular_q_new 0 1)\<lparr>cq_tail := 1, cq_v := [7, 0]\<rparr>) (mpmc_new 0 1))"

lemma sample_mpmc_reachable: "mpmc_step\<^sup>*\<^sup>* (mpmc_new 0 1) sample_mpmc"
proof -
  have "replicate 2 (0 :: nat) = [0, 0]" by (simp add: numeral_2_eq_2)
  then have new: "circular_q_new 0 1 =
      \<lparr>max_items = 2, cq_head = 0, cq_tail = 0, overruns = 0, cq_v = [0, 0 :: nat]\<rparr>"
    by (simp add: circular_q_new_def usize_add_def)
  note eval = mpmc_new_def new [unfolded One_nat_def] new usize_add_def cq_full_def cq_push_back_def cq_incr_def
    Let_def after_push_def cq_empty_def cq_front_def cq_pop_front_def array_at_def
  let ?q = "(circular_q_new 0 1)\<lparr>cq_tail := 1, cq_v := [7, 0]\<rparr> :: nat circular_q"
  let ?s = "after_push 7 ?q (mpmc_new 0 1)"
  have one: "mpmc_step (mpmc_new 0 1) ?s"
    by (rule mpmc_step.Enqueue) (simp_all add: eval)
  have "mpmc_step ?s sample_mpmc"
    unfolding sample_mpmc_def by (rule mpmc_step.Dequeue) (simp_all add: eval)
  with one show ?thesis by (meson converse_rtranclp_into_rtranclp rtranclp.rtrancl_refl)
qed


text \<open>
  Property C27. No wake-up is lost. When no notification is due and no woken thread is still waiting for
  the mutex, the threads asleep in \<open>enqueue\<close> have a full queue and those asleep in \<open>dequeue_for\<close>
  an empty one; so producers and consumers never both sleep unless the queue was made for no items.
\<close>

theorem async_no_lost_wakeup:
  assumes "mpmc_step\<^sup>*\<^sup>* (mpmc_new d n) s" and "n < 2 ^ 63 - 1"
    and "push_notes s = 0" and "pop_notes s = 0" and "awake_push s = []" and "awake_pop s = 0"
  shows "(asleep_push s \<noteq> [] \<longrightarrow> cq_full (mq s)) \<and> (asleep_pop s > 0 \<longrightarrow> cq_empty (mq s)) \<and>
     (n > 0 \<longrightarrow> asleep_push s = [] \<or> asleep_pop s = 0)"
proof -
  have inv: "mpmc_inv n s" by (rule mpmc_inv_reachable [OF assms(1,2)])
  then have ok: "cq_ok (mq s)" "max_items (mq s) = Suc n" by (simp_all add: mpmc_inv_def)
  have "cq_full (mq s) \<longleftrightarrow> cq_count (mq s) = n" "cq_count (mq s) \<le> n"
    using cq_full_iff [OF ok(1)] cq_tail_eq(2) [OF ok(1)] ok(2) by (simp_all add: cq_cap_def)
  moreover have "cq_empty (mq s) \<longleftrightarrow> cq_count (mq s) = 0"
    using cq_empty_iff [OF ok(1)] length_cq_list [of "mq s"] by (metis length_0_conv)
  ultimately show ?thesis using inv assms(3-6) by (auto simp: mpmc_inv_def)
qed

theorem async_no_lost_wakeup_witness:
  "mpmc_step\<^sup>*\<^sup>* (mpmc_new (0 :: nat) 1) ((mpmc_new 0 1)\<lparr>asleep_pop := 1\<rparr>) \<and>
     cq_empty (mq ((mpmc_new (0 :: nat) 1)\<lparr>asleep_pop := 1\<rparr>)) \<and> asleep_push (mpmc_new (0 :: nat) 1) = []"
proof -
  have "mpmc_step (mpmc_new (0 :: nat) 1) ((mpmc_new 0 1)\<lparr>asleep_pop := Suc (asleep_pop (mpmc_new (0 :: nat) 1))\<rparr>)"
    by (rule mpmc_step.Dequeue_waits) (simp add: mpmc_new_def cq_empty_def circular_q_new_def)
  then have reach: "mpmc_step\<^sup>*\<^sup>* (mpmc_new (0 :: nat) 1) ((mpmc_new 0 1)\<lparr>asleep_pop := 1\<rparr>)"
    by (simp add: mpmc_new_def r_into_rtranclp)
  from async_no_lost_wakeup [OF reach] reach show ?thesis by (simp add: mpmc_new_def)
qed

text \<open>
  Shutting the pool down. Messages posted with the blocking policy while there is room, then
  the terminate message of the destructor: the single worker hands every message, with its own copy
  of the text, to the logger in the order of posting, and then ends.
\<close>

theorem async_drained_on_delete:
  assumes "length ms < n" and "n < 2 ^ 63 - 1"
  shows "\<exists>s s'. fold_res (\<lambda>m. post_log w m block) ms (mpmc_new d n) = Inr s \<and> thread_pool_delete 1 s = Inr s' \<and>
     worker_loop sink_it flush (map Some (cq_list (mq s'))) st =
       andthen (fold_res (sink_it w) ms st) (\<lambda>st'. Inr (st', []))"
proof -
  let ?logs = "map (async_msg_of w async_log) ms" and ?stop = "async_msg_bare None async_terminate"
  have new: "cq_list (mq (mpmc_new d n)) = []" "cq_count (mq (mpmc_new d n)) = 0"
    using cq_new_ok(2) [OF assms(2), of d] length_cq_list [of "circular_q_new d n"] by (simp_all add: mpmc_new_def)
  obtain s where s: "fold_res (\<lambda>m. post_async_msg m block) ?logs (mpmc_new d n) = Inr s" "mpmc_inv n s"
    "cq_list (mq s) = ?logs"
    using post_all_block [OF mpmc_inv_new [OF assms(2), of d], where ms = ?logs] assms(1) new by auto
  then have "cq_count (mq s) < n" using assms(1) length_cq_list [of "mq s"] by simp
  from post_block_room [OF s(2) this, of ?stop] obtain s' where
    "post_async_msg ?stop block s = Inr s'" "cq_list (mq s') = ?logs @ [?stop]" using s(3) by auto
  moreover have "fold_res (\<lambda>m. post_log w m block) ms (mpmc_new d n) = Inr s"
    using s(1) by (simp add: fold_res_map post_log_def [abs_def])
  ultimately show ?thesis
    using worker_loop_logs [of sink_it flush w ms "[]" st] by (auto simp: thread_pool_delete_def comp_def)
qed

theorem async_drained_on_delete_witness:
  "\<exists>s s'. fold_res (\<lambda>m. post_log () m block) [log_msg_new 1 7 no_source_loc ''n'' level_info ''a'',
       log_msg_new 2 7 no_source_loc ''n'' level_info ''b''] (mpmc_new (async_msg_bare None async_log) 8) = Inr s \<and>
     thread_pool_delete 1 s = Inr s' \<and>
     worker_loop (\<lambda>w m st. Inr (st @ payload m)) (\<lambda>w. Inr) (map Some (cq_list (mq s'))) [] = Inr (''ab'', [])"
  using async_drained_on_delete [of "[log_msg_new 1 7 no_source_loc ''n'' level_info ''a'',
       log_msg_new 2 7 no_source_loc ''n'' level_info ''b'']" 8 "()" "async_msg_bare None async_log"
       "\<lambda>w m st. Inr (st @ payload m)" "\<lambda>w. Inr" "[]"]
  by (simp add: log_msg_new_def)

text \<open>
  A queue for no items is always full: a thread that logs with the blocking policy waits for ever, and
  so does the destructor of the pool. The size is not checked by the constructor.
\<close>

lemma async_zero_capacity:
  assumes "mpmc_step\<^sup>*\<^sup>* (mpmc_new d 0) s"
  shows "cq_full (mq s) \<and> post_async_msg m block s = Inr (s\<lparr>asleep_push := asleep_push s @ [m]\<rparr>)"
proof -
  have "mpmc_inv 0 s" using mpmc_inv_reachable [OF assms] by simp
  then have "cq_full (mq s)"
    using cq_full_iff [of "mq s"] cq_tail_eq(2) [of "mq s"] by (simp add: mpmc_inv_def cq_cap_def)
  then show ?thesis by (simp add: post_async_msg_def)
qed

end
