(* ===== verification/Logger.thy ===== *)
theory Logger
  imports Circular_Q Fmt_Helper
begin

text \<open>
  The logger (\<open>logger.h\<close>, \<open>logger-inl.h\<close>): level checks, delivery to the sinks with the errors of one
  sink kept from the others, flushing, backtraces and the rate-limited report of errors.
  Sinks are shared objects on a heap (\<open>sink_heap\<close>); what a sink does when it logs or flushes is given by
  \<open>sink_ops\<close>, which returns the new sink and the \<open>what()\<close> of an exception it threw. Exceptions that are not
  \<open>std::exception\<close> are not modelled. The clock and the calling thread are part of the state.
\<close>

record 'k sink =
  sink_level :: level_enum
  sink_body :: 'k

record 'k sink_ops =
  sk_log :: "log_msg \<Rightarrow> 'k \<Rightarrow> 'k \<times> string option"
  sk_flush :: "'k \<Rightarrow> 'k \<times> string option"

definition sink_should_log :: "level_enum \<Rightarrow> 'k sink \<Rightarrow> bool" where
  "sink_should_log l k \<longleftrightarrow> l \<ge> sink_level k"

definition sink_set_level :: "level_enum \<Rightarrow> 'k sink \<Rightarrow> 'k sink" where
  "sink_set_level l k = k\<lparr>sink_level := l\<rparr>"

text \<open>
  The world of the loggers. \<open>last_report_time\<close>, \<open>err_counter\<close> and \<open>reports\<close> belong to the default error
  handler; \<open>handled\<close> are the calls of custom handlers.
\<close>

record ('k, 'h) log_world =
  sink_heap :: "nat \<Rightarrow> 'k sink option"
  wall :: int
  this_tid :: nat
  last_report_time :: int
  err_counter :: nat
  reports :: "(int \<times> string) list"
  handled :: "('h \<times> string) list"

record 'h logger =
  lg_name :: string
  lg_sinks :: "nat list"
  lg_level :: level_enum
  lg_flush_level :: level_enum
  custom_err_handler :: "'h option"
  tracer :: backtracer

definition logger_new :: "string \<Rightarrow> nat list \<Rightarrow> 'h logger" where
  "logger_new name sinks =
     \<lparr>lg_name = name, lg_sinks = sinks, lg_level = level_info, lg_flush_level = level_off,
      custom_err_handler = None, tracer = backtracer_new\<rparr>"

text \<open>Copy, move (with what is left of the source), swap, assignment and clone.\<close>

definition logger_copy :: "'h logger \<Rightarrow> 'h logger" where
  "logger_copy other = other\<lparr>tracer := backtracer_copy (tracer other)\<rparr>"

definition logger_move :: "'h logger \<Rightarrow> 'h logger \<times> 'h logger" where
  "logger_move other =
     (let (t, rest) = backtracer_move (tracer other)
      in (other\<lparr>tracer := t\<rparr>,
          other\<lparr>lg_name := [], lg_sinks := [], custom_err_handler := None, tracer := rest\<rparr>))"

definition logger_swap :: "'h logger \<Rightarrow> 'h logger \<Rightarrow> 'h logger \<times> 'h logger" where
  "logger_swap a b = (b, a)"

definition logger_assign :: "'h logger \<Rightarrow> 'h logger \<Rightarrow> 'h logger" where
  "logger_assign other a = fst (logger_swap a (logger_copy other))"

definition logger_clone :: "string \<Rightarrow> 'h logger \<Rightarrow> 'h logger" where
  "logger_clone new_name lg = (logger_copy lg)\<lparr>lg_name := new_name\<rparr>"

definition logger_set_level :: "level_enum \<Rightarrow> 'h logger \<Rightarrow> 'h logger" where
  "logger_set_level l lg = lg\<lparr>lg_level := l\<rparr>"

definition logger_flush_on :: "level_enum \<Rightarrow> 'h logger \<Rightarrow> 'h logger" where
  "logger_flush_on l lg = lg\<lparr>lg_flush_level := l\<rparr>"

definition logger_set_error_handler :: "'h option \<Rightarrow> 'h logger \<Rightarrow> 'h logger" where
  "logger_set_error_handler h lg = lg\<lparr>custom_err_handler := h\<rparr>"

definition logger_enable_backtrace :: "nat \<Rightarrow> 'h logger \<Rightarrow> 'h logger" where
  "logger_enable_backtrace n lg = lg\<lparr>tracer := bt_enable n (tracer lg)\<rparr>"

definition logger_disable_backtrace :: "'h logger \<Rightarrow> 'h logger" where
  "logger_disable_backtrace lg = lg\<lparr>tracer := bt_disable (tracer lg)\<rparr>"

definition logger_should_log :: "level_enum \<Rightarrow> 'h logger \<Rightarrow> bool" where
  "logger_should_log l lg \<longleftrightarrow> l \<ge> lg_level lg"

definition should_backtrace :: "'h logger \<Rightarrow> bool" where
  "should_backtrace lg = bt_enabled (tracer lg)"

definition should_flush :: "log_msg \<Rightarrow> 'h logger \<Rightarrow> bool" where
  "should_flush m lg \<longleftrightarrow> msg_level m \<ge> lg_flush_level lg \<and> msg_level m \<noteq> level_off"

section \<open>Errors while logging\<close>

text \<open>\<open>date\<close> stands for \<open>localtime\<close> and \<open>strftime\<close>: the text of the date of a time point.\<close>

definition err_handler ::
  "(int \<Rightarrow> string) \<Rightarrow> 'h logger \<Rightarrow> string \<Rightarrow> ('k, 'h) log_world \<Rightarrow> ('k, 'h) log_world" where
  "err_handler date lg msg w =
     (case custom_err_handler lg of
        Some h \<Rightarrow> w\<lparr>handled := handled w @ [(h, msg)]\<rparr>
      | None \<Rightarrow>
          (let now = wall w; w = w\<lparr>err_counter := usize_add (err_counter w) 1\<rparr>
           in if now - last_report_time w < 10 ^ 9 then w
              else w\<lparr>last_report_time := now,
                     reports := reports w @ [(now, ''[*** LOG ERROR #'' @ print_int0 4 (int (err_counter w)) @
                       '' ***] ['' @ date now @ ''] ['' @ lg_name lg @ ''] {'' @ msg @ ''}'')]\<rparr>))"

text \<open>\<open>SPDLOG_LOGGER_CATCH\<close>: the text handed to the error handler.\<close>

definition catch_text :: "source_loc \<Rightarrow> string \<Rightarrow> string" where
  "catch_text loc what =
     (case filename loc of
        Some f \<Rightarrow> what @ '' ['' @ f @ ''('' @ print_int (line_no loc) @ '')]''
      | None \<Rightarrow> what)"

definition on_exception ::
  "(int \<Rightarrow> string) \<Rightarrow> 'h logger \<Rightarrow> source_loc \<Rightarrow> string option \<Rightarrow> ('k, 'h) log_world \<Rightarrow> ('k, 'h) log_world" where
  "on_exception date lg loc ex w =
     (case ex of None \<Rightarrow> w | Some what \<Rightarrow> err_handler date lg (catch_text loc what) w)"

section \<open>Delivery\<close>

definition put_sink :: "nat \<Rightarrow> 'k sink \<Rightarrow> ('k, 'h) log_world \<Rightarrow> ('k, 'h) log_world" where
  "put_sink i k w = w\<lparr>sink_heap := (sink_heap w)(i := Some k)\<rparr>"

text \<open>The environment of a logger: the operations of the sinks and the date text.\<close>

record 'k log_env =
  ops :: "'k sink_ops"
  date_text :: "int \<Rightarrow> string"

definition sink_flush_one :: "'k log_env \<Rightarrow> 'h logger \<Rightarrow> nat \<Rightarrow> ('k, 'h) log_world \<Rightarrow> ('k, 'h) log_world res" where
  "sink_flush_one E lg i w =
     (case sink_heap w i of
        None \<Rightarrow> Inl Null_deref
      | Some k \<Rightarrow>
          (let (b, ex) = sk_flush (ops E) (sink_body k)
           in Inr (on_exception (date_text E) lg no_source_loc ex (put_sink i (k\<lparr>sink_body := b\<rparr>) w))))"

definition logger_flush :: "'k log_env \<Rightarrow> 'h logger \<Rightarrow> ('k, 'h) log_world \<Rightarrow> ('k, 'h) log_world res" where
  "logger_flush E lg w = fold_res (sink_flush_one E lg) (lg_sinks lg) w"

definition sink_log_one ::
  "'k log_env \<Rightarrow> 'h logger \<Rightarrow> log_msg \<Rightarrow> nat \<Rightarrow> ('k, 'h) log_world \<Rightarrow> ('k, 'h) log_world res" where
  "sink_log_one E lg m i w =
     (case sink_heap w i of
        None \<Rightarrow> Inl Null_deref
      | Some k \<Rightarrow>
          (if sink_should_log (msg_level m) k
           then (let (b, ex) = sk_log (ops E) m (sink_body k)
                 in Inr (on_exception (date_text E) lg (msg_source m) ex (put_sink i (k\<lparr>sink_body := b\<rparr>) w)))
           else Inr w))"

definition logger_sink_it :: "'k log_env \<Rightarrow> 'h logger \<Rightarrow> log_msg \<Rightarrow> ('k, 'h) log_world \<Rightarrow> ('k, 'h) log_world res" where
  "logger_sink_it E lg m w =
     andthen (fold_res (sink_log_one E lg m) (lg_sinks lg) w)
       (\<lambda>w. if should_flush m lg then logger_flush E lg w else Inr w)"

definition log_it ::
  "'k log_env \<Rightarrow> log_msg \<Rightarrow> bool \<Rightarrow> bool \<Rightarrow> 'h logger \<times> ('k, 'h) log_world \<Rightarrow>
     ('h logger \<times> ('k, 'h) log_world) res" where
  "log_it E m log_enabled traceback_enabled = (\<lambda>(lg, w).
     andthen (if log_enabled then logger_sink_it E lg m w else Inr w) (\<lambda>w.
     if traceback_enabled
     then andthen (bt_push_back m (tracer lg)) (\<lambda>t. Inr (lg\<lparr>tracer := t\<rparr>, w)) else Inr (lg, w)))"

text \<open>\<open>log\<close> with a time of the caller, with the current time, and without a location.\<close>

definition logger_log_at ::
  "'k log_env \<Rightarrow> int \<Rightarrow> source_loc \<Rightarrow> level_enum \<Rightarrow> string \<Rightarrow> 'h logger \<times> ('k, 'h) log_world \<Rightarrow>
     ('h logger \<times> ('k, 'h) log_world) res" where
  "logger_log_at E log_time loc lvl msg = (\<lambda>(lg, w).
     (let log_enabled = logger_should_log lvl lg; traceback_enabled = should_backtrace lg
      in if \<not> log_enabled \<and> \<not> traceback_enabled then Inr (lg, w)
         else log_it E (log_msg_new log_time (this_tid w) loc (lg_name lg) lvl msg) log_enabled traceback_enabled (lg, w)))"

definition logger_log ::
  "'k log_env \<Rightarrow> source_loc \<Rightarrow> level_enum \<Rightarrow> string \<Rightarrow> 'h logger \<times> ('k, 'h) log_world \<Rightarrow>
     ('h logger \<times> ('k, 'h) log_world) res" where
  "logger_log E loc lvl msg = (\<lambda>(lg, w). logger_log_at E (wall w) loc lvl msg (lg, w))"

text \<open>
  \<open>log_\<close> with a format string: \<open>formatted\<close> is what the formatting library makes of it, the text or the
  \<open>what()\<close> of its exception. Errors are caught by the logger; the arguments are formatted only when needed.
\<close>

definition logger_log_fmt ::
  "'k log_env \<Rightarrow> source_loc \<Rightarrow> level_enum \<Rightarrow> string + string \<Rightarrow> 'h logger \<times> ('k, 'h) log_world \<Rightarrow>
     ('h logger \<times> ('k, 'h) log_world) res" where
  "logger_log_fmt E loc lvl formatted = (\<lambda>(lg, w).
     (let log_enabled = logger_should_log lvl lg; traceback_enabled = should_backtrace lg
      in if \<not> log_enabled \<and> \<not> traceback_enabled then Inr (lg, w)
         else (case formatted of
                 Inl what \<Rightarrow> Inr (lg, on_exception (date_text E) lg loc (Some what) w)
               | Inr buf \<Rightarrow>
                   log_it E (log_msg_new (wall w) (this_tid w) loc (lg_name lg) lvl buf)
                     log_enabled traceback_enabled (lg, w))))"

definition backtrace_start :: string where
  "backtrace_start = ''****************** Backtrace Start ******************''"

definition backtrace_end :: string where
  "backtrace_end = ''****************** Backtrace End ********************''"

definition dump_backtrace ::
  "'k log_env \<Rightarrow> 'h logger \<times> ('k, 'h) log_world \<Rightarrow> ('h logger \<times> ('k, 'h) log_world) res option" where
  "dump_backtrace E = (\<lambda>(lg, w).
     if bt_enabled (tracer lg)
     then (let note = (\<lambda>s w. log_msg_new (wall w) (this_tid w) no_source_loc (lg_name lg) level_info s)
           in case logger_sink_it E lg (note backtrace_start w) w of
                Inl f \<Rightarrow> Some (Inl f)
              | Inr w \<Rightarrow>
                  map_option (\<lambda>r. andthen r (\<lambda>(t, w).
                      andthen (logger_sink_it E lg (note backtrace_end w) w) (\<lambda>w. Inr (lg\<lparr>tracer := t\<rparr>, w))))
                    (foreach_pop (logger_sink_it E lg) (tracer lg) w))
     else Some (Inr (lg, w)))"

section \<open>What a delivery changes\<close>

lemma on_exception_tracer [simp]: "on_exception d (lg\<lparr>tracer := t\<rparr>) = on_exception d lg"
  by (simp add: on_exception_def err_handler_def Let_def fun_eq_iff split: option.split)

lemma sink_one_tracer [simp]:
  "sink_log_one E (lg\<lparr>tracer := t\<rparr>) = sink_log_one E lg" "sink_flush_one E (lg\<lparr>tracer := t\<rparr>) = sink_flush_one E lg"
  by (simp_all add: fun_eq_iff sink_log_one_def sink_flush_one_def split: option.split)

lemma sink_it_tracer [simp]: "logger_sink_it E (lg\<lparr>tracer := t\<rparr>) = logger_sink_it E lg"
  by (simp add: fun_eq_iff logger_sink_it_def logger_flush_def should_flush_def cong: if_cong)

lemma on_exception_frame [simp]:
  "sink_heap (on_exception d lg loc ex w) = sink_heap w" "wall (on_exception d lg loc ex w) = wall w"
  "this_tid (on_exception d lg loc ex w) = this_tid w"
  by (auto simp: on_exception_def err_handler_def Let_def split: option.splits)

lemma put_sink_frame [simp]:
  "sink_heap (put_sink i k w) = (sink_heap w)(i := Some k)" "wall (put_sink i k w) = wall w"
  "this_tid (put_sink i k w) = this_tid w"
  by (simp_all add: put_sink_def)

text \<open>The sink after a message it may have to log.\<close>

definition sink_after :: "'k log_env \<Rightarrow> log_msg \<Rightarrow> 'k sink \<Rightarrow> 'k sink" where
  "sink_after E m k =
     (if sink_should_log (msg_level m) k then k\<lparr>sink_body := fst (sk_log (ops E) m (sink_body k))\<rparr> else k)"

lemma sink_log_one_eq:
  assumes "sink_heap w i = Some k"
  shows "\<exists>w'. sink_log_one E lg m i w = Inr w' \<and> wall w' = wall w \<and> this_tid w' = this_tid w \<and>
     sink_heap w' = (sink_heap w)(i := Some (sink_after E m k))"
proof (cases "sink_should_log (msg_level m) k")
  case True
  obtain b ex where "sk_log (ops E) m (sink_body k) = (b, ex)" by fastforce
  with True assms show ?thesis by (simp add: sink_log_one_def sink_after_def)
next
  case False
  with assms show ?thesis by (simp add: sink_log_one_def sink_after_def fun_upd_idem)
qed

lemma sink_log_all:
  assumes "distinct is" and "\<forall>i\<in>set is. sink_heap w i \<noteq> None"
  shows "\<exists>w'. fold_res (sink_log_one E lg m) is w = Inr w' \<and> wall w' = wall w \<and> this_tid w' = this_tid w \<and>
     sink_heap w' = (\<lambda>i. if i \<in> set is then map_option (sink_after E m) (sink_heap w i) else sink_heap w i)"
  using assms
proof (induction "is" arbitrary: w)
  case (Cons i "is")
  then obtain k where k: "sink_heap w i = Some k" by auto
  from sink_log_one_eq [OF this, of E lg m] obtain w1 where
    w1: "sink_log_one E lg m i w = Inr w1" "wall w1 = wall w" "this_tid w1 = this_tid w"
    "sink_heap w1 = (sink_heap w)(i := Some (sink_after E m k))" by blast
  with Cons.prems have "distinct is" "\<forall>j\<in>set is. sink_heap w1 j \<noteq> None" by auto
  from Cons.IH [OF this] w1 Cons.prems(1) k show ?case by (auto simp: fun_eq_iff)
qed (simp add: fun_eq_iff)

definition same_clock :: "('k, 'h) log_world \<Rightarrow> ('k, 'h) log_world \<Rightarrow> bool" where
  "same_clock w w' \<longleftrightarrow> wall w' = wall w \<and> this_tid w' = this_tid w"

lemma same_clock_refl [simp]: "same_clock w w"
  by (simp add: same_clock_def)

lemma flush_one_clock: "same_clock v w \<Longrightarrow> sink_flush_one E lg i w = Inr w' \<Longrightarrow> same_clock v w'"
  by (auto simp: sink_flush_one_def same_clock_def split: option.splits prod.splits)

lemma log_one_clock: "same_clock v w \<Longrightarrow> sink_log_one E lg m i w = Inr w' \<Longrightarrow> same_clock v w'"
  by (auto simp: sink_log_one_def same_clock_def split: option.splits prod.splits if_splits)

lemma sink_it_clock: "same_clock v w \<Longrightarrow> logger_sink_it E lg m w = Inr w' \<Longrightarrow> same_clock v w'"
proof -
  assume v: "same_clock v w" and "logger_sink_it E lg m w = Inr w'"
  then obtain w1 where w1: "fold_res (sink_log_one E lg m) (lg_sinks lg) w = Inr w1"
    "(if should_flush m lg then logger_flush E lg w1 else Inr w1) = Inr w'"
    by (auto simp: logger_sink_it_def res_simps)
  have "same_clock v w1" by (rule fold_res_invariant [where P = "same_clock v", OF _ v w1(1)]) (auto intro: log_one_clock)
  with w1(2) show "same_clock v w'"
    by (auto simp: logger_flush_def split: if_splits intro: fold_res_invariant [where P = "same_clock v"] flush_one_clock)
qed

lemma sink_it_all_clock: "fold_res (logger_sink_it E lg) ms w = Inr w' \<Longrightarrow> same_clock w w'"
  by (rule fold_res_invariant [where P = "same_clock w"]) (auto intro: sink_it_clock)

section \<open>Properties\<close>

definition msg_of_call :: "'h logger \<Rightarrow> nat \<Rightarrow> int \<times> source_loc \<times> level_enum \<times> string \<Rightarrow> log_msg" where
  "msg_of_call lg tid = (\<lambda>(t, loc, l, s). log_msg_new t tid loc (lg_name lg) l s)"

definition log_call ::
  "'k log_env \<Rightarrow> int \<times> source_loc \<times> level_enum \<times> string \<Rightarrow> 'h logger \<times> ('k, 'h) log_world \<Rightarrow>
     ('h logger \<times> ('k, 'h) log_world) res" where
  "log_call E = (\<lambda>(t, loc, l, s). logger_log_at E t loc l s)"

definition admitted :: "'h logger \<Rightarrow> 'k sink \<Rightarrow> log_msg \<Rightarrow> bool" where
  "admitted lg k m \<longleftrightarrow> logger_should_log (msg_level m) lg \<and> sink_should_log (msg_level m) k"

definition body_after :: "'k log_env \<Rightarrow> 'h logger \<Rightarrow> log_msg list \<Rightarrow> 'k sink \<Rightarrow> 'k sink" where
  "body_after E lg ms k =
     k\<lparr>sink_body := foldl (\<lambda>b m. fst (sk_log (ops E) m b)) (sink_body k) (filter (admitted lg k) ms)\<rparr>"

lemma map_option_ident: "map_option (\<lambda>k. k) = (\<lambda>k. k)"
  by (rule ext) (rule option.map_ident)

lemma log_call_eq:
  assumes "distinct (lg_sinks lg)" and "\<forall>i\<in>set (lg_sinks lg). sink_heap w i \<noteq> None" and "\<not> should_backtrace lg"
    and "lg_flush_level lg = level_off" and "fst (snd (snd c)) \<noteq> n_levels"
  shows "\<exists>w'. log_call E c (lg, w) = Inr (lg, w') \<and> this_tid w' = this_tid w \<and>
     sink_heap w' = (\<lambda>i. if i \<in> set (lg_sinks lg) then map_option (body_after E lg [msg_of_call lg (this_tid w) c]) (sink_heap w i)
       else sink_heap w i)"
proof -
  obtain t loc l s where c: "c = (t, loc, l, s)" by (cases c) auto
  let ?m = "log_msg_new t (this_tid w) loc (lg_name lg) l s"
  have level: "msg_level ?m = l" by (simp add: log_msg_new_def)
  show ?thesis
  proof (cases "logger_should_log l lg")
    case False
    then have "body_after E lg [msg_of_call lg (this_tid w) c] = (\<lambda>k. k)"
      using c level by (simp add: body_after_def msg_of_call_def admitted_def fun_eq_iff)
    then have "map_option (body_after E lg [msg_of_call lg (this_tid w) c]) = (\<lambda>k. k)"
      by (simp add: map_option_ident)
    with False assms(3) c show ?thesis
      by (simp add: log_call_def logger_log_at_def cong: if_cong)
  next
    case True
    then have "body_after E lg [msg_of_call lg (this_tid w) c] = sink_after E ?m"
      using c level by (auto simp: body_after_def msg_of_call_def admitted_def sink_after_def fun_eq_iff)
    moreover have "\<not> should_flush ?m lg"
      using assms(4,5) c level by (cases l) (auto simp: should_flush_def level_order)
    moreover note sink_log_all [OF assms(1,2), of E lg ?m]
    ultimately show ?thesis
      using True assms(3) c by (auto simp: log_call_def logger_log_at_def log_it_def logger_sink_it_def cong: if_cong)
  qed
qed

lemma log_calls_eq:
  assumes "distinct (lg_sinks lg)" and "\<forall>i\<in>set (lg_sinks lg). sink_heap w i \<noteq> None" and "\<not> should_backtrace lg"
    and "lg_flush_level lg = level_off" and "\<forall>c\<in>set cs. fst (snd (snd c)) \<noteq> n_levels"
  shows "\<exists>w'. fold_res (log_call E) cs (lg, w) = Inr (lg, w') \<and>
     sink_heap w' = (\<lambda>i. if i \<in> set (lg_sinks lg) then map_option (body_after E lg (map (msg_of_call lg (this_tid w)) cs)) (sink_heap w i)
       else sink_heap w i)"
  using assms(2,5)
proof (induction cs arbitrary: w)
  case Nil
  have "body_after E lg [] = (\<lambda>k. k)" by (simp add: body_after_def fun_eq_iff)
  then have "map_option (body_after E lg []) = (\<lambda>k. k)" by (simp add: map_option_ident)
  then show ?case by (simp cong: if_cong)
next
  case (Cons c cs)
  then obtain w1 where w1: "log_call E c (lg, w) = Inr (lg, w1)" "this_tid w1 = this_tid w" "sink_heap w1 =
      (\<lambda>i. if i \<in> set (lg_sinks lg) then map_option (body_after E lg [msg_of_call lg (this_tid w) c]) (sink_heap w i)
       else sink_heap w i)"
    using log_call_eq [OF assms(1) _ assms(3,4), of w c E] by auto
  have "body_after E lg (map (msg_of_call lg (this_tid w)) cs) (body_after E lg [msg_of_call lg (this_tid w) c] k) =
      body_after E lg (map (msg_of_call lg (this_tid w)) (c # cs)) k" for k
    by (simp add: body_after_def admitted_def [abs_def] sink_should_log_def)
  then have comp: "body_after E lg (map (msg_of_call lg (this_tid w)) cs) \<circ> body_after E lg [msg_of_call lg (this_tid w) c] =
      body_after E lg (map (msg_of_call lg (this_tid w)) (c # cs))" by (simp add: fun_eq_iff)
  from w1(3) Cons.prems have "\<forall>i\<in>set (lg_sinks lg). sink_heap w1 i \<noteq> None" by simp
  from Cons.IH [OF this] Cons.prems(2) w1 show ?case
    by (auto simp: fun_eq_iff option.map_comp comp)
qed

text \<open>The state of the default error handler: reports are in order, the last one at \<open>last_report_time\<close>.\<close>

definition reports_ok :: "('k, 'h) log_world \<Rightarrow> bool" where
  "reports_ok w \<longleftrightarrow> sorted_wrt (\<lambda>a b. a + 10 ^ 9 \<le> b) (map fst (reports w)) \<and>
     (\<forall>r\<in>set (reports w). fst r \<le> last_report_time w)"

definition error_event ::
  "(int \<Rightarrow> string) \<Rightarrow> int \<times> 'h logger \<times> string \<Rightarrow> ('k, 'h) log_world \<Rightarrow> ('k, 'h) log_world" where
  "error_event date = (\<lambda>(now, lg, msg) w. err_handler date lg msg (w\<lparr>wall := now\<rparr>))"

lemma reports_ok_event:
  assumes "reports_ok w" and "custom_err_handler lg = None"
  shows "reports_ok (error_event d (now, lg, msg) w) \<and>
     err_counter (error_event d (now, lg, msg) w) = usize_add (err_counter w) 1"
proof (cases "now - last_report_time w < 10 ^ 9")
  case True
  with assms show ?thesis by (simp add: error_event_def err_handler_def Let_def reports_ok_def)
next
  case False
  then have "r \<in> set (reports w) \<Longrightarrow> fst r + 10 ^ 9 \<le> now" for r
    using assms(1) by (force simp: reports_ok_def)
  moreover have "r \<in> set (reports w) \<Longrightarrow> fst r \<le> now" for r
    using False assms(1) by (force simp: reports_ok_def)
  ultimately show ?thesis using False assms
    by (auto simp: error_event_def err_handler_def Let_def reports_ok_def sorted_wrt_append)
qed


text \<open>Two sinks that record the text; the second one throws each time.\<close>

definition sample_log_env :: "(bool \<times> string list) log_env" where
  "sample_log_env = \<lparr>ops = \<lparr>sk_log = \<lambda>m (bad, out). ((bad, out @ [payload m]), if bad then Some ''disk full'' else None),
     sk_flush = \<lambda>k. (k, None)\<rparr>, date_text = \<lambda>t. ''now''\<rparr>"

definition sample_log_world :: "((bool \<times> string list), nat) log_world" where
  "sample_log_world = \<lparr>sink_heap = [1 \<mapsto> \<lparr>sink_level = level_trace, sink_body = (True, [])\<rparr>,
     2 \<mapsto> \<lparr>sink_level = level_err, sink_body = (False, [])\<rparr>], wall = 10 ^ 18, this_tid = 7,
     last_report_time = 0, err_counter = 0, reports = [], handled = []\<rparr>"


text \<open>
  Reports of errors are rate limited. Whatever errors the loggers without a custom handler meet, at
  whatever times, also when the clock goes backwards, every error is counted and two reports to the
  standard error output are at least a second apart.
\<close>

theorem error_reports_limited:
  assumes "reports_ok w" and "\<forall>(now, lg, msg)\<in>set es. custom_err_handler lg = None"
  shows "sorted_wrt (\<lambda>a b. a + 10 ^ 9 \<le> b) (map fst (reports (fold (error_event d) es w))) \<and>
     err_counter (fold (error_event d) es w) mod 2 ^ 64 = (err_counter w + length es) mod 2 ^ 64"
proof -
  have "reports_ok (fold (error_event d) es w) \<and>
      err_counter (fold (error_event d) es w) mod 2 ^ 64 = (err_counter w + length es) mod 2 ^ 64"
    using assms
  proof (induction es arbitrary: w)
    case (Cons e es)
    obtain now lg msg where e: "e = (now, lg, msg)" by (cases e)
    with Cons.prems reports_ok_event [of w lg d now msg] have
      "reports_ok (error_event d e w)" "err_counter (error_event d e w) = usize_add (err_counter w) 1" by auto
    with Cons.IH [of "error_event d e w"] Cons.prems(2) show ?case
      by (simp add: usize_add_def mod_add_left_eq)
  qed simp
  then show ?thesis by (simp add: reports_ok_def)
qed

theorem error_reports_limited_witness:
  "sorted_wrt (\<lambda>a b. a + 10 ^ 9 \<le> b) (map fst (reports (fold (error_event (\<lambda>t. ''now''))
     [(10 ^ 18, logger_new ''net'' [], ''x''), (10 ^ 18 + 5, logger_new ''net'' [], ''y'')] sample_log_world)))"
  using error_reports_limited [of sample_log_world
      "[(10 ^ 18, logger_new ''net'' [], ''x''), (10 ^ 18 + 5, logger_new ''net'' [], ''y'')]" "\<lambda>t. ''now''"]
  by (simp add: reports_ok_def sample_log_world_def logger_new_def)

text \<open>
  Dumping a backtrace. A logger that traces its last \<open>n\<close> messages and is asked to dump them delivers a
  start line, these messages in the order of logging and an end line to its sinks, and has nothing to dump
  afterwards; dumping always ends.
\<close>

theorem backtrace_dumped:
  assumes "n < 2 ^ 63 - 1"
  shows "\<exists>t t'. fold_res bt_push_back ms (tracer (logger_enable_backtrace n lg)) = Inr t \<and>
     dump_backtrace E (lg\<lparr>tracer := t\<rparr>, w) =
       Some (andthen (fold_res (logger_sink_it E lg)
         (log_msg_new (wall w) (this_tid w) no_source_loc (lg_name lg) level_info backtrace_start # last_n n ms @
          [log_msg_new (wall w) (this_tid w) no_source_loc (lg_name lg) level_info backtrace_end]) w)
         (\<lambda>w'. Inr (lg\<lparr>tracer := t'\<rparr>, w'))) \<and>
     cq_list (bt_messages t') = []"
proof -
  let ?t = "tracer (logger_enable_backtrace n lg)"
  let ?note = "\<lambda>s. log_msg_new (wall w) (this_tid w) no_source_loc (lg_name lg) level_info s"
  have "cq_ok (bt_messages ?t)" "cq_list (bt_messages ?t) = []" "cq_cap (bt_messages ?t) = n" "bt_enabled ?t"
    using cq_new_ok [OF assms] by (simp_all add: logger_enable_backtrace_def bt_enable_def)
  with bt_push_all [of ?t ms] obtain t where t: "fold_res bt_push_back ms ?t = Inr t" "cq_ok (bt_messages t)"
    "bt_enabled t" "cq_list (bt_messages t) = last_n n (map log_msg_buffer_of ms)" by auto
  have texts: "map lmb_view (cq_list (bt_messages t)) = last_n n ms"
    using t(4) by (simp add: map_last_n comp_def)
  show ?thesis
  proof (cases "logger_sink_it E lg (?note backtrace_start) w")
    case (Inl f)
    from foreach_pop_loop_eq [OF t(2), of "logger_sink_it E lg"] obtain q' :: "log_msg_buffer circular_q"
      where "cq_list q' = []" by blast
    with t Inl show ?thesis
      by (auto simp: dump_backtrace_def Let_def intro!: exI [of _ "t\<lparr>bt_messages := q'\<rparr>"])
  next
    case (Inr w1)
    from foreach_pop_loop_eq [OF t(2), of "logger_sink_it E lg"] obtain q' where q': "cq_list q' = []"
      "foreach_pop_loop (logger_sink_it E lg) (bt_messages t) w1 =
         Some (andthen (fold_res (logger_sink_it E lg) (last_n n ms) w1) (\<lambda>w. Inr (q', w)))"
      unfolding texts by blast
    have "wall w2 = wall w \<and> this_tid w2 = this_tid w"
      if "fold_res (logger_sink_it E lg) (last_n n ms) w1 = Inr w2" for w2
      using sink_it_clock [OF same_clock_refl Inr] sink_it_all_clock [OF that] by (simp add: same_clock_def)
    with t(1,3) Inr q' show ?thesis
      by (cases "fold_res (logger_sink_it E lg) (last_n n ms) w1")
        (auto simp: dump_backtrace_def Let_def foreach_pop_def fold_res_append andthen_assoc
          intro!: exI [of _ "t\<lparr>bt_messages := q'\<rparr>"])
  qed
qed

theorem backtrace_dumped_witness:
  "\<exists>t (t' :: backtracer). fold_res bt_push_back (map (\<lambda>s. log_msg_new 1 7 no_source_loc ''net'' level_debug s) [''a'', ''b'', ''c''])
       (tracer (logger_enable_backtrace 2 (logger_new ''net'' [1] :: nat logger))) = Inr t \<and>
     map_option (\<lambda>r. andthen r (\<lambda>(lg, w). Inr (map_option sink_body (sink_heap w 1))))
       (dump_backtrace sample_log_env ((logger_new ''net'' [1])\<lparr>tracer := t\<rparr>, sample_log_world)) =
     Some (Inr (Some (True, [backtrace_start, ''b'', ''c'', backtrace_end]))) \<and> cq_list (bt_messages t') = []"
proof -
  let ?lg = "logger_new ''net'' [1] :: nat logger"
  let ?m = "\<lambda>s. log_msg_new 1 7 no_source_loc ''net'' level_debug s"
  let ?note = "\<lambda>s. log_msg_new (wall sample_log_world) (this_tid sample_log_world) no_source_loc (lg_name ?lg) level_info s"
  have last: "last_n 2 (map ?m [''a'', ''b'', ''c'']) = [?m ''b'', ?m ''c'']" by (simp add: last_n_def)
  from backtrace_dumped [of 2 "map ?m [''a'', ''b'', ''c'']" ?lg sample_log_env sample_log_world]
  obtain t t' where t: "fold_res bt_push_back (map ?m [''a'', ''b'', ''c'']) (tracer (logger_enable_backtrace 2 ?lg)) = Inr t"
    "dump_backtrace sample_log_env (?lg\<lparr>tracer := t\<rparr>, sample_log_world) =
       Some (andthen (fold_res (logger_sink_it sample_log_env ?lg)
         (?note backtrace_start # [?m ''b'', ?m ''c''] @ [?note backtrace_end]) sample_log_world)
         (\<lambda>w'. Inr (?lg\<lparr>tracer := t'\<rparr>, w')))" "cq_list (bt_messages t') = []"
    unfolding last by auto
  have "\<exists>w'. fold_res (logger_sink_it sample_log_env ?lg)
      (?note backtrace_start # [?m ''b'', ?m ''c''] @ [?note backtrace_end]) sample_log_world = Inr w' \<and>
      map_option sink_body (sink_heap w' 1) = Some (True, [backtrace_start, ''b'', ''c'', backtrace_end])"
    by (simp add: log_msg_new_def logger_new_def logger_sink_it_def sink_log_one_def sample_log_env_def
      sample_log_world_def level_order sink_should_log_def put_sink_def on_exception_def err_handler_def
      should_flush_def catch_text_def no_source_loc_def Let_def)
  then obtain w' where "fold_res (logger_sink_it sample_log_env ?lg)
      (?note backtrace_start # [?m ''b'', ?m ''c''] @ [?note backtrace_end]) sample_log_world = Inr w'"
      "map_option sink_body (sink_heap w' 1) = Some (True, [backtrace_start, ''b'', ''c'', backtrace_end])" by blast
  with t(1,2) have "fold_res bt_push_back (map ?m [''a'', ''b'', ''c'']) (tracer (logger_enable_backtrace 2 ?lg)) = Inr t \<and>
     map_option (\<lambda>r. andthen r (\<lambda>(lg, w). Inr (map_option sink_body (sink_heap w 1))))
       (dump_backtrace sample_log_env (?lg\<lparr>tracer := t\<rparr>, sample_log_world)) =
     Some (Inr (Some (True, [backtrace_start, ''b'', ''c'', backtrace_end])))" by (simp del: fold_res.simps)
  with t(3) show ?thesis by blast
qed

end
