(* ===== verification/Log_Registry.thy ===== *)
theory Log_Registry
  imports Logger Pattern_Formatter "HOL-Library.AList"
begin

text \<open>
  The registry of loggers (\<open>details/registry.h\<close>, \<open>registry-inl.h\<close>, \<open>spdlog-inl.h\<close>, \<open>spdlog.h\<close>,
  \<open>synchronous_factory.h\<close>) and the formatter operations of a logger it calls. Loggers are shared objects on a
  heap. The unordered maps are association lists with distinct keys, whose order is one of the orders in which the
  code may visit the entries. Each operation holds the mutex of the map while it runs, so operations are single steps.
  An operation that throws returns the \<open>what()\<close> of the exception beside the state it leaves.
\<close>

section \<open>Formatters of the sinks\<close>

text \<open>The virtual operations of formatters and sinks: \<open>formatter::clone\<close> and \<open>sink::set_formatter\<close>.\<close>

record ('f, 'k) formatter_ops =
  fm_clone :: "'f \<Rightarrow> 'f"
  sk_set_formatter :: "'f \<Rightarrow> 'k \<Rightarrow> 'k"

definition sink_set_formatter ::
  "('f, 'k) formatter_ops \<Rightarrow> 'f \<Rightarrow> nat \<Rightarrow> ('k, 'h) log_world \<Rightarrow> ('k, 'h) log_world res" where
  "sink_set_formatter fo f i w =
     (case sink_heap w i of
        None \<Rightarrow> Inl Null_deref
      | Some k \<Rightarrow> Inr (put_sink i (k\<lparr>sink_body := sk_set_formatter fo f (sink_body k)\<rparr>) w))"

text \<open>\<open>logger::set_formatter\<close>: the last sink gets the formatter itself, the others clones.\<close>

fun set_formatters ::
  "('f, 'k) formatter_ops \<Rightarrow> 'f \<Rightarrow> nat list \<Rightarrow> ('k, 'h) log_world \<Rightarrow> ('k, 'h) log_world res" where
  "set_formatters fo f [] w = Inr w"
| "set_formatters fo f [i] w = sink_set_formatter fo f i w"
| "set_formatters fo f (i # j # is) w =
     andthen (sink_set_formatter fo (fm_clone fo f) i w) (set_formatters fo f (j # is))"

definition logger_set_formatter ::
  "('f, 'k) formatter_ops \<Rightarrow> 'f \<Rightarrow> 'h logger \<Rightarrow> ('k, 'h) log_world \<Rightarrow> ('k, 'h) log_world res" where
  "logger_set_formatter fo f lg w = set_formatters fo f (lg_sinks lg) w"

definition logger_set_pattern ::
  "('c pattern_formatter, 'k) formatter_ops \<Rightarrow> int \<Rightarrow> string \<Rightarrow> pattern_time_type \<Rightarrow> 'h logger \<Rightarrow>
     ('k, 'h) log_world \<Rightarrow> ('k, 'h) log_world res" where
  "logger_set_pattern fo now pat ty lg w =
     logger_set_formatter fo (pattern_formatter_new now pat ty [CHR 0x0A] (\<lambda>c. None)) lg w"

section \<open>State\<close>

text \<open>A thread pool is an object identified by a number; the periodic flusher is its interval.\<close>

record ('f, 'h) registry =
  loggers :: "(string \<times> nat) list"
  log_levels :: "(string \<times> level_enum) list"
  reg_formatter :: 'f
  global_log_level :: level_enum
  reg_flush_level :: level_enum
  reg_err_handler :: "'h option"
  reg_tp :: "nat option"
  periodic_flusher :: "int option"
  default_logger :: "nat option"
  automatic_registration :: bool
  backtrace_n_messages :: nat

record ('f, 'k, 'h) reg_world =
  reg :: "('f, 'h) registry"
  logger_heap :: "nat \<Rightarrow> 'h logger option"
  lworld :: "('k, 'h) log_world"

abbreviation upd_reg ::
  "(('f, 'h) registry \<Rightarrow> ('f, 'h) registry) \<Rightarrow> ('f, 'k, 'h) reg_world \<Rightarrow> ('f, 'k, 'h) reg_world" where
  "upd_reg g w \<equiv> w\<lparr>reg := g (reg w)\<rparr>"

text \<open>The constructor: logger \<open>i\<close> with the empty name and the color sink \<open>s\<close> is the default logger.\<close>

definition registry_new :: "'f \<Rightarrow> nat \<Rightarrow> ('f, 'h) registry" where
  "registry_new f i =
     \<lparr>loggers = [([], i)], log_levels = [], reg_formatter = f, global_log_level = level_info,
      reg_flush_level = level_off, reg_err_handler = None, reg_tp = None, periodic_flusher = None,
      default_logger = Some i, automatic_registration = True, backtrace_n_messages = 0\<rparr>"

definition reg_world_new :: "'f \<Rightarrow> nat \<Rightarrow> nat \<Rightarrow> ('k, 'h) log_world \<Rightarrow> ('f, 'k, 'h) reg_world" where
  "reg_world_new f i s w = \<lparr>reg = registry_new f i, logger_heap = [i \<mapsto> logger_new [] [s]], lworld = w\<rparr>"

definition with_logger ::
  "nat \<Rightarrow> ('f, 'k, 'h) reg_world \<Rightarrow> ('h logger \<Rightarrow> 'a res) \<Rightarrow> 'a res" where
  "with_logger i w f = (case logger_heap w i of None \<Rightarrow> Inl Null_deref | Some lg \<Rightarrow> f lg)"

definition put_logger :: "nat \<Rightarrow> 'h logger \<Rightarrow> ('f, 'k, 'h) reg_world \<Rightarrow> ('f, 'k, 'h) reg_world" where
  "put_logger i lg w = w\<lparr>logger_heap := (logger_heap w)(i \<mapsto> lg)\<rparr>"

section \<open>Operations\<close>

text \<open>\<open>throw_if_exists_\<close> and \<open>register_logger_\<close>.\<close>

definition throw_if_exists :: "string \<Rightarrow> ('f, 'h) registry \<Rightarrow> string option" where
  "throw_if_exists name r =
     (if map_of (loggers r) name \<noteq> None
      then Some (''logger with name '' @ [CHR 0x27] @ name @ [CHR 0x27] @ '' already exists'') else None)"

definition register_logger ::
  "nat \<Rightarrow> ('f, 'k, 'h) reg_world \<Rightarrow> (string option \<times> ('f, 'k, 'h) reg_world) res" where
  "register_logger i w =
     with_logger i w (\<lambda>lg.
       case throw_if_exists (lg_name lg) (reg w) of
         Some what \<Rightarrow> Inr (Some what, w)
       | None \<Rightarrow> Inr (None, upd_reg (\<lambda>r. r\<lparr>loggers := AList.update (lg_name lg) i (loggers r)\<rparr>) w))"

definition configure :: "('f, 'h) registry \<Rightarrow> 'h logger \<Rightarrow> 'h logger" where
  "configure r lg =
     (let lg = (case reg_err_handler r of Some h \<Rightarrow> logger_set_error_handler (Some h) lg | None \<Rightarrow> lg);
          new_level = (case map_of (log_levels r) (lg_name lg) of Some l \<Rightarrow> l | None \<Rightarrow> global_log_level r);
          lg = logger_flush_on (reg_flush_level r) (logger_set_level new_level lg)
      in if backtrace_n_messages r > 0 then logger_enable_backtrace (backtrace_n_messages r) lg else lg)"

definition initialize_logger ::
  "('f, 'k) formatter_ops \<Rightarrow> nat \<Rightarrow> ('f, 'k, 'h) reg_world \<Rightarrow> (string option \<times> ('f, 'k, 'h) reg_world) res" where
  "initialize_logger fo i w =
     with_logger i w (\<lambda>lg.
       andthen (logger_set_formatter fo (fm_clone fo (reg_formatter (reg w))) lg (lworld w)) (\<lambda>lw.
         (let w = put_logger i (configure (reg w) lg) (w\<lparr>lworld := lw\<rparr>)
          in if automatic_registration (reg w) then register_logger i w else Inr (None, w))))"

definition reg_get :: "string \<Rightarrow> ('f, 'k, 'h) reg_world \<Rightarrow> nat option" where
  "reg_get name w = map_of (loggers (reg w)) name"

definition set_default_logger :: "nat option \<Rightarrow> ('f, 'k, 'h) reg_world \<Rightarrow> ('f, 'k, 'h) reg_world res" where
  "set_default_logger new w =
     andthen (case default_logger (reg w) of
                None \<Rightarrow> Inr w
              | Some d \<Rightarrow> with_logger d w (\<lambda>lg.
                  Inr (upd_reg (\<lambda>r. r\<lparr>loggers := AList.delete (lg_name lg) (loggers r)\<rparr>) w))) (\<lambda>w.
     andthen (case new of
                None \<Rightarrow> Inr w
              | Some i \<Rightarrow> with_logger i w (\<lambda>lg.
                  Inr (upd_reg (\<lambda>r. r\<lparr>loggers := AList.update (lg_name lg) i (loggers r)\<rparr>) w))) (\<lambda>w.
     Inr (upd_reg (\<lambda>r. r\<lparr>default_logger := new\<rparr>) w)))"

definition set_tp :: "nat option \<Rightarrow> ('f, 'k, 'h) reg_world \<Rightarrow> ('f, 'k, 'h) reg_world" where
  "set_tp tp w = upd_reg (\<lambda>r. r\<lparr>reg_tp := tp\<rparr>) w"

text \<open>The loops over all loggers: one that changes the loggers, and one that calls them.\<close>

definition change_logger ::
  "(string \<Rightarrow> 'h logger \<Rightarrow> 'h logger) \<Rightarrow> string \<times> nat \<Rightarrow> ('f, 'k, 'h) reg_world \<Rightarrow> ('f, 'k, 'h) reg_world res" where
  "change_logger f = (\<lambda>(n, i) w. with_logger i w (\<lambda>lg. Inr (put_logger i (f n lg) w)))"

definition for_loggers ::
  "(string \<Rightarrow> 'h logger \<Rightarrow> 'h logger) \<Rightarrow> ('f, 'k, 'h) reg_world \<Rightarrow> ('f, 'k, 'h) reg_world res" where
  "for_loggers f w = fold_res (change_logger f) (loggers (reg w)) w"

definition call_logger ::
  "('h logger \<Rightarrow> ('k, 'h) log_world \<Rightarrow> ('k, 'h) log_world res) \<Rightarrow> string \<times> nat \<Rightarrow>
     ('f, 'k, 'h) reg_world \<Rightarrow> ('f, 'k, 'h) reg_world res" where
  "call_logger f = (\<lambda>(n, i) w. with_logger i w (\<lambda>lg. andthen (f lg (lworld w)) (\<lambda>lw. Inr (w\<lparr>lworld := lw\<rparr>))))"

definition reg_set_formatter ::
  "('f, 'k) formatter_ops \<Rightarrow> 'f \<Rightarrow> ('f, 'k, 'h) reg_world \<Rightarrow> ('f, 'k, 'h) reg_world res" where
  "reg_set_formatter fo f w =
     fold_res (call_logger (logger_set_formatter fo (fm_clone fo f))) (loggers (reg w))
       (upd_reg (\<lambda>r. r\<lparr>reg_formatter := f\<rparr>) w)"

definition reg_enable_backtrace :: "nat \<Rightarrow> ('f, 'k, 'h) reg_world \<Rightarrow> ('f, 'k, 'h) reg_world res" where
  "reg_enable_backtrace n w =
     for_loggers (\<lambda>_. logger_enable_backtrace n) (upd_reg (\<lambda>r. r\<lparr>backtrace_n_messages := n\<rparr>) w)"

definition reg_disable_backtrace :: "('f, 'k, 'h) reg_world \<Rightarrow> ('f, 'k, 'h) reg_world res" where
  "reg_disable_backtrace w =
     for_loggers (\<lambda>_. logger_disable_backtrace) (upd_reg (\<lambda>r. r\<lparr>backtrace_n_messages := 0\<rparr>) w)"

definition reg_set_level :: "level_enum \<Rightarrow> ('f, 'k, 'h) reg_world \<Rightarrow> ('f, 'k, 'h) reg_world res" where
  "reg_set_level l w =
     andthen (for_loggers (\<lambda>_. logger_set_level l) w) (\<lambda>w. Inr (upd_reg (\<lambda>r. r\<lparr>global_log_level := l\<rparr>) w))"

definition reg_flush_on :: "level_enum \<Rightarrow> ('f, 'k, 'h) reg_world \<Rightarrow> ('f, 'k, 'h) reg_world res" where
  "reg_flush_on l w =
     andthen (for_loggers (\<lambda>_. logger_flush_on l) w) (\<lambda>w. Inr (upd_reg (\<lambda>r. r\<lparr>reg_flush_level := l\<rparr>) w))"

definition reg_set_error_handler :: "'h option \<Rightarrow> ('f, 'k, 'h) reg_world \<Rightarrow> ('f, 'k, 'h) reg_world res" where
  "reg_set_error_handler h w =
     andthen (for_loggers (\<lambda>_. logger_set_error_handler h) w)
       (\<lambda>w. Inr (upd_reg (\<lambda>r. r\<lparr>reg_err_handler := h\<rparr>) w))"

definition flush_every :: "int \<Rightarrow> ('f, 'k, 'h) reg_world \<Rightarrow> ('f, 'k, 'h) reg_world" where
  "flush_every t w = upd_reg (\<lambda>r. r\<lparr>periodic_flusher := Some t\<rparr>) w"

definition apply_all ::
  "(nat \<Rightarrow> ('f, 'k, 'h) reg_world \<Rightarrow> ('f, 'k, 'h) reg_world res) \<Rightarrow> ('f, 'k, 'h) reg_world \<Rightarrow> ('f, 'k, 'h) reg_world res" where
  "apply_all f w = fold_res (\<lambda>(n, i). f i) (loggers (reg w)) w"

definition flush_all :: "'k log_env \<Rightarrow> ('f, 'k, 'h) reg_world \<Rightarrow> ('f, 'k, 'h) reg_world res" where
  "flush_all E w = fold_res (call_logger (logger_flush E)) (loggers (reg w)) w"

definition reg_drop :: "string \<Rightarrow> ('f, 'k, 'h) reg_world \<Rightarrow> ('f, 'k, 'h) reg_world res" where
  "reg_drop name w =
     (let w = upd_reg (\<lambda>r. r\<lparr>loggers := AList.delete name (loggers r)\<rparr>) w
      in case default_logger (reg w) of
           None \<Rightarrow> Inr w
         | Some d \<Rightarrow> with_logger d w (\<lambda>lg.
             Inr (if lg_name lg = name then upd_reg (\<lambda>r. r\<lparr>default_logger := None\<rparr>) w else w)))"

definition drop_all :: "('f, 'k, 'h) reg_world \<Rightarrow> ('f, 'k, 'h) reg_world" where
  "drop_all w = upd_reg (\<lambda>r. r\<lparr>loggers := [], default_logger := None\<rparr>) w"

definition reg_shutdown :: "('f, 'k, 'h) reg_world \<Rightarrow> ('f, 'k, 'h) reg_world" where
  "reg_shutdown w =
     upd_reg (\<lambda>r. r\<lparr>reg_tp := None\<rparr>) (drop_all (upd_reg (\<lambda>r. r\<lparr>periodic_flusher := None\<rparr>) w))"

definition set_automatic_registration :: "bool \<Rightarrow> ('f, 'k, 'h) reg_world \<Rightarrow> ('f, 'k, 'h) reg_world" where
  "set_automatic_registration b w = upd_reg (\<lambda>r. r\<lparr>automatic_registration := b\<rparr>) w"

definition level_from_cfg ::
  "(string \<times> level_enum) list \<Rightarrow> level_enum option \<Rightarrow> string \<Rightarrow> 'h logger \<Rightarrow> 'h logger" where
  "level_from_cfg levels global_level n lg =
     (case map_of levels n of
        Some l \<Rightarrow> logger_set_level l lg
      | None \<Rightarrow> (case global_level of Some l \<Rightarrow> logger_set_level l lg | None \<Rightarrow> lg))"

definition set_levels ::
  "(string \<times> level_enum) list \<Rightarrow> level_enum option \<Rightarrow> ('f, 'k, 'h) reg_world \<Rightarrow> ('f, 'k, 'h) reg_world res" where
  "set_levels levels global_level w =
     for_loggers (level_from_cfg levels global_level)
       (upd_reg (\<lambda>r. r\<lparr>log_levels := levels,
          global_log_level := (case global_level of Some l \<Rightarrow> l | None \<Rightarrow> global_log_level r)\<rparr>) w)"

section \<open>The default logger and the factory\<close>

text \<open>
  The functions of \<open>spdlog.h\<close> call the default logger through a raw pointer. \<open>spdlog_log\<close> stands for \<open>log\<close>, \<open>trace\<close>,
  \<open>debug\<close>, \<open>info\<close>, \<open>warn\<close>, \<open>error\<close> and \<open>critical\<close>, which pass a level.
\<close>

definition spdlog_log ::
  "'k log_env \<Rightarrow> source_loc \<Rightarrow> level_enum \<Rightarrow> string + string \<Rightarrow> ('f, 'k, 'h) reg_world \<Rightarrow> ('f, 'k, 'h) reg_world res" where
  "spdlog_log E loc lvl formatted w =
     (case default_logger (reg w) of
        None \<Rightarrow> Inl Null_deref
      | Some d \<Rightarrow> with_logger d w (\<lambda>lg.
          andthen (logger_log_fmt E loc lvl formatted (lg, lworld w)) (\<lambda>(lg, lw).
            Inr (put_logger d lg (w\<lparr>lworld := lw\<rparr>)))))"

definition spdlog_should_log :: "level_enum \<Rightarrow> ('f, 'k, 'h) reg_world \<Rightarrow> bool res" where
  "spdlog_should_log l w =
     (case default_logger (reg w) of
        None \<Rightarrow> Inl Null_deref
      | Some d \<Rightarrow> with_logger d w (\<lambda>lg. Inr (logger_should_log l lg)))"

text \<open>\<open>synchronous_factory::create\<close>: sink \<open>s\<close> and logger \<open>i\<close> are the new objects.\<close>

definition create_logger ::
  "('f, 'k) formatter_ops \<Rightarrow> string \<Rightarrow> 'k sink \<Rightarrow> nat \<Rightarrow> nat \<Rightarrow> ('f, 'k, 'h) reg_world \<Rightarrow>
     (string option \<times> ('f, 'k, 'h) reg_world) res" where
  "create_logger fo name k s i w =
     initialize_logger fo i (put_logger i (logger_new name [s]) (w\<lparr>lworld := put_sink s k (lworld w)\<rparr>))"

section \<open>Invariant of the registry\<close>

text \<open>What never changes of a logger: its name and its sinks.\<close>

definition logger_id :: "('f, 'k, 'h) reg_world \<Rightarrow> nat \<Rightarrow> (string \<times> nat list) option" where
  "logger_id w i = map_option (\<lambda>lg. (lg_name lg, lg_sinks lg)) (logger_heap w i)"

definition reg_inv :: "('f, 'k, 'h) reg_world \<Rightarrow> bool" where
  "reg_inv w \<longleftrightarrow> distinct (map fst (loggers (reg w))) \<and>
     (\<forall>(n, i)\<in>set (loggers (reg w)). \<exists>ss. logger_id w i = Some (n, ss)) \<and>
     (\<forall>d. default_logger (reg w) = Some d \<longrightarrow>
        (\<exists>n ss. logger_id w d = Some (n, ss) \<and> map_of (loggers (reg w)) n = Some d)) \<and>
     (\<forall>i n ss. logger_id w i = Some (n, ss) \<longrightarrow> set ss \<subseteq> dom (sink_heap (lworld w)))"

lemma reg_inv_cong:
  assumes "loggers (reg w') = loggers (reg w)" and "default_logger (reg w') = default_logger (reg w)"
    and "logger_id w' = logger_id w" and "dom (sink_heap (lworld w')) = dom (sink_heap (lworld w))"
  shows "reg_inv w' \<longleftrightarrow> reg_inv w"
  using assms by (simp add: reg_inv_def)

lemma reg_inv_id: "reg_inv w \<Longrightarrow> (n, i) \<in> set (loggers (reg w)) \<Longrightarrow> \<exists>ss. logger_id w i = Some (n, ss)"
  unfolding reg_inv_def by blast

lemma reg_inv_distinct_ids:
  assumes "reg_inv w"
  shows "distinct (map snd (loggers (reg w)))"
proof -
  have "inj_on snd (set (loggers (reg w)))"
  proof (rule inj_onI)
    fix x y
    assume "x \<in> set (loggers (reg w))" and "y \<in> set (loggers (reg w))" and "snd x = snd y"
    with reg_inv_id [OF assms, of "fst x" "snd x"] reg_inv_id [OF assms, of "fst y" "snd y"]
    have "fst x = fst y" by (metis option.inject prod.collapse prod.inject)
    with \<open>snd x = snd y\<close> show "x = y" by (simp add: prod_eq_iff)
  qed
  moreover have "distinct (loggers (reg w))" using assms by (simp add: reg_inv_def distinct_map)
  ultimately show ?thesis by (simp add: distinct_map)
qed

lemma reg_inv_registered:
  assumes "reg_inv w" and "(n, i) \<in> set (loggers (reg w))"
  obtains lg where "logger_heap w i = Some lg" and "lg_name lg = n" and "set (lg_sinks lg) \<subseteq> dom (sink_heap (lworld w))"
proof -
  from reg_inv_id [OF assms] obtain ss where "logger_id w i = Some (n, ss)" by blast
  moreover from this assms(1) have "set ss \<subseteq> dom (sink_heap (lworld w))" unfolding reg_inv_def by blast
  ultimately show thesis using that by (auto simp: logger_id_def)
qed

text \<open>Settings that the registry applies to all its loggers.\<close>

locale logger_config =
  fixes f :: "string \<Rightarrow> 'h logger \<Rightarrow> 'h logger"
  assumes keeps_name: "lg_name (f n lg) = lg_name lg"
    and keeps_sinks: "lg_sinks (f n lg) = lg_sinks lg"
begin

lemma change_all:
  assumes "distinct (map snd es)" and "\<forall>(n, i)\<in>set es. logger_heap w i \<noteq> None"
  shows "\<exists>w'. fold_res (change_logger f) es w = Inr w' \<and> reg w' = reg w \<and> lworld w' = lworld w \<and>
     logger_id w' = logger_id w \<and> (\<forall>i. i \<notin> snd ` set es \<longrightarrow> logger_heap w' i = logger_heap w i) \<and>
     (\<forall>(n, i)\<in>set es. logger_heap w' i = map_option (f n) (logger_heap w i))"
  using assms
proof (induction es arbitrary: w)
  case (Cons e es)
  obtain n i where e: "e = (n, i)" by (cases e)
  with Cons.prems obtain lg where lg: "logger_heap w i = Some lg" by auto
  let ?w = "put_logger i (f n lg) w"
  from Cons.prems(1) e have i: "i \<notin> snd ` set es" and "distinct (map snd es)" by auto
  moreover have "\<forall>(n, i)\<in>set es. logger_heap ?w i \<noteq> None" using Cons.prems(2) by (auto simp: put_logger_def)
  ultimately obtain w' where w': "fold_res (change_logger f) es ?w = Inr w'" "reg w' = reg ?w" "lworld w' = lworld ?w"
    "logger_id w' = logger_id ?w" "\<forall>j. j \<notin> snd ` set es \<longrightarrow> logger_heap w' j = logger_heap ?w j"
    "\<forall>(m, j)\<in>set es. logger_heap w' j = map_option (f m) (logger_heap ?w j)"
    using Cons.IH [of ?w] by blast
  show ?case
  proof (intro exI [of _ w'] conjI allI impI)
    show "fold_res (change_logger f) (e # es) w = Inr w'"
      using w'(1) lg e by (simp add: change_logger_def with_logger_def)
    show "reg w' = reg w" "lworld w' = lworld w" using w'(2,3) by (simp_all add: put_logger_def)
    have "logger_id ?w = logger_id w"
      using lg by (auto simp: fun_eq_iff logger_id_def put_logger_def keeps_name keeps_sinks)
    with w'(4) show "logger_id w' = logger_id w" by simp
    show "logger_heap w' j = logger_heap w j" if "j \<notin> snd ` set (e # es)" for j
      using w'(5) that e by (simp add: put_logger_def)
    have "logger_heap w' i = map_option (f n) (logger_heap w i)" using w'(5) i lg by (simp add: put_logger_def)
    moreover have "logger_heap w' j = map_option (f m) (logger_heap w j)" if "(m, j) \<in> set es" for m j
    proof -
      from that i have "j \<noteq> i" by force
      with bspec [OF w'(6) that] show ?thesis by (simp add: put_logger_def)
    qed
    ultimately show "\<forall>(n, i)\<in>set (e # es). logger_heap w' i = map_option (f n) (logger_heap w i)" using e by auto
  qed
qed simp

lemma for_loggers_eq:
  assumes "reg_inv w"
  shows "\<exists>w'. for_loggers f w = Inr w' \<and> reg w' = reg w \<and> lworld w' = lworld w \<and> reg_inv w' \<and>
     logger_id w' = logger_id w \<and>
     (\<forall>i. i \<notin> snd ` set (loggers (reg w)) \<longrightarrow> logger_heap w' i = logger_heap w i) \<and>
     (\<forall>(n, i)\<in>set (loggers (reg w)). logger_heap w' i = map_option (f n) (logger_heap w i))"
proof -
  have "\<forall>(n, i)\<in>set (loggers (reg w)). logger_heap w i \<noteq> None"
    using reg_inv_id [OF assms] by (auto simp: logger_id_def)
  from change_all [OF reg_inv_distinct_ids [OF assms] this] obtain w' where
    w': "for_loggers f w = Inr w'" "reg w' = reg w" "lworld w' = lworld w" "logger_id w' = logger_id w"
    "\<forall>i. i \<notin> snd ` set (loggers (reg w)) \<longrightarrow> logger_heap w' i = logger_heap w i"
    "\<forall>(n, i)\<in>set (loggers (reg w)). logger_heap w' i = map_option (f n) (logger_heap w i)"
    unfolding for_loggers_def by blast
  moreover have "reg_inv w'" using assms reg_inv_cong [of w' w] w' by simp
  ultimately show ?thesis by blast
qed

lemma for_loggers_inv: "reg_inv w \<Longrightarrow> \<exists>w'. for_loggers f w = Inr w' \<and> reg_inv w'"
  using for_loggers_eq by blast

end

lemmas logger_settings = logger_set_level_def logger_flush_on_def logger_set_error_handler_def
  logger_enable_backtrace_def logger_disable_backtrace_def

interpretation all_set_level: logger_config "\<lambda>_. logger_set_level l" for l
  by unfold_locales (simp_all add: logger_settings)

interpretation all_flush_on: logger_config "\<lambda>_. logger_flush_on l" for l
  by unfold_locales (simp_all add: logger_settings)

interpretation all_error_handler: logger_config "\<lambda>_. logger_set_error_handler h" for h
  by unfold_locales (simp_all add: logger_settings)

interpretation all_enable_backtrace: logger_config "\<lambda>_. logger_enable_backtrace n" for n
  by unfold_locales (simp_all add: logger_settings)

interpretation all_disable_backtrace: logger_config "\<lambda>_. logger_disable_backtrace"
  by unfold_locales (simp_all add: logger_settings)

interpretation all_cfg_levels: logger_config "level_from_cfg levels g" for levels g
  by unfold_locales (simp_all add: level_from_cfg_def logger_settings split: option.split)

text \<open>Calls of all loggers that work on their sinks.\<close>

locale logger_call =
  fixes f :: "'h logger \<Rightarrow> ('k, 'h) log_world \<Rightarrow> ('k, 'h) log_world res"
  assumes keeps_heap: "set (lg_sinks lg) \<subseteq> dom (sink_heap lw) \<Longrightarrow>
     \<exists>lw'. f lg lw = Inr lw' \<and> dom (sink_heap lw') = dom (sink_heap lw)"
begin

lemma call_all:
  assumes "reg_inv w" and "set es \<subseteq> set (loggers (reg w))"
  shows "\<exists>w'. fold_res (call_logger f) es w = Inr w' \<and> reg w' = reg w \<and> logger_heap w' = logger_heap w \<and>
     dom (sink_heap (lworld w')) = dom (sink_heap (lworld w)) \<and> reg_inv w'"
  using assms
proof (induction es arbitrary: w)
  case (Cons e es)
  obtain n i where e: "e = (n, i)" by (cases e)
  with Cons.prems(2) have "(n, i) \<in> set (loggers (reg w))" by simp
  then obtain lg where lg: "logger_heap w i = Some lg" "set (lg_sinks lg) \<subseteq> dom (sink_heap (lworld w))"
    by (rule reg_inv_registered [OF Cons.prems(1)])
  from keeps_heap [OF lg(2)] obtain lw where lw: "f lg (lworld w) = Inr lw" "dom (sink_heap lw) = dom (sink_heap (lworld w))"
    by blast
  have "reg_inv (w\<lparr>lworld := lw\<rparr>)"
    using Cons.prems(1) reg_inv_cong [of "w\<lparr>lworld := lw\<rparr>" w] lw(2) by (simp add: logger_id_def [abs_def])
  with Cons.IH [of "w\<lparr>lworld := lw\<rparr>"] Cons.prems(2) lg(1) lw e show ?case
    by (auto simp: call_logger_def with_logger_def)
qed simp

end

lemma set_formatters_heap:
  "set ss \<subseteq> dom (sink_heap lw) \<Longrightarrow>
     \<exists>lw'. set_formatters fo f ss lw = Inr lw' \<and> dom (sink_heap lw') = dom (sink_heap lw)"
proof (induction fo f ss lw rule: set_formatters.induct)
  case (2 fo f i w)
  then show ?case by (auto simp: sink_set_formatter_def split: option.split)
next
  case (3 fo f i j "is" w)
  then obtain k where "sink_heap w i = Some k" by auto
  then obtain w1 where w1: "sink_set_formatter fo (fm_clone fo f) i w = Inr w1" "dom (sink_heap w1) = dom (sink_heap w)"
    by (auto simp: sink_set_formatter_def)
  with "3.IH" [of w1] "3.prems" show ?case by simp
qed simp

lemma logger_flush_heap:
  "set (lg_sinks lg) \<subseteq> dom (sink_heap lw) \<Longrightarrow>
     \<exists>lw'. logger_flush E lg lw = Inr lw' \<and> dom (sink_heap lw') = dom (sink_heap lw)"
proof -
  have "set ss \<subseteq> dom (sink_heap lw) \<Longrightarrow>
      \<exists>lw'. fold_res (sink_flush_one E lg) ss lw = Inr lw' \<and> dom (sink_heap lw') = dom (sink_heap lw)" for ss
  proof (induction ss arbitrary: lw)
    case (Cons s ss)
    then obtain k where k: "sink_heap lw s = Some k" by auto
    then obtain lw1 where "sink_flush_one E lg s lw = Inr lw1" "dom (sink_heap lw1) = dom (sink_heap lw)"
      by (cases "sk_flush (ops E) (sink_body k)") (auto simp: sink_flush_one_def)
    with Cons.IH [of lw1] Cons.prems show ?case by simp
  qed simp
  then show "set (lg_sinks lg) \<subseteq> dom (sink_heap lw) \<Longrightarrow> ?thesis" by (simp add: logger_flush_def)
qed

interpretation all_set_formatter: logger_call "logger_set_formatter fo f" for fo f
  by unfold_locales (simp add: logger_set_formatter_def set_formatters_heap)

interpretation all_flush: logger_call "logger_flush E" for E
  by unfold_locales (rule logger_flush_heap)

lemma reg_inv_map:
  "reg_inv w \<longleftrightarrow> distinct (map fst (loggers (reg w))) \<and>
     (\<forall>n i. map_of (loggers (reg w)) n = Some i \<longrightarrow> (\<exists>ss. logger_id w i = Some (n, ss))) \<and>
     (\<forall>d. default_logger (reg w) = Some d \<longrightarrow>
        (\<exists>n ss. logger_id w d = Some (n, ss) \<and> map_of (loggers (reg w)) n = Some d)) \<and>
     (\<forall>i n ss. logger_id w i = Some (n, ss) \<longrightarrow> set ss \<subseteq> dom (sink_heap (lworld w)))"
  unfolding reg_inv_def by (rule conj_cong [OF refl], rule conj_cong) (auto simp: map_of_eq_Some_iff)

lemma logger_id_reg [simp]: "logger_id (w\<lparr>reg := r\<rparr>) = logger_id w"
  by (simp add: fun_eq_iff logger_id_def)

lemma logger_id_put:
  "logger_heap w i = Some lg \<Longrightarrow> lg_name lg' = lg_name lg \<Longrightarrow> lg_sinks lg' = lg_sinks lg \<Longrightarrow>
     logger_id (put_logger i lg' w) = logger_id w"
  by (auto simp: fun_eq_iff logger_id_def put_logger_def)

lemma logger_id_Some: "logger_id w i = Some (n, ss) \<longleftrightarrow> (\<exists>lg. logger_heap w i = Some lg \<and> lg_name lg = n \<and> lg_sinks lg = ss)"
  by (auto simp: logger_id_def)

lemma reg_inv_sinks: "reg_inv w \<Longrightarrow> logger_heap w i = Some lg \<Longrightarrow> set (lg_sinks lg) \<subseteq> dom (sink_heap (lworld w))"
  unfolding reg_inv_def logger_id_Some by blast

lemma reg_invI:
  assumes "reg_inv w" and "logger_id w' = logger_id w" and "lworld w' = lworld w" and "distinct (map fst (loggers (reg w')))"
    and "\<And>n i. map_of (loggers (reg w')) n = Some i \<Longrightarrow> \<exists>ss. logger_id w i = Some (n, ss)"
    and "\<And>d. default_logger (reg w') = Some d \<Longrightarrow> \<exists>n ss. logger_id w d = Some (n, ss) \<and> map_of (loggers (reg w')) n = Some d"
  shows "reg_inv w'"
  using assms(1) assms(4-6) unfolding reg_inv_map assms(2,3) by simp

lemma reg_inv_default:
  "reg_inv w \<Longrightarrow> default_logger (reg w) = Some d \<Longrightarrow>
     \<exists>lg. logger_heap w d = Some lg \<and> map_of (loggers (reg w)) (lg_name lg) = Some d"
  unfolding reg_inv_def logger_id_Some by blast

lemma reg_inv_find:
  "reg_inv w \<Longrightarrow> map_of (loggers (reg w)) n = Some i \<Longrightarrow> \<exists>lg. logger_heap w i = Some lg \<and> lg_name lg = n"
  unfolding reg_inv_map logger_id_Some by blast

lemma register_logger_ok:
  assumes "reg_inv w" and "logger_heap w i = Some lg"
  shows "\<exists>w'. register_logger i w = Inr (throw_if_exists (lg_name lg) (reg w), w') \<and> reg_inv w' \<and>
     logger_heap w' = logger_heap w \<and> lworld w' = lworld w \<and>
     (throw_if_exists (lg_name lg) (reg w) \<noteq> None \<longrightarrow> w' = w) \<and>
     (throw_if_exists (lg_name lg) (reg w) = None \<longrightarrow> reg_get (lg_name lg) w' = Some i)"
proof (cases "map_of (loggers (reg w)) (lg_name lg)")
  case None
  let ?w = "upd_reg (\<lambda>r. r\<lparr>loggers := AList.update (lg_name lg) i (loggers r)\<rparr>) w"
  have "reg_inv ?w"
  proof (rule reg_invI [OF assms(1)])
    show "distinct (map fst (loggers (reg ?w)))" using assms(1) by (simp add: reg_inv_def distinct_update)
    show "\<exists>ss. logger_id w j = Some (n, ss)" if "map_of (loggers (reg ?w)) n = Some j" for n j
      using that assms(2) reg_inv_find [OF assms(1), of n j] by (auto simp: update_conv' logger_id_Some split: if_splits)
    show "\<exists>n ss. logger_id w d = Some (n, ss) \<and> map_of (loggers (reg ?w)) n = Some d"
      if "default_logger (reg ?w) = Some d" for d
      using that reg_inv_default [OF assms(1), of d] None by (auto simp: update_conv' logger_id_Some)
  qed simp_all
  with None assms show ?thesis
    by (simp add: register_logger_def with_logger_def throw_if_exists_def reg_get_def update_conv')
next
  case (Some j)
  with assms show ?thesis by (simp add: register_logger_def with_logger_def throw_if_exists_def)
qed

lemma set_default_logger_ok:
  assumes "reg_inv w" and "\<And>i. new = Some i \<Longrightarrow> logger_heap w i \<noteq> None"
  shows "\<exists>w'. set_default_logger new w = Inr w' \<and> reg_inv w' \<and> logger_heap w' = logger_heap w \<and> default_logger (reg w') = new"
proof -
  have "\<exists>w1. (case default_logger (reg w) of None \<Rightarrow> Inr w
       | Some d \<Rightarrow> with_logger d w (\<lambda>lg. Inr (upd_reg (\<lambda>r. r\<lparr>loggers := AList.delete (lg_name lg) (loggers r)\<rparr>) w))) = Inr w1 \<and>
     logger_heap w1 = logger_heap w \<and> lworld w1 = lworld w \<and> distinct (map fst (loggers (reg w1))) \<and>
     (\<forall>n i. map_of (loggers (reg w1)) n = Some i \<longrightarrow> map_of (loggers (reg w)) n = Some i)"
    using assms(1) reg_inv_default [OF assms(1)]
    by (auto simp: with_logger_def distinct_delete delete_conv' reg_inv_def split: option.split)
  then obtain w1 where w1: "(case default_logger (reg w) of None \<Rightarrow> Inr w
       | Some d \<Rightarrow> with_logger d w (\<lambda>lg. Inr (upd_reg (\<lambda>r. r\<lparr>loggers := AList.delete (lg_name lg) (loggers r)\<rparr>) w))) = Inr w1"
     "logger_heap w1 = logger_heap w" "lworld w1 = lworld w" "distinct (map fst (loggers (reg w1)))"
     "\<And>n i. map_of (loggers (reg w1)) n = Some i \<Longrightarrow> map_of (loggers (reg w)) n = Some i" by blast
  have id: "logger_id w1 = logger_id w" using w1(2) by (simp add: fun_eq_iff logger_id_def)
  show ?thesis
  proof (cases new)
    case None
    have "reg_inv (upd_reg (\<lambda>r. r\<lparr>default_logger := None\<rparr>) w1)"
      by (rule reg_invI [OF assms(1)]) (use w1 id reg_inv_find [OF assms(1)] in \<open>auto simp: logger_id_Some\<close>)
    with None w1 show ?thesis by (simp add: set_default_logger_def)
  next
    case (Some i)
    with assms(2) obtain lg where lg: "logger_heap w i = Some lg" by auto
    let ?w = "upd_reg (\<lambda>r. r\<lparr>loggers := AList.update (lg_name lg) i (loggers r), default_logger := Some i\<rparr>) w1"
    have "reg_inv ?w"
    proof (rule reg_invI [OF assms(1)])
      show "distinct (map fst (loggers (reg ?w)))" using w1(4) by (simp add: distinct_update)
      show "\<exists>ss. logger_id w j = Some (n, ss)" if "map_of (loggers (reg ?w)) n = Some j" for n j
        using that lg w1(5) reg_inv_find [OF assms(1), of n j]
        by (auto simp: update_conv' logger_id_Some split: if_splits)
      show "\<exists>n ss. logger_id w d = Some (n, ss) \<and> map_of (loggers (reg ?w)) n = Some d"
        if "default_logger (reg ?w) = Some d" for d
        using that lg by (auto simp: update_conv' logger_id_Some)
    qed (use w1 id in simp_all)
    with Some lg w1 show ?thesis by (simp add: set_default_logger_def with_logger_def)
  qed
qed

lemma reg_drop_ok:
  assumes "reg_inv w"
  shows "\<exists>w'. reg_drop n w = Inr w' \<and> reg_inv w' \<and> reg_get n w' = None \<and> logger_heap w' = logger_heap w"
proof -
  let ?w = "upd_reg (\<lambda>r. r\<lparr>loggers := AList.delete n (loggers r)\<rparr>) w"
  have d: "distinct (map fst (loggers (reg ?w)))" using assms by (simp add: reg_inv_def distinct_delete)
  have find: "\<exists>ss. logger_id w j = Some (m, ss)" if "map_of (loggers (reg ?w)) m = Some j" for m j
    using that reg_inv_find [OF assms, of m j] by (auto simp: delete_conv' logger_id_Some split: if_splits)
  show ?thesis
  proof (cases "\<exists>d lg. default_logger (reg w) = Some d \<and> logger_heap w d = Some lg \<and> lg_name lg = n")
    case True
    have "reg_inv (upd_reg (\<lambda>r. r\<lparr>default_logger := None\<rparr>) ?w)"
      by (rule reg_invI [OF assms]) (use d find in auto)
    with True show ?thesis by (auto simp: reg_drop_def Let_def with_logger_def reg_get_def delete_conv')
  next
    case False
    have "reg_inv ?w"
    proof (rule reg_invI [OF assms])
      show "\<exists>m ss. logger_id w d = Some (m, ss) \<and> map_of (loggers (reg ?w)) m = Some d"
        if "default_logger (reg ?w) = Some d" for d
        using that False reg_inv_default [OF assms, of d] by (auto simp: delete_conv' logger_id_Some)
    qed (use d find in auto)
    with False reg_inv_default [OF assms] show ?thesis
      by (auto simp: reg_drop_def Let_def with_logger_def reg_get_def delete_conv' split: option.split)
  qed
qed

lemma configure_frame [simp]: "lg_name (configure r lg) = lg_name lg" "lg_sinks (configure r lg) = lg_sinks lg"
  by (simp_all add: configure_def logger_settings Let_def split: option.split)

lemma initialize_logger_ok:
  assumes "reg_inv w" and "logger_heap w i = Some lg"
  shows "\<exists>ex w'. initialize_logger fo i w = Inr (ex, w') \<and> reg_inv w' \<and>
     logger_heap w' = (logger_heap w)(i \<mapsto> configure (reg w) lg) \<and>
     ex = (if automatic_registration (reg w) then throw_if_exists (lg_name lg) (reg w) else None) \<and>
     (automatic_registration (reg w) \<and> ex = None \<longrightarrow> reg_get (lg_name lg) w' = Some i) \<and>
     (\<not> automatic_registration (reg w) \<or> ex \<noteq> None \<longrightarrow> reg w' = reg w)"
proof -
  have "set (lg_sinks lg) \<subseteq> dom (sink_heap (lworld w))" by (rule reg_inv_sinks [OF assms])
  from all_set_formatter.keeps_heap [OF this, of fo "fm_clone fo (reg_formatter (reg w))"]
  obtain lw where lw: "logger_set_formatter fo (fm_clone fo (reg_formatter (reg w))) lg (lworld w) = Inr lw"
    "dom (sink_heap lw) = dom (sink_heap (lworld w))" by blast
  let ?w = "put_logger i (configure (reg w) lg) (w\<lparr>lworld := lw\<rparr>)"
  have "logger_id ?w = logger_id w"
    using logger_id_put [of "w\<lparr>lworld := lw\<rparr>" i lg "configure (reg w) lg"] assms(2) by (simp add: logger_id_def [abs_def])
  then have inv: "reg_inv ?w" using assms(1) reg_inv_cong [of ?w w] lw(2) by (simp add: put_logger_def)
  have "logger_heap ?w i = Some (configure (reg w) lg)" "reg ?w = reg w"
    "logger_heap ?w = (logger_heap w)(i \<mapsto> configure (reg w) lg)" by (simp_all add: put_logger_def)
  with register_logger_ok [OF inv this(1)] inv lw(1) assms(2) show ?thesis
    by (auto simp: initialize_logger_def with_logger_def Let_def)
qed

section \<open>Any sequence of calls\<close>

text \<open>The calls of the registry, and \<open>Make_logger\<close>: the user makes a logger.\<close>

datatype ('f, 'h) reg_op =
    Make_logger nat "'h logger"
  | Register nat
  | Initialize nat
  | Set_default "nat option"
  | Set_formatter 'f
  | Enable_backtrace nat
  | Disable_backtrace
  | Set_level level_enum
  | Flush_on level_enum
  | Set_error_handler "'h option"
  | Set_levels "(string \<times> level_enum) list" "level_enum option"
  | Flush_every int
  | Flush_all
  | Drop string
  | Drop_all
  | Shutdown
  | Automatic_registration bool

text \<open>The arguments must be loggers that exist; a new logger is a new object whose sinks exist.\<close>

fun op_ok :: "('f, 'h) reg_op \<Rightarrow> ('f, 'k, 'h) reg_world \<Rightarrow> bool" where
  "op_ok (Make_logger i lg) w \<longleftrightarrow> logger_heap w i = None \<and> (\<forall>s\<in>set (lg_sinks lg). sink_heap (lworld w) s \<noteq> None)"
| "op_ok (Register i) w \<longleftrightarrow> logger_heap w i \<noteq> None"
| "op_ok (Initialize i) w \<longleftrightarrow> logger_heap w i \<noteq> None"
| "op_ok (Set_default new) w \<longleftrightarrow> (case new of None \<Rightarrow> True | Some i \<Rightarrow> logger_heap w i \<noteq> None)"
| "op_ok _ w \<longleftrightarrow> True"

fun reg_step ::
  "'k log_env \<Rightarrow> ('f, 'k) formatter_ops \<Rightarrow> ('f, 'h) reg_op \<Rightarrow> ('f, 'k, 'h) reg_world \<Rightarrow> ('f, 'k, 'h) reg_world res" where
  "reg_step E fo (Make_logger i lg) w = Inr (put_logger i lg w)"
| "reg_step E fo (Register i) w = andthen (register_logger i w) (\<lambda>(ex, w). Inr w)"
| "reg_step E fo (Initialize i) w = andthen (initialize_logger fo i w) (\<lambda>(ex, w). Inr w)"
| "reg_step E fo (Set_default new) w = set_default_logger new w"
| "reg_step E fo (Set_formatter f) w = reg_set_formatter fo f w"
| "reg_step E fo (Enable_backtrace n) w = reg_enable_backtrace n w"
| "reg_step E fo Disable_backtrace w = reg_disable_backtrace w"
| "reg_step E fo (Set_level l) w = reg_set_level l w"
| "reg_step E fo (Flush_on l) w = reg_flush_on l w"
| "reg_step E fo (Set_error_handler h) w = reg_set_error_handler h w"
| "reg_step E fo (Set_levels levels g) w = set_levels levels g w"
| "reg_step E fo (Flush_every t) w = Inr (flush_every t w)"
| "reg_step E fo Flush_all w = flush_all E w"
| "reg_step E fo (Drop n) w = reg_drop n w"
| "reg_step E fo Drop_all w = Inr (drop_all w)"
| "reg_step E fo Shutdown w = Inr (reg_shutdown w)"
| "reg_step E fo (Automatic_registration b) w = Inr (set_automatic_registration b w)"

inductive reg_reach ::
  "'k log_env \<Rightarrow> ('f, 'k) formatter_ops \<Rightarrow> ('f, 'k, 'h) reg_world \<Rightarrow> ('f, 'k, 'h) reg_world \<Rightarrow> bool" for E fo w0 where
  Start: "reg_reach E fo w0 w0"
| Step: "reg_reach E fo w0 w \<Longrightarrow> op_ok c w \<Longrightarrow> reg_step E fo c w = Inr w' \<Longrightarrow> reg_reach E fo w0 w'"

lemma reg_inv_settings:
  assumes "reg_inv w" and "loggers r = loggers (reg w)" and "default_logger r = default_logger (reg w)"
  shows "reg_inv (w\<lparr>reg := r\<rparr>)"
  using assms reg_inv_cong [of "w\<lparr>reg := r\<rparr>" w] by simp

lemma make_logger_inv:
  assumes "reg_inv w" and "op_ok (Make_logger i lg) w"
  shows "reg_inv (put_logger i lg w)"
proof -
  have "logger_id (put_logger i lg w) = (logger_id w)(i \<mapsto> (lg_name lg, lg_sinks lg))" "logger_id w i = None"
    using assms(2) by (auto simp: logger_id_def put_logger_def fun_eq_iff)
  with assms show ?thesis
    unfolding reg_inv_map put_logger_def
    by (auto split: if_splits) (metis option.distinct(1) option.inject prod.inject)+
qed

lemma for_loggers_then:
  fixes w :: "('f, 'k, 'h) reg_world"
  assumes "reg_inv w"
    and "\<And>w :: ('f, 'k, 'h) reg_world. reg_inv w \<Longrightarrow> \<exists>w'. for_loggers f w = Inr w' \<and> reg_inv w'"
    and "\<And>r. loggers (g r) = loggers r \<and> default_logger (g r) = default_logger r"
  shows "\<exists>w'. andthen (for_loggers f w) (\<lambda>w. Inr (upd_reg g w)) = Inr w' \<and> reg_inv w'"
    and "\<exists>w'. for_loggers f (upd_reg g w) = Inr w' \<and> reg_inv w'"
proof -
  from assms(2) [OF assms(1)] obtain w' where "for_loggers f w = Inr w'" "reg_inv w'" by blast
  then show "\<exists>w'. andthen (for_loggers f w) (\<lambda>w. Inr (upd_reg g w)) = Inr w' \<and> reg_inv w'"
    using reg_inv_settings [of w' "g (reg w')"] assms(3) by simp
  show "\<exists>w'. for_loggers f (upd_reg g w) = Inr w' \<and> reg_inv w'"
    by (rule assms(2)) (use reg_inv_settings [OF assms(1)] assms(3) in simp)
qed

lemma reg_step_ok:
  assumes inv: "reg_inv w" and ok: "op_ok c w"
  shows "\<exists>w'. reg_step E fo c w = Inr w' \<and> reg_inv w'"
proof (cases c)
  case (Make_logger i lg)
  with assms make_logger_inv show ?thesis by auto
next
  case (Register i)
  with ok obtain lg where "logger_heap w i = Some lg" by auto
  from register_logger_ok [OF inv this] Register show ?thesis by auto
next
  case (Initialize i)
  with ok obtain lg where "logger_heap w i = Some lg" by auto
  from initialize_logger_ok [OF inv this, of fo] Initialize show ?thesis by auto
next
  case (Set_default new)
  with ok have "\<And>i. new = Some i \<Longrightarrow> logger_heap w i \<noteq> None" by simp
  from set_default_logger_ok [OF inv this] Set_default show ?thesis by auto
next
  case (Set_formatter f)
  let ?w = "upd_reg (\<lambda>r. r\<lparr>reg_formatter := f\<rparr>) w"
  have "reg_inv ?w" by (rule reg_inv_settings [OF inv]) simp_all
  from all_set_formatter.call_all [OF this order_refl, of fo "fm_clone fo f"] Set_formatter show ?thesis
    by (auto simp: reg_set_formatter_def)
next
  case (Enable_backtrace n)
  show ?thesis
    unfolding Enable_backtrace reg_step.simps reg_enable_backtrace_def
    by (rule for_loggers_then(2) [OF inv all_enable_backtrace.for_loggers_inv]) simp_all
next
  case Disable_backtrace
  show ?thesis
    unfolding Disable_backtrace reg_step.simps reg_disable_backtrace_def
    by (rule for_loggers_then(2) [OF inv all_disable_backtrace.for_loggers_inv]) simp_all
next
  case (Set_level l)
  show ?thesis
    unfolding Set_level reg_step.simps reg_set_level_def
    by (rule for_loggers_then(1) [OF inv all_set_level.for_loggers_inv]) simp_all
next
  case (Flush_on l)
  show ?thesis
    unfolding Flush_on reg_step.simps reg_flush_on_def
    by (rule for_loggers_then(1) [OF inv all_flush_on.for_loggers_inv]) simp_all
next
  case (Set_error_handler h)
  show ?thesis
    unfolding Set_error_handler reg_step.simps reg_set_error_handler_def
    by (rule for_loggers_then(1) [OF inv all_error_handler.for_loggers_inv]) simp_all
next
  case (Set_levels levels g)
  show ?thesis
    unfolding Set_levels reg_step.simps set_levels_def
    by (rule for_loggers_then(2) [OF inv all_cfg_levels.for_loggers_inv]) simp_all
next
  case (Flush_every t)
  then show ?thesis using reg_inv_settings [OF inv] by (simp add: flush_every_def)
next
  case Flush_all
  from all_flush.call_all [OF inv order_refl, of E] Flush_all show ?thesis by (auto simp: flush_all_def)
next
  case (Drop n)
  from reg_drop_ok [OF inv, of n] Drop show ?thesis by auto
next
  case Drop_all
  with inv show ?thesis by (simp add: reg_inv_map drop_all_def)
next
  case Shutdown
  with inv show ?thesis by (simp add: reg_inv_map drop_all_def reg_shutdown_def)
next
  case (Automatic_registration b)
  then show ?thesis using reg_inv_settings [OF inv] by (simp add: set_automatic_registration_def)
qed

lemma reg_inv_new: "sink_heap lw s \<noteq> None \<Longrightarrow> reg_inv (reg_world_new f i s lw)"
  by (auto simp: reg_inv_def reg_world_new_def registry_new_def logger_id_def logger_new_def split: if_splits)

lemma reg_reach_inv: "reg_reach E fo w0 w \<Longrightarrow> reg_inv w0 \<Longrightarrow> reg_inv w"
proof (induction rule: reg_reach.induct)
  case (Step w c w')
  with reg_step_ok [of w c E fo] show ?case by auto
qed

text \<open>
  After the default logger is dropped, the functions of \<open>spdlog.h\<close> dereference a null pointer.
\<close>

lemma drop_default_then_log:
  assumes "reg_inv w" and "default_logger (reg w) = Some d" and "logger_heap w d = Some lg"
  shows "\<exists>w'. reg_drop (lg_name lg) w = Inr w' \<and> spdlog_log E loc lvl t w' = Inl Null_deref"
  using assms by (simp add: reg_drop_def Let_def with_logger_def spdlog_log_def)

section \<open>Properties\<close>

text \<open>
  Property C34. The registry stays consistent. After any sequence of calls, names are unique, what is found under a name
  is a logger of that name, the default logger is registered under its own name, and
  every further call with loggers that exist returns without dereferencing a null pointer.
\<close>

theorem registry_consistent:
  assumes "sink_heap lw s \<noteq> None" and "reg_reach E fo (reg_world_new f d s lw) w"
  shows "distinct (map fst (loggers (reg w))) \<and>
     (\<forall>n i. reg_get n w = Some i \<longrightarrow> (\<exists>lg. logger_heap w i = Some lg \<and> lg_name lg = n)) \<and>
     (\<forall>i. default_logger (reg w) = Some i \<longrightarrow> (\<exists>lg. logger_heap w i = Some lg \<and> reg_get (lg_name lg) w = Some i)) \<and>
     (\<forall>c. op_ok c w \<longrightarrow> (\<exists>w'. reg_step E fo c w = Inr w'))"
proof -
  have inv: "reg_inv w" by (rule reg_reach_inv [OF assms(2) reg_inv_new [OF assms(1)]])
  have "distinct (map fst (loggers (reg w)))" using inv by (simp add: reg_inv_def)
  with reg_inv_find [OF inv] reg_inv_default [OF inv] reg_step_ok [OF inv, of _ E fo] show ?thesis
    unfolding reg_get_def by blast
qed

text \<open>A formatter that is a pattern text; the body of a sink is the pattern it prints with.\<close>

definition sample_formatter_ops :: "(string, string) formatter_ops" where
  "sample_formatter_ops = \<lparr>fm_clone = id, sk_set_formatter = \<lambda>f k. f\<rparr>"

definition sample_reg_env :: "string log_env" where
  "sample_reg_env = \<lparr>ops = \<lparr>sk_log = \<lambda>m k. (k, None), sk_flush = \<lambda>k. (k, None)\<rparr>, date_text = \<lambda>t. []\<rparr>"

definition sample_sinks :: "(string, nat) log_world" where
  "sample_sinks = \<lparr>sink_heap = [0 \<mapsto> \<lparr>sink_level = level_trace, sink_body = ''%+''\<rparr>], wall = 0, this_tid = 1,
     last_report_time = 0, err_counter = 0, reports = [], handled = []\<rparr>"

definition sample_reg :: "(string, string, nat) reg_world" where
  "sample_reg = reg_world_new ''%v'' 0 0 sample_sinks"

theorem registry_consistent_witness:
  "\<exists>w. reg_step sample_reg_env sample_formatter_ops (Set_default None) sample_reg = Inr w \<and>
     distinct (map fst (loggers (reg w))) \<and> (\<exists>w'. reg_step sample_reg_env sample_formatter_ops (Set_level level_err) w = Inr w')"
proof -
  have s: "sink_heap sample_sinks 0 \<noteq> None" by (simp add: sample_sinks_def)
  obtain w where w: "reg_step sample_reg_env sample_formatter_ops (Set_default None) sample_reg = Inr w"
    by (simp add: sample_reg_def reg_world_new_def registry_new_def set_default_logger_def with_logger_def)
  have "reg_reach sample_reg_env sample_formatter_ops sample_reg w"
    by (rule reg_reach.Step [OF reg_reach.Start _ w]) simp
  from registry_consistent [OF s this [unfolded sample_reg_def]]
  have "distinct (map fst (loggers (reg w)))" and
    "op_ok (Set_level level_err) w \<longrightarrow> (\<exists>w'. reg_step sample_reg_env sample_formatter_ops (Set_level level_err) w = Inr w')"
    by blast+
  then have "distinct (map fst (loggers (reg w)))"
    "\<exists>w'. reg_step sample_reg_env sample_formatter_ops (Set_level level_err) w = Inr w'"
    by (simp_all del: reg_step.simps)
  with w show ?thesis by blast
qed

text \<open>
  Initialising a logger. A new logger gets the level configured for its name, or the global one, the global
  flush level, error handler and backtrace size, and keeps its name and sinks; it is registered unless its name
  is taken, which is reported and changes nothing in the registry, or registration is switched off.
\<close>

theorem initialize_logger_spec:
  assumes "reg_inv w" and "logger_heap w i = Some lg"
  shows "\<exists>ex w' lg'. initialize_logger fo i w = Inr (ex, w') \<and> logger_heap w' = (logger_heap w)(i \<mapsto> lg') \<and>
     lg_level lg' = (case map_of (log_levels (reg w)) (lg_name lg) of Some l \<Rightarrow> l | None \<Rightarrow> global_log_level (reg w)) \<and>
     lg_flush_level lg' = reg_flush_level (reg w) \<and> lg_name lg' = lg_name lg \<and> lg_sinks lg' = lg_sinks lg \<and>
     custom_err_handler lg' = (case reg_err_handler (reg w) of Some h \<Rightarrow> Some h | None \<Rightarrow> custom_err_handler lg) \<and>
     tracer lg' = (if backtrace_n_messages (reg w) > 0 then bt_enable (backtrace_n_messages (reg w)) (tracer lg) else tracer lg) \<and>
     (ex \<noteq> None \<longleftrightarrow> automatic_registration (reg w) \<and> reg_get (lg_name lg) w \<noteq> None) \<and>
     (if automatic_registration (reg w) \<and> ex = None then reg_get (lg_name lg) w' = Some i else reg w' = reg w)"
proof -
  from initialize_logger_ok [OF assms, of fo] obtain ex w' where w': "initialize_logger fo i w = Inr (ex, w')"
    "logger_heap w' = (logger_heap w)(i \<mapsto> configure (reg w) lg)"
    "ex = (if automatic_registration (reg w) then throw_if_exists (lg_name lg) (reg w) else None)"
    "automatic_registration (reg w) \<and> ex = None \<longrightarrow> reg_get (lg_name lg) w' = Some i"
    "\<not> automatic_registration (reg w) \<or> ex \<noteq> None \<longrightarrow> reg w' = reg w" by blast
  have "ex \<noteq> None \<longleftrightarrow> automatic_registration (reg w) \<and> reg_get (lg_name lg) w \<noteq> None"
    unfolding w'(3) by (simp add: throw_if_exists_def reg_get_def)
  with w'(1,2,4,5) show ?thesis
    by (intro exI [of _ ex] exI [of _ w'] exI [of _ "configure (reg w) lg"])
      (auto simp: configure_def logger_settings Let_def split: option.split)
qed

theorem initialize_logger_spec_witness:
  "\<exists>w' lg'. initialize_logger sample_formatter_ops 1 (put_logger 1 (logger_new ''net'' [0]) sample_reg) = Inr (None, w') \<and>
     logger_heap w' 1 = Some lg' \<and> lg_level lg' = level_info \<and> reg_get ''net'' w' = Some 1"
proof -
  let ?w = "put_logger 1 (logger_new ''net'' [0]) sample_reg"
  have "reg_inv sample_reg" unfolding sample_reg_def by (rule reg_inv_new) (simp add: sample_sinks_def)
  then have inv: "reg_inv ?w"
    by (rule make_logger_inv) (simp add: sample_reg_def sample_sinks_def reg_world_new_def logger_new_def)
  have heap: "logger_heap ?w 1 = Some (logger_new ''net'' [0])" by (simp add: put_logger_def)
  from initialize_logger_spec [OF inv heap, of sample_formatter_ops] show ?thesis
    by (auto simp: put_logger_def sample_reg_def reg_world_new_def registry_new_def logger_new_def reg_get_def)
qed

end
