(* ===== verification/Async_Logger.thy ===== *)
theory Async_Logger
  imports Async_Log Log_Registry
begin

text \<open>
  The asynchronous logger (\<open>async_logger.h\<close>, \<open>async_logger-inl.h\<close>) and its factory (\<open>async.h\<close>): a logger whose \<open>sink_it_\<close> and
  \<open>flush_\<close> put the work into the queue of a thread pool, and whose worker does it with the sinks of the logger.
  The logger is the number \<open>i\<close> in the queue. The weak pointer to the pool is locked at each call: it finds the pool, as the \<open>Some\<close>
  of the state, or nothing. A thread that has to wait for room stays in \<open>asleep_push\<close> of the queue.
\<close>

type_synonym pool = "nat async_msg mpmc"

record 'h async_logger = "'h logger" +
  overflow_policy :: async_overflow_policy

definition async_logger_new :: "string \<Rightarrow> nat list \<Rightarrow> async_overflow_policy \<Rightarrow> 'h async_logger" where
  "async_logger_new name sinks policy = logger.extend (logger_new name sinks) \<lparr>overflow_policy = policy\<rparr>"

section \<open>The front end\<close>

definition async_sink_it ::
  "nat \<Rightarrow> async_overflow_policy \<Rightarrow> log_msg \<Rightarrow> pool option \<Rightarrow> (string option \<times> pool option) res" where
  "async_sink_it i policy m p =
     (case p of
        Some q \<Rightarrow> andthen (post_log i m policy q) (\<lambda>q. Inr (None, Some q))
      | None \<Rightarrow> Inr (Some (''async log: thread pool doesn'' @ [CHR 0x27] @ ''t exist anymore''), None))"

definition async_flush_it :: "nat \<Rightarrow> async_overflow_policy \<Rightarrow> pool option \<Rightarrow> (string option \<times> pool option) res" where
  "async_flush_it i policy p =
     (case p of
        Some q \<Rightarrow> andthen (post_flush i policy q) (\<lambda>q. Inr (None, Some q))
      | None \<Rightarrow> Inr (Some (''async flush: thread pool doesn'' @ [CHR 0x27] @ ''t exist anymore''), None))"

text \<open>\<open>log_it_\<close> of the base class with these; an exception leaves it before the backtrace is kept.\<close>

definition async_log_it ::
  "nat \<Rightarrow> log_msg \<Rightarrow> bool \<Rightarrow> bool \<Rightarrow> 'h async_logger \<times> pool option \<Rightarrow> (string option \<times> 'h async_logger \<times> pool option) res" where
  "async_log_it i m log_enabled traceback_enabled = (\<lambda>(lg, p).
     andthen (if log_enabled then async_sink_it i (overflow_policy lg) m p else Inr (None, p)) (\<lambda>(ex, p).
       case ex of
         Some e \<Rightarrow> Inr (Some e, lg, p)
       | None \<Rightarrow>
           if traceback_enabled
           then andthen (bt_push_back m (tracer lg)) (\<lambda>t. Inr (None, lg\<lparr>tracer := t\<rparr>, p)) else Inr (None, lg, p)))"

text \<open>\<open>log\<close> with a text: it does not catch exceptions. \<open>tid\<close> is the calling thread.\<close>

definition async_log_at ::
  "nat \<Rightarrow> nat \<Rightarrow> int \<times> source_loc \<times> level_enum \<times> string \<Rightarrow> 'h async_logger \<times> pool option \<Rightarrow>
     (string option \<times> 'h async_logger \<times> pool option) res" where
  "async_log_at i tid = (\<lambda>(log_time, loc, lvl, msg) (lg, p).
     (let log_enabled = lvl \<ge> lg_level lg; traceback_enabled = bt_enabled (tracer lg)
      in if \<not> log_enabled \<and> \<not> traceback_enabled then Inr (None, lg, p)
         else async_log_it i (log_msg_new log_time tid loc (lg_name lg) lvl msg) log_enabled traceback_enabled (lg, p)))"

text \<open>\<open>log_\<close> with a format string and arguments: exceptions go to the error handler.\<close>

definition async_log_fmt ::
  "'k log_env \<Rightarrow> nat \<Rightarrow> source_loc \<Rightarrow> level_enum \<Rightarrow> string + string \<Rightarrow> 'h async_logger \<times> pool option \<times> ('k, 'h) log_world \<Rightarrow>
     ('h async_logger \<times> pool option \<times> ('k, 'h) log_world) res" where
  "async_log_fmt E i loc lvl formatted = (\<lambda>(lg, p, w).
     (let log_enabled = lvl \<ge> lg_level lg; traceback_enabled = bt_enabled (tracer lg)
      in if \<not> log_enabled \<and> \<not> traceback_enabled then Inr (lg, p, w)
         else (case formatted of
                 Inl what \<Rightarrow> Inr (lg, p, on_exception (date_text E) (logger.truncate lg) loc (Some what) w)
               | Inr buf \<Rightarrow>
                   andthen (async_log_it i (log_msg_new (wall w) (this_tid w) loc (lg_name lg) lvl buf)
                              log_enabled traceback_enabled (lg, p)) (\<lambda>(ex, lg, p).
                     Inr (lg, p, on_exception (date_text E) (logger.truncate lg) loc ex w)))))"

section \<open>The back end\<close>

definition backend_flush :: "'k log_env \<Rightarrow> 'h logger \<Rightarrow> ('k, 'h) log_world \<Rightarrow> ('k, 'h) log_world res" where
  "backend_flush E lg w = fold_res (sink_flush_one E lg) (lg_sinks lg) w"

definition backend_sink_it :: "'k log_env \<Rightarrow> 'h logger \<Rightarrow> log_msg \<Rightarrow> ('k, 'h) log_world \<Rightarrow> ('k, 'h) log_world res" where
  "backend_sink_it E lg m w =
     andthen (fold_res (sink_log_one E lg m) (lg_sinks lg) w)
       (\<lambda>w. if should_flush m lg then backend_flush E lg w else Inr w)"

definition async_clone :: "string \<Rightarrow> 'h async_logger \<Rightarrow> 'h async_logger" where
  "async_clone new_name lg = lg\<lparr>lg_name := new_name, tracer := backtracer_copy (tracer lg)\<rparr>"

section \<open>The factory\<close>

text \<open>The thread pools by number, and the pool and policy of each asynchronous logger. The registry is the only owner of a pool.\<close>

record ('f, 'k, 'h) async_registry =
  ar_reg :: "('f, 'k, 'h) reg_world"
  ar_pools :: "nat \<Rightarrow> pool option"
  ar_async :: "nat \<Rightarrow> (nat \<times> async_overflow_policy) option"

definition default_async_q_size :: nat where
  "default_async_q_size = 8192"

text \<open>\<open>create\<close>: sink \<open>s\<close>, logger \<open>i\<close> and, when there is no pool yet, pool \<open>p\<close> are the new objects.\<close>

definition async_create ::
  "('f, 'k) formatter_ops \<Rightarrow> async_overflow_policy \<Rightarrow> string \<Rightarrow> 'k sink \<Rightarrow> nat \<Rightarrow> nat \<Rightarrow> nat \<Rightarrow> ('f, 'k, 'h) async_registry \<Rightarrow>
     (string option \<times> ('f, 'k, 'h) async_registry) res" where
  "async_create fo policy name k s i p w =
     andthen (case reg_tp (reg (ar_reg w)) of
                Some t \<Rightarrow> Inr (t, w)
              | None \<Rightarrow>
                  andthen (thread_pool_new (async_msg_bare None async_log) default_async_q_size 1) (\<lambda>(q, n).
                    Inr (p, w\<lparr>ar_reg := set_tp (Some p) (ar_reg w), ar_pools := (ar_pools w)(p \<mapsto> q)\<rparr>))) (\<lambda>(t, w).
     andthen (create_logger fo name k s i (ar_reg w)) (\<lambda>(ex, r).
       Inr (ex, w\<lparr>ar_reg := r, ar_async := (ar_async w)(i \<mapsto> (t, policy))\<rparr>)))"

text \<open>\<open>init_thread_pool\<close>: the pool that was there before is destroyed.\<close>

definition init_thread_pool :: "nat \<Rightarrow> nat \<Rightarrow> nat \<Rightarrow> ('f, 'k, 'h) async_registry \<Rightarrow> ('f, 'k, 'h) async_registry res" where
  "init_thread_pool q_size thread_count p w =
     andthen (thread_pool_new (async_msg_bare None async_log) q_size thread_count) (\<lambda>(q, n).
       Inr (w\<lparr>ar_reg := set_tp (Some p) (ar_reg w),
              ar_pools := (case reg_tp (reg (ar_reg w)) of Some old \<Rightarrow> (ar_pools w)(old := None) | None \<Rightarrow> ar_pools w)(p \<mapsto> q)\<rparr>))"

definition pool_of :: "nat \<Rightarrow> ('f, 'k, 'h) async_registry \<Rightarrow> pool option" where
  "pool_of i w = (case ar_async w i of Some (t, policy) \<Rightarrow> ar_pools w t | None \<Rightarrow> None)"

text \<open>A logger of the factory has a pool, and loses it when another pool is set up.\<close>

lemma async_create_pool:
  assumes "reg_tp (reg (ar_reg w)) = None" and "async_create fo policy name k s i p w = Inr (ex, w')"
  shows "pool_of i w' = Some (mpmc_new (async_msg_bare None async_log) 8192)"
  using assms by (auto simp: async_create_def thread_pool_new_def res_simps pool_of_def default_async_q_size_def)

lemma init_thread_pool_drops:
  assumes "reg_tp (reg (ar_reg w)) = Some t" and "ar_async w i = Some (t, policy)" and "p \<noteq> t"
    and "init_thread_pool q n p w = Inr w'"
  shows "pool_of i w' = None"
  using assms by (auto simp: init_thread_pool_def thread_pool_new_def pool_of_def split: if_splits)

section \<open>The back end does what a synchronous logger does\<close>

lemma backend_sink_it_eq: "backend_sink_it E lg = logger_sink_it E lg"
  by (simp add: fun_eq_iff backend_sink_it_def logger_sink_it_def backend_flush_def logger_flush_def cong: if_cong)

definition async_log_all ::
  "nat \<Rightarrow> nat \<Rightarrow> (int \<times> source_loc \<times> level_enum \<times> string) list \<Rightarrow> 'h async_logger \<times> pool option \<Rightarrow>
     ('h async_logger \<times> pool option) res" where
  "async_log_all i tid = fold_res (\<lambda>c s. andthen (async_log_at i tid c s) (\<lambda>(ex, s). Inr s))"

definition wanted :: "'h async_logger \<Rightarrow> nat \<Rightarrow> (int \<times> source_loc \<times> level_enum \<times> string) list \<Rightarrow> log_msg list" where
  "wanted lg tid cs = map (\<lambda>(t, loc, l, s). log_msg_new t tid loc (lg_name lg) l s) (filter (\<lambda>(t, loc, l, s). l \<ge> lg_level lg) cs)"

lemma async_log_all_posts:
  assumes "\<not> bt_enabled (tracer lg)" and "overflow_policy lg = block"
    and "fold_res (\<lambda>m. post_log i m block) (wanted lg tid cs) q = Inr q'"
  shows "async_log_all i tid cs (lg, Some q) = Inr (lg, Some q')"
  using assms(3)
proof (induction cs arbitrary: q)
  case (Cons c cs)
  then show ?case using assms(1,2)
    by (cases c) (auto simp: async_log_all_def async_log_at_def async_log_it_def async_sink_it_def wanted_def res_simps split: if_splits)
qed (simp add: async_log_all_def wanted_def)

lemma sync_log_all:
  assumes "\<not> should_backtrace lg"
  shows "fold_res (log_call E) cs (lg, w) =
     andthen (fold_res (logger_sink_it E lg) (map (msg_of_call lg (this_tid w)) (filter (\<lambda>(t, loc, l, s). l \<ge> lg_level lg) cs)) w)
       (\<lambda>w. Inr (lg, w))"
proof (induction cs arbitrary: w)
  case (Cons c cs)
  obtain t loc l x where [simp]: "c = (t, loc, l, x)" by (cases c)
  show ?case
  proof (cases "l \<ge> lg_level lg")
    case False
    with assms Cons.IH [of w] show ?thesis by (simp add: log_call_def logger_log_at_def logger_should_log_def)
  next
    case True
    let ?m = "msg_of_call lg (this_tid w) c"
    have call: "log_call E c (lg, w) = andthen (logger_sink_it E lg ?m w) (\<lambda>w. Inr (lg, w))"
      using True assms by (simp add: log_call_def logger_log_at_def logger_should_log_def log_it_def msg_of_call_def)
    show ?thesis
    proof (cases "logger_sink_it E lg ?m w")
      case (Inr w')
      then have "this_tid w' = this_tid w" using sink_it_clock [of w w] by (simp add: same_clock_def)
      with Inr call True Cons.IH [of w'] show ?thesis by simp
    qed (use call True in simp)
  qed
qed simp


text \<open>
  Logging after the pool is gone. An asynchronous logger whose thread pool does not exist any more throws out of \<open>log\<close>
  with a text, where no handler sees it, while \<open>log\<close> with a format string hands the same error to the error handler.
\<close>

theorem async_dead_pool:
  assumes "lvl \<ge> lg_level lg"
  shows "\<exists>e. async_log_at i tid (t, loc, lvl, s) (lg, None) = Inr (Some e, lg, None) \<and>
     async_log_fmt E i loc lvl (Inr s) (lg, None, w) =
       Inr (lg, None, err_handler (date_text E) (logger.truncate lg) (catch_text loc e) w)"
  using assms by (simp add: async_log_at_def async_log_it_def async_sink_it_def async_log_fmt_def on_exception_def)


theorem async_dead_pool_witness:
  "\<exists>e. async_log_at 5 7 (1, no_source_loc, level_err, ''b'') (async_logger_new ''net'' [2] block :: nat async_logger, None) =
       Inr (Some e, async_logger_new ''net'' [2] block, None)"
  using async_dead_pool [of "async_logger_new ''net'' [2] block :: nat async_logger" level_err 5 7 1 no_source_loc "''b''"]
  by (auto simp: async_logger_new_def logger.defs logger_new_def level_order)

end
