(* ===== verification/Log_Config.thy ===== *)
theory Log_Config
  imports Log_Registry
begin

text \<open>
  Levels from the environment and the command line (\<open>cfg/helpers-inl.h\<close>, \<open>cfg/env.h\<close>, \<open>cfg/argv.h\<close>): the
  text \<open>name=level,name=level,...\<close> is read into a map and handed to the registry. The value of the environment
  variable and the arguments of the program are parameters.
\<close>

definition to_lower_char :: "char \<Rightarrow> char" where
  "to_lower_char ch = (if CHR ''A'' \<le> ch \<and> ch \<le> CHR ''Z'' then char_of (of_char ch + (of_char CHR ''a'' - of_char CHR ''A'') :: nat) else ch)"

definition to_lower :: "string \<Rightarrow> string" where
  "to_lower str = map to_lower_char str"

definition is_space :: "char \<Rightarrow> bool" where
  "is_space c \<longleftrightarrow> c \<in> {CHR '' '', CHR 0x0A, CHR 0x0D, CHR 0x09}"

text \<open>\<open>trim_\<close>: first what follows the last character that is no space, then what precedes the first one.\<close>

definition trim :: "string \<Rightarrow> string" where
  "trim str = dropWhile is_space (rev (dropWhile is_space (rev str)))"

definition extract_kv :: "char \<Rightarrow> string \<Rightarrow> string \<times> string" where
  "extract_kv sep str =
     (case find_index sep str of
        None \<Rightarrow> (trim [], trim str)
      | Some n \<Rightarrow> (trim (take n str), trim (drop (n + 1) str)))"

text \<open>
  \<open>std::getline\<close> on a string stream: it fails at the end of the stream, otherwise it takes the characters up to the
  separator or the end, and removes the separator.
\<close>

definition getline :: "char \<Rightarrow> string \<Rightarrow> (string \<times> string) option" where
  "getline sep s =
     (if s = [] then None
      else let token = takeWhile (\<lambda>c. c \<noteq> sep) s in Some (token, drop (length token + 1) s))"

lemma getline_shorter: "getline sep s = Some (token, rest) \<Longrightarrow> length rest < length s"
  by (auto simp: getline_def Let_def split: if_splits)

function extract_loop :: "string \<Rightarrow> (string \<times> string) list \<Rightarrow> (string \<times> string) list" where
  "extract_loop s rv =
     (case getline (CHR '','') s of
        None \<Rightarrow> rv
      | Some (token, rest) \<Rightarrow>
          if token = [] then extract_loop rest rv
          else (let (k, v) = extract_kv (CHR ''='') token in extract_loop rest (AList.update k v rv)))"
  by pat_completeness auto
termination extract_loop
  by (relation "measure (\<lambda>(s, rv). length s)") (auto dest: getline_shorter)

declare extract_loop.simps [simp del]

definition extract_key_vals :: "string \<Rightarrow> (string \<times> string) list" where
  "extract_key_vals str = extract_loop str []"

text \<open>One turn of the loop of \<open>load_levels\<close>, on the levels and the global level found so far.\<close>

definition load_one ::
  "string \<times> string \<Rightarrow> (string \<times> level_enum) list \<times> level_enum option \<Rightarrow> (string \<times> level_enum) list \<times> level_enum option" where
  "load_one = (\<lambda>(name, v) (levels, global_level).
     (let level_name = to_lower v; level = from_str level_name
      in if level = level_off \<and> level_name \<noteq> ''off'' then (levels, global_level)
         else if name = [] then (levels, Some level)
         else (AList.update name level levels, global_level)))"

definition load_levels :: "string \<Rightarrow> ('f, 'k, 'h) reg_world \<Rightarrow> ('f, 'k, 'h) reg_world res" where
  "load_levels input w =
     (if input = [] \<or> length input > 512 then Inr w
      else (let (levels, global_level) = fold load_one (extract_key_vals input) ([], None)
            in set_levels levels global_level w))"

text \<open>\<open>env_val\<close> is \<open>SPDLOG_LEVEL\<close> in the environment, the empty string when it is not set.\<close>

definition load_env_levels :: "string \<Rightarrow> ('f, 'k, 'h) reg_world \<Rightarrow> ('f, 'k, 'h) reg_world res" where
  "load_env_levels env_val w = (if env_val \<noteq> [] then load_levels env_val w else Inr w)"

definition spdlog_level_prefix :: string where
  "spdlog_level_prefix = ''SPDLOG_LEVEL=''"

definition load_argv_levels :: "string list \<Rightarrow> ('f, 'k, 'h) reg_world \<Rightarrow> ('f, 'k, 'h) reg_world res" where
  "load_argv_levels argv w =
     fold_res (\<lambda>arg w. if prefix spdlog_level_prefix arg then load_levels (drop (length spdlog_level_prefix) arg) w else Inr w)
       (drop 1 argv) w"

section \<open>What is configured\<close>

text \<open>The level a text names, and the level the text configures for a name (the empty name is the global level).\<close>

definition level_named :: "string \<Rightarrow> level_enum option" where
  "level_named v = (if from_str (to_lower v) = level_off \<and> to_lower v \<noteq> ''off'' then None else Some (from_str (to_lower v)))"

definition configured :: "string \<Rightarrow> string \<Rightarrow> level_enum option" where
  "configured input name = Option.bind (map_of (extract_key_vals input) name) level_named"

lemma extract_loop_distinct: "distinct (map fst rv) \<Longrightarrow> distinct (map fst (extract_loop s rv))"
proof (induction s rv rule: extract_loop.induct)
  case (1 s rv)
  then show ?case
    by (subst extract_loop.simps) (auto simp: distinct_update split: option.split prod.split)
qed

lemma load_one_fold:
  assumes "distinct (map fst kvs)" and "fold load_one kvs (ls, g) = (ls', g')"
    and "\<forall>n\<in>set (map fst kvs). map_of ls n = None" and "[] \<in> set (map fst kvs) \<Longrightarrow> g = None"
  shows "map_of ls' = (\<lambda>n. if n = [] \<or> Option.bind (map_of kvs n) level_named = None then map_of ls n
       else Option.bind (map_of kvs n) level_named) \<and>
     g' = (if Option.bind (map_of kvs []) level_named = None then g else Option.bind (map_of kvs []) level_named)"
  using assms
proof (induction kvs arbitrary: ls g)
  case (Cons e kvs)
  obtain n v where e: "e = (n, v)" by (cases e)
  obtain ls1 g1 where one: "load_one e (ls, g) = (ls1, g1)" by fastforce
  have ls1: "map_of ls1 = (\<lambda>m. if m = n \<and> n \<noteq> [] \<and> level_named v \<noteq> None then level_named v else map_of ls m)"
    and g1: "g1 = (if n = [] \<and> level_named v \<noteq> None then level_named v else g)"
    using one e by (auto simp: load_one_def Let_def level_named_def update_conv' fun_eq_iff split: if_splits)
  have n: "n \<notin> set (map fst kvs)" and d: "distinct (map fst kvs)" using Cons.prems(1) e by auto
  have none: "map_of kvs n = None" using n by (simp add: map_of_eq_None_iff)
  have r: "fold load_one kvs (ls1, g1) = (ls', g')" using Cons.prems(2) one by simp
  have l: "\<forall>m\<in>set (map fst kvs). map_of ls1 m = None" using Cons.prems(3) n ls1 by auto
  have g: "[] \<in> set (map fst kvs) \<Longrightarrow> g1 = None" using Cons.prems(4) n g1 by auto
  from Cons.IH [OF d r l g] none Cons.prems(3) show ?case
    by (auto simp: e ls1 g1 fun_eq_iff)
qed (auto simp: fun_eq_iff)

lemma levels_of_text:
  assumes "fold load_one (extract_key_vals input) ([], None) = (ls, g)"
  shows "map_of ls = (\<lambda>n. if n = [] then None else configured input n)" and "g = configured input []"
proof -
  have "distinct (map fst (extract_key_vals input))"
    unfolding extract_key_vals_def by (rule extract_loop_distinct) simp
  from load_one_fold [OF this assms]
  show "map_of ls = (\<lambda>n. if n = [] then None else configured input n)" "g = configured input []"
    by (auto simp: configured_def fun_eq_iff)
qed

section \<open>A text for given levels\<close>

definition level_text :: "level_enum \<Rightarrow> string" where
  "level_text l = level_string_views ! level_int l"

definition cfg_entry :: "string \<times> level_enum \<Rightarrow> string" where
  "cfg_entry = (\<lambda>(n, l). if n = [] then level_text l else n @ ''='' @ level_text l)"

fun cfg_text :: "(string \<times> level_enum) list \<Rightarrow> string" where
  "cfg_text [] = []"
| "cfg_text [e] = cfg_entry e"
| "cfg_text (e # e' # es) = cfg_entry e @ '','' @ cfg_text (e' # es)"

definition clean_name :: "string \<Rightarrow> bool" where
  "clean_name n \<longleftrightarrow> CHR '','' \<notin> set n \<and> CHR ''='' \<notin> set n \<and> trim n = n"

lemma level_text_props:
  assumes "l \<noteq> n_levels"
  shows "trim (level_text l) = level_text l" "CHR '','' \<notin> set (level_text l)" "CHR ''='' \<notin> set (level_text l)"
    "level_text l \<noteq> []" "level_named (level_text l) = Some l"
proof -
  have lower: "to_lower (level_text l) = level_text l"
    using assms by (cases l) (simp_all add: level_text_def level_string_views_def to_lower_def to_lower_char_def)
  have "from_str (level_text l) = l"
    using assms by (cases l) (simp_all add: level_text_def level_string_views_def from_str_def level_of_int_def)
  moreover have "l = level_off \<Longrightarrow> level_text l = ''off''" by (simp add: level_text_def level_string_views_def)
  ultimately show "level_named (level_text l) = Some l" using lower by (auto simp: level_named_def)
  show "trim (level_text l) = level_text l" "CHR '','' \<notin> set (level_text l)" "CHR ''='' \<notin> set (level_text l)"
    "level_text l \<noteq> []"
    using assms by (cases l, simp_all add: level_text_def level_string_views_def trim_def is_space_def)+
qed

lemma find_index_append: "x \<notin> set xs \<Longrightarrow> find_index x (xs @ x # ys) = Some (length xs)"
  by (induction xs) auto

lemma find_index_None: "x \<notin> set xs \<Longrightarrow> find_index x xs = None"
  by (induction xs) auto

lemma extract_entry:
  assumes "clean_name n" and "l \<noteq> n_levels"
  shows "extract_kv (CHR ''='') (cfg_entry (n, l)) = (n, level_text l)" "CHR '','' \<notin> set (cfg_entry (n, l))"
    "cfg_entry (n, l) \<noteq> []"
  using assms level_text_props [OF assms(2)]
  by (auto simp: cfg_entry_def extract_kv_def clean_name_def find_index_append find_index_None trim_def)

lemma takeWhile_sep: "sep \<notin> set xs \<Longrightarrow> takeWhile (\<lambda>c. c \<noteq> sep) (xs @ sep # ys) = xs"
  by (induction xs) auto

lemma getline_entry:
  assumes "sep \<notin> set xs" and "xs \<noteq> []"
  shows "getline sep xs = Some (xs, [])" "getline sep (xs @ sep # ys) = Some (xs, ys)"
proof -
  have all: "takeWhile (\<lambda>c. c \<noteq> sep) xs = xs" using assms(1) by (induction xs) auto
  show "getline sep xs = Some (xs, [])" unfolding getline_def all Let_def using assms(2) by simp
  show "getline sep (xs @ sep # ys) = Some (xs, ys)"
    using assms by (simp add: getline_def Let_def takeWhile_sep)
qed

lemma extract_cfg_text:
  assumes "\<forall>(n, l)\<in>set kvs. clean_name n \<and> l \<noteq> n_levels"
  shows "extract_loop (cfg_text kvs) rv = fold (\<lambda>(n, l). AList.update n (level_text l)) kvs rv"
  using assms
proof (induction kvs arbitrary: rv rule: cfg_text.induct)
  case 1
  show ?case by (subst extract_loop.simps) (simp add: getline_def)
next
  case (2 e)
  obtain n l where e: "e = (n, l)" by (cases e)
  with 2 have "clean_name n" "l \<noteq> n_levels" by auto
  note entry = extract_entry [OF this]
  have "extract_loop [] rv = rv" for rv by (subst extract_loop.simps) (simp add: getline_def)
  with entry show ?case unfolding e by (subst extract_loop.simps) (simp add: getline_entry)
next
  case (3 e e' es)
  obtain n l where e: "e = (n, l)" by (cases e)
  with 3 have "clean_name n" "l \<noteq> n_levels" by auto
  note entry = extract_entry [OF this]
  from 3 have IH: "extract_loop (cfg_text (e' # es)) rv = fold (\<lambda>(n, l). AList.update n (level_text l)) (e' # es) rv" for rv
    by simp
  from entry show ?case unfolding e cfg_text.simps
    by (subst extract_loop.simps) (simp add: getline_entry IH del: cfg_text.simps)
qed

lemma map_of_fold_update:
  "distinct (map fst kvs) \<Longrightarrow>
     map_of (fold (\<lambda>(n, l). AList.update n (g l)) kvs rv) n =
       (case map_of kvs n of Some l \<Rightarrow> Some (g l) | None \<Rightarrow> map_of rv n)"
proof (induction kvs arbitrary: rv)
  case (Cons e kvs)
  obtain m l where e: "e = (m, l)" by (cases e)
  with Cons.prems have "map_of kvs m = None" by (auto simp: map_of_eq_None_iff)
  with Cons e show ?case by (auto simp: update_conv' split: option.split)
qed simp

section \<open>Properties\<close>

text \<open>
  Levels are read back. A text made of the names and levels of any list with distinct names without comma,
  equals sign and surrounding space configures exactly these levels and no others.
\<close>

theorem cfg_roundtrip:
  assumes "distinct (map fst kvs)" and "\<forall>(n, l)\<in>set kvs. clean_name n \<and> l \<noteq> n_levels"
  shows "configured (cfg_text kvs) = map_of kvs"
proof
  fix n
  have "map_of kvs n = Some l \<Longrightarrow> level_named (level_text l) = Some l" for l
    using assms(2) level_text_props(5) by (auto dest!: map_of_SomeD)
  then show "configured (cfg_text kvs) n = map_of kvs n"
    by (cases "map_of kvs n")
      (simp_all add: configured_def extract_key_vals_def extract_cfg_text [OF assms(2)] map_of_fold_update [OF assms(1)])
qed

theorem cfg_roundtrip_witness:
  "cfg_text [([], level_err), (''net'', level_debug)] = ''error,net=debug'' \<and>
     configured ''error,net=debug'' ''net'' = Some level_debug \<and> configured ''error,net=debug'' ''disk'' = None"
proof -
  have printed: "cfg_text [([], level_err), (''net'', level_debug)] = ''error,net=debug''"
    by (simp add: cfg_entry_def level_text_def level_string_views_def)
  from printed cfg_roundtrip [of "[([], level_err), (''net'', level_debug)]"] show ?thesis
    by (simp add: clean_name_def trim_def is_space_def)
qed



end
