(* ===== verification/File_Helper.thy ===== *)
theory File_Helper
  imports Log_Common "HOL-Library.AList"
begin

text \<open>
  Files of the file sinks: \<open>details/file_helper(-inl).h\<close> and the file functions of \<open>details/os-inl.h\<close>.
  The operating system is part of the state: the contents of the files by name, the directories made so far, and
  \<open>outcomes\<close>, which decides in order whether the calls that can fail succeed (when it is used up they succeed). A write that
  fails with \<open>Fails n\<close> has put \<open>n\<close> characters out. A name stands for a file or for a directory, never for both. The stream of an open file keeps what is written until it is flushed or closed.
  A function that throws returns the \<open>what()\<close> of the exception, without the text for \<open>errno\<close>, beside the state it leaves.
\<close>

datatype os_result = Succeeds | Fails nat

datatype file_event = Before_open string | After_open string | Before_close string | After_close string

record file_event_handlers =
  before_open :: bool
  after_open :: bool
  before_close :: bool
  after_close :: bool

text \<open>\<open>fd\<close> is \<open>None\<close> for the null pointer, otherwise what the stream holds back.\<close>

record file_world =
  files :: "string \<Rightarrow> string option"
  dirs :: "string list"
  outcomes :: "os_result list"
  file_events :: "file_event list"
  sleeps :: nat
  fd :: "string option"
  fh_filename :: string
  event_handlers :: file_event_handlers

type_synonym 'w thrown = "(string option \<times> 'w) res"

text \<open>Sequencing of calls that may throw.\<close>

definition try_then :: "'w thrown \<Rightarrow> ('w \<Rightarrow> 'w thrown) \<Rightarrow> 'w thrown" where
  "try_then r f = andthen r (\<lambda>(ex, w). case ex of None \<Rightarrow> f w | Some e \<Rightarrow> Inr (Some e, w))"

lemma try_then_simps [simp]:
  "try_then (Inl e) f = Inl e" "try_then (Inr (None, w)) f = f w" "try_then (Inr (Some x, w)) f = Inr (Some x, w)"
  by (simp_all add: try_then_def)

section \<open>Calls of the system\<close>

definition next_outcome :: "file_world \<Rightarrow> os_result \<times> file_world" where
  "next_outcome w = (case outcomes w of [] \<Rightarrow> (Succeeds, w) | r # rs \<Rightarrow> (r, w\<lparr>outcomes := rs\<rparr>))"

definition fires :: "(file_event_handlers \<Rightarrow> bool) \<Rightarrow> file_event \<Rightarrow> file_world \<Rightarrow> file_world" where
  "fires h e w = (if h (event_handlers w) then w\<lparr>file_events := file_events w @ [e]\<rparr> else w)"

definition content :: "string \<Rightarrow> file_world \<Rightarrow> string" where
  "content name w = (case files w name of None \<Rightarrow> [] | Some s \<Rightarrow> s)"

text \<open>What goes out through the stream of a file that was removed meanwhile is gone.\<close>

definition append_file :: "string \<Rightarrow> string \<Rightarrow> file_world \<Rightarrow> file_world" where
  "append_file name s w =
     (case files w name of None \<Rightarrow> w | Some c \<Rightarrow> w\<lparr>files := (files w)(name \<mapsto> c @ s)\<rparr>)"

text \<open>\<open>os::fopen_s\<close> in the modes \<open>wb\<close> and \<open>ab\<close>; true when it failed.\<close>

definition fopen_wb :: "string \<Rightarrow> file_world \<Rightarrow> bool \<times> file_world" where
  "fopen_wb name w =
     (case next_outcome w of (Succeeds, w) \<Rightarrow> (False, w\<lparr>files := (files w)(name \<mapsto> [])\<rparr>) | (Fails _, w) \<Rightarrow> (True, w))"

definition fopen_ab :: "string \<Rightarrow> file_world \<Rightarrow> bool \<times> file_world" where
  "fopen_ab name w =
     (case next_outcome w of
        (Succeeds, w) \<Rightarrow> (False, w\<lparr>files := (files w)(name \<mapsto> content name w), fd := Some []\<rparr>)
      | (Fails _, w) \<Rightarrow> (True, w\<lparr>fd := None\<rparr>))"

definition path_exists :: "string \<Rightarrow> file_world \<Rightarrow> bool" where
  "path_exists name w \<longleftrightarrow> files w name \<noteq> None \<or> name \<in> set (dirs w)"

definition os_remove :: "string \<Rightarrow> file_world \<Rightarrow> bool \<times> file_world" where
  "os_remove name w =
     (case next_outcome w of
        (Succeeds, w) \<Rightarrow> (files w name \<noteq> None, w\<lparr>files := (files w)(name := None)\<rparr>)
      | (Fails _, w) \<Rightarrow> (False, w))"

definition remove_if_exists :: "string \<Rightarrow> file_world \<Rightarrow> bool \<times> file_world" where
  "remove_if_exists name w = (if path_exists name w then os_remove name w else (True, w))"

definition os_rename :: "string \<Rightarrow> string \<Rightarrow> file_world \<Rightarrow> bool \<times> file_world" where
  "os_rename src target w =
     (case next_outcome w of
        (Succeeds, w) \<Rightarrow>
          (case files w src of
             Some s \<Rightarrow> (True, w\<lparr>files := (files w)(src := None, target \<mapsto> s)\<rparr>)
           | None \<Rightarrow> (False, w))
      | (Fails _, w) \<Rightarrow> (False, w))"

definition os_mkdir :: "string \<Rightarrow> file_world \<Rightarrow> bool \<times> file_world" where
  "os_mkdir path w =
     (case next_outcome w of (Succeeds, w) \<Rightarrow> (True, w\<lparr>dirs := path # dirs w\<rparr>) | (Fails _, w) \<Rightarrow> (False, w))"

definition sleep_for_millis :: "nat \<Rightarrow> file_world \<Rightarrow> file_world" where
  "sleep_for_millis n w = w\<lparr>sleeps := sleeps w + n\<rparr>"

section \<open>Paths\<close>

text \<open>The last position of a separator, \<open>find_last_of\<close> and \<open>rfind\<close>.\<close>

definition find_last :: "char \<Rightarrow> string \<Rightarrow> nat option" where
  "find_last c s = (case find_index c (rev s) of None \<Rightarrow> None | Some k \<Rightarrow> Some (length s - 1 - k))"

definition folder_seps :: char where
  "folder_seps = CHR ''/''"

definition dir_name :: "string \<Rightarrow> string" where
  "dir_name path = (case find_last folder_seps path of Some pos \<Rightarrow> take pos path | None \<Rightarrow> [])"

text \<open>The loop of \<open>create_dir\<close> from \<open>search_offset\<close>; it makes the directories on the path, outermost first.\<close>

function create_dir_loop :: "string \<Rightarrow> nat \<Rightarrow> file_world \<Rightarrow> bool \<times> file_world" where
  "create_dir_loop path search_offset w =
     (let token_pos = (case find_index folder_seps (drop search_offset path) of
                         Some k \<Rightarrow> search_offset + k | None \<Rightarrow> length path);
          subdir = take token_pos path;
          (ok, w) = (if subdir \<noteq> [] \<and> \<not> path_exists subdir w then os_mkdir subdir w else (True, w))
      in if \<not> ok then (False, w)
         else if token_pos + 1 < length path then create_dir_loop path (token_pos + 1) w else (True, w))"
  by pat_completeness auto
termination create_dir_loop
  by (relation "measure (\<lambda>(path, off, w). length path - off)") (auto split: option.splits)

declare create_dir_loop.simps [simp del]

definition create_dir :: "string \<Rightarrow> file_world \<Rightarrow> bool \<times> file_world" where
  "create_dir path w =
     (if path_exists path w then (True, w) else if path = [] then (False, w) else create_dir_loop path 0 w)"

definition split_by_extension :: "string \<Rightarrow> string \<times> string" where
  "split_by_extension fname =
     (case find_last (CHR ''.'') fname of
        None \<Rightarrow> (fname, [])
      | Some ext_index \<Rightarrow>
          if ext_index = 0 \<or> ext_index = length fname - 1 then (fname, [])
          else (case find_last folder_seps fname of
                  Some folder_index \<Rightarrow>
                    if folder_index \<ge> ext_index - 1 then (fname, []) else (take ext_index fname, drop ext_index fname)
                | None \<Rightarrow> (take ext_index fname, drop ext_index fname)))"

section \<open>The file helper\<close>

definition file_helper_new :: "file_event_handlers \<Rightarrow> file_world \<Rightarrow> file_world" where
  "file_helper_new h w = w\<lparr>fd := None, fh_filename := [], event_handlers := h\<rparr>"

text \<open>\<open>std::fclose\<close>: its result is ignored, what the stream holds goes out as far as it can.\<close>

definition fh_close :: "file_world \<Rightarrow> file_world" where
  "fh_close w =
     (case fd w of
        None \<Rightarrow> w
      | Some held \<Rightarrow>
          (let w = fires before_close (Before_close (fh_filename w)) w;
               (r, w) = next_outcome w;
               w = append_file (fh_filename w) (case r of Succeeds \<Rightarrow> held | Fails n \<Rightarrow> take n held) w
           in fires after_close (After_close (fh_filename w)) (w\<lparr>fd := None\<rparr>)))"

definition open_interval :: nat where
  "open_interval = 10"

definition open_tries :: nat where
  "open_tries = 5"

fun fh_open_loop :: "nat \<Rightarrow> string \<Rightarrow> bool \<Rightarrow> file_world \<Rightarrow> file_world thrown" where
  "fh_open_loop 0 fname trunc w = Inr (Some (''Failed opening file '' @ fh_filename w @ '' for writing''), w)"
| "fh_open_loop (Suc tries) fname trunc w =
     (let (_, w) = create_dir (dir_name fname) w;
          (failed, w) = (if trunc then fopen_wb fname w else (False, w))
      in if failed then fh_open_loop tries fname trunc w
         else (let (failed, w) = fopen_ab fname w
               in if \<not> failed then Inr (None, fires after_open (After_open (fh_filename w)) w)
                  else fh_open_loop tries fname trunc (sleep_for_millis open_interval w)))"

definition fh_open :: "string \<Rightarrow> bool \<Rightarrow> file_world \<Rightarrow> file_world thrown" where
  "fh_open fname trunc w =
     fh_open_loop open_tries fname trunc (fires before_open (Before_open fname) ((fh_close w)\<lparr>fh_filename := fname\<rparr>))"

definition fh_reopen :: "bool \<Rightarrow> file_world \<Rightarrow> file_world thrown" where
  "fh_reopen trunc w =
     (if fh_filename w = [] then Inr (Some ''Failed re opening file - was not opened before'', w)
      else fh_open (fh_filename w) trunc w)"

text \<open>\<open>fflush\<close> of the null pointer flushes the open streams of the program and succeeds.\<close>

definition fh_flush :: "file_world \<Rightarrow> file_world thrown" where
  "fh_flush w =
     (case fd w of
        None \<Rightarrow> Inr (None, w)
      | Some held \<Rightarrow>
          (case next_outcome w of
             (Succeeds, w) \<Rightarrow> Inr (None, (append_file (fh_filename w) held w)\<lparr>fd := Some []\<rparr>)
           | (Fails n, w) \<Rightarrow>
               Inr (Some (''Failed flush to file '' @ fh_filename w),
                    (append_file (fh_filename w) (take n held) w)\<lparr>fd := Some (drop n held)\<rparr>)))"

definition fh_write :: "string \<Rightarrow> file_world \<Rightarrow> file_world thrown" where
  "fh_write buf w =
     (case fd w of
        None \<Rightarrow> Inl Null_deref
      | Some held \<Rightarrow>
          (case next_outcome w of
             (Succeeds, w) \<Rightarrow> Inr (None, w\<lparr>fd := Some (held @ buf)\<rparr>)
           | (Fails n, w) \<Rightarrow> Inr (Some (''Failed writing to file '' @ fh_filename w), w\<lparr>fd := Some (held @ take n buf)\<rparr>)))"

text \<open>\<open>size\<close>: the size of the file, without what the stream holds back, or the exception.\<close>

definition fh_size :: "file_world \<Rightarrow> (string + nat) \<times> file_world" where
  "fh_size w =
     (case fd w of
        None \<Rightarrow> (Inl (''Cannot use size() on closed file '' @ fh_filename w), w)
      | Some held \<Rightarrow>
          (case next_outcome w of
             (Succeeds, w) \<Rightarrow> (Inr (length (content (fh_filename w) w)), w)
           | (Fails _, w) \<Rightarrow> (Inl ''Failed getting file size from fd'', w)))"

definition with_size :: "file_world \<Rightarrow> (nat \<Rightarrow> file_world \<Rightarrow> file_world thrown) \<Rightarrow> file_world thrown" where
  "with_size w f = (case fh_size w of (Inl e, w) \<Rightarrow> Inr (Some e, w) | (Inr n, w) \<Rightarrow> f n w)"

section \<open>When the system calls succeed\<close>

lemma next_outcome_ok [simp]: "outcomes w = [] \<Longrightarrow> next_outcome w = (Succeeds, w)"
  by (simp add: next_outcome_def)

lemma fires_frame [simp]:
  "files (fires h e w) = files w" "dirs (fires h e w) = dirs w" "outcomes (fires h e w) = outcomes w"
  "fd (fires h e w) = fd w" "fh_filename (fires h e w) = fh_filename w" "event_handlers (fires h e w) = event_handlers w"
  "content n (fires h e w) = content n w"
  by (simp_all add: fires_def content_def)

lemma append_file_frame [simp]:
  "files w n = Some c \<Longrightarrow> files (append_file n s w) = (files w)(n \<mapsto> c @ s)"
  "files w n = None \<Longrightarrow> append_file n s w = w" "dirs (append_file n s w) = dirs w"
  "outcomes (append_file n s w) = outcomes w" "fd (append_file n s w) = fd w"
  "fh_filename (append_file n s w) = fh_filename w" "event_handlers (append_file n s w) = event_handlers w"
  by (simp_all add: append_file_def split: option.split)

lemma content_update [simp]:
  "content n (w\<lparr>fd := x\<rparr>) = content n w" "content n (w\<lparr>dirs := d\<rparr>) = content n w" "content n (w\<lparr>fh_filename := f\<rparr>) = content n w"
  "content n (w\<lparr>files := F\<rparr>) = (case F n of None \<Rightarrow> [] | Some s \<Rightarrow> s)"
  by (simp_all add: content_def)

text \<open>The directories that \<open>create_dir\<close> may add are the path and what precedes it.\<close>

lemma create_dir_loop_ok:
  assumes "outcomes w = []"
  shows "\<exists>b ds. create_dir_loop path off w = (b, w\<lparr>dirs := ds @ dirs w\<rparr>) \<and> (\<forall>d\<in>set ds. prefix d path)"
  using assms
proof (induction path off w rule: create_dir_loop.induct)
  case (1 path off w)
  define pos where "pos = (case find_index folder_seps (drop off path) of Some k \<Rightarrow> off + k | None \<Rightarrow> length path)"
  define w1 where "w1 = snd (if take pos path \<noteq> [] \<and> \<not> path_exists (take pos path) w then os_mkdir (take pos path) w else (True, w))"
  have step: "(if take pos path \<noteq> [] \<and> \<not> path_exists (take pos path) w then os_mkdir (take pos path) w else (True, w)) = (True, w1)"
    using 1(2) by (simp add: w1_def os_mkdir_def)
  have w1: "\<exists>ds. w1 = w\<lparr>dirs := ds @ dirs w\<rparr> \<and> (\<forall>d\<in>set ds. prefix d path)"
  proof (cases "take pos path \<noteq> [] \<and> \<not> path_exists (take pos path) w")
    case True
    with 1(2) have "w1 = w\<lparr>dirs := [take pos path] @ dirs w\<rparr>" by (simp add: w1_def os_mkdir_def)
    then show ?thesis by (intro exI [of _ "[take pos path]"]) (simp add: take_is_prefix)
  next
    case False
    then have "w1 = w\<lparr>dirs := [] @ dirs w\<rparr>" unfolding w1_def by auto
    then show ?thesis by (intro exI [of _ "[]"]) simp
  qed
  then obtain ds where ds: "w1 = w\<lparr>dirs := ds @ dirs w\<rparr>" "\<forall>d\<in>set ds. prefix d path" by blast
  have unfold: "create_dir_loop path off w =
      (if pos + 1 < length path then create_dir_loop path (pos + 1) w1 else (True, w1))"
    by (subst create_dir_loop.simps) (simp only: Let_def pos_def [symmetric] step prod.case not_True_eq_False if_False)
  show ?case
  proof (cases "pos + 1 < length path")
    case True
    have "outcomes w1 = []" using ds 1(2) by simp
    then obtain b ds' where "create_dir_loop path (pos + 1) w1 = (b, w1\<lparr>dirs := ds' @ dirs w1\<rparr>)" "\<forall>d\<in>set ds'. prefix d path"
      using "1.IH" [OF pos_def refl step [symmetric] refl _ True] by auto
    with True ds unfold show ?thesis by (intro exI [of _ b] exI [of _ "ds' @ ds"]) auto
  next
    case False
    with ds unfold show ?thesis by auto
  qed
qed

lemma create_dir_ok:
  assumes "outcomes w = []"
  shows "\<exists>b ds. create_dir path w = (b, w\<lparr>dirs := ds @ dirs w\<rparr>) \<and> (\<forall>d\<in>set ds. prefix d path)"
  using create_dir_loop_ok [OF assms, of path 0]
  by (auto simp: create_dir_def intro!: exI [of _ "[]"])

lemma fh_close_ok:
  assumes "outcomes w = []"
  shows "outcomes (fh_close w) = [] \<and> fd (fh_close w) = None \<and> dirs (fh_close w) = dirs w \<and>
     fh_filename (fh_close w) = fh_filename w \<and>
     files (fh_close w) = (case fd w of None \<Rightarrow> files w
       | Some held \<Rightarrow> (case files w (fh_filename w) of None \<Rightarrow> files w
           | Some c \<Rightarrow> (files w)(fh_filename w \<mapsto> c @ held)))"
  using assms by (auto simp: fh_close_def Let_def split: option.split)

lemma fh_open_ok:
  assumes "outcomes w = []"
  shows "\<exists>w'. fh_open fname trunc w = Inr (None, w') \<and> outcomes w' = [] \<and> fd w' = Some [] \<and> fh_filename w' = fname \<and>
     files w' = (files (fh_close w))(fname \<mapsto> if trunc then [] else content fname (fh_close w)) \<and>
     (\<forall>d\<in>set (dirs w'). d \<in> set (dirs w) \<or> prefix d (dir_name fname))"
proof -
  let ?w = "fires before_open (Before_open fname) ((fh_close w)\<lparr>fh_filename := fname\<rparr>)"
  note closed = fh_close_ok [OF assms]
  have "outcomes ?w = []" using closed by simp
  from create_dir_ok [OF this, of "dir_name fname"] obtain b ds where
    dir: "create_dir (dir_name fname) ?w = (b, ?w\<lparr>dirs := ds @ dirs ?w\<rparr>)" "\<forall>d\<in>set ds. prefix d (dir_name fname)" by blast
  obtain n where five: "open_tries = Suc n" using open_tries_def by (metis numeral_eq_Suc)
  show ?thesis
    using dir closed
    by (cases trunc) (auto simp: fh_open_def five fopen_wb_def fopen_ab_def append_file_def split: option.split)
qed

section \<open>Names and extensions\<close>

lemma find_last_Some: "find_last c s = Some k \<Longrightarrow> k < length s"
proof -
  have "find_index x xs = Some i \<Longrightarrow> i < length xs" for x :: char and xs i
    by (induction xs arbitrary: i) (auto split: if_splits)
  then show "find_last c s = Some k \<Longrightarrow> k < length s"
    by (fastforce simp: find_last_def split: option.splits)
qed

lemma split_by_extension_append: "split_by_extension f = (b, x) \<Longrightarrow> b @ x = f"
  by (auto simp: split_by_extension_def split: option.splits if_splits)

lemma dir_name_shorter: "f \<noteq> [] \<Longrightarrow> length (dir_name f) < length f"
  using find_last_Some by (auto simp: dir_name_def split: option.split)

section \<open>Sequences of messages\<close>

text \<open>Messages handed to a sink one after the other, up to the first exception.\<close>

fun log_each :: "('m \<Rightarrow> 's \<Rightarrow> 's thrown) \<Rightarrow> 'm list \<Rightarrow> 's \<Rightarrow> 's thrown" where
  "log_each sink [] s = Inr (None, s)"
| "log_each sink (m # ms) s = try_then (sink m s) (log_each sink ms)"

text \<open>
  The contract of a sink that implements an abstract one: a step of the sink from a state with the invariant does not throw and
  does to the abstract state what \<open>spec\<close> says.
\<close>

locale refined_sink =
  fixes sink :: "'m \<Rightarrow> 's \<Rightarrow> 's thrown" and spec :: "'m \<Rightarrow> 'a \<Rightarrow> 'a" and abstract :: "'s \<Rightarrow> 'a" and inv :: "'s \<Rightarrow> bool"
    and fits :: "'m \<Rightarrow> bool"
  assumes sink_law: "inv s \<Longrightarrow> fits m \<Longrightarrow> \<exists>s'. sink m s = Inr (None, s') \<and> inv s' \<and> abstract s' = spec m (abstract s)"
begin

lemma log_each_refines:
  "inv s \<Longrightarrow> \<forall>m\<in>set ms. fits m \<Longrightarrow> \<exists>s'. log_each sink ms s = Inr (None, s') \<and> inv s' \<and> abstract s' = fold spec ms (abstract s)"
proof (induction ms arbitrary: s)
  case (Cons m ms)
  then show ?case using sink_law [of s m] by fastforce
qed simp

end

text \<open>A disk without files, for examples.\<close>

definition no_handlers :: file_event_handlers where
  "no_handlers = \<lparr>before_open = False, after_open = False, before_close = False, after_close = False\<rparr>"

definition empty_disk :: file_world where
  "empty_disk = \<lparr>files = \<lambda>n. None, dirs = [], outcomes = [], file_events = [], sleeps = 0, fd = None, fh_filename = [],
     event_handlers = no_handlers\<rparr>"

lemma five_tries: "open_tries = Suc (Suc (Suc (Suc (Suc 0))))"
  by (simp add: open_tries_def)

end
