(* ===== verification/Rotating_Sink.thy ===== *)
theory Rotating_Sink
  imports File_Helper
begin

text \<open>
  The rotating file sink (\<open>sinks/rotating_file_sink(-inl).h\<close>). The text of a message is what the formatter of the sink made of it;
  the mutex of the base class makes each operation a single step.
\<close>

record rotating_file_sink =
  base_filename :: string
  max_size :: nat
  max_files :: nat
  current_size :: nat
  rs_file :: file_world

definition on_file :: "(file_world \<Rightarrow> file_world thrown) \<Rightarrow> rotating_file_sink \<Rightarrow> rotating_file_sink thrown" where
  "on_file f s = andthen (f (rs_file s)) (\<lambda>(ex, w). Inr (ex, s\<lparr>rs_file := w\<rparr>))"

definition calc_filename :: "string \<Rightarrow> nat \<Rightarrow> string" where
  "calc_filename fname index =
     (if index = 0 then fname
      else (let (base, ext) = split_by_extension fname in base @ ''.'' @ print_nat index @ ext))"

definition rename_file :: "string \<Rightarrow> string \<Rightarrow> file_world \<Rightarrow> bool \<times> file_world" where
  "rename_file src target w = (let (_, w) = os_remove target w in os_rename src target w)"

text \<open>The loop of \<open>rotate_\<close> for the indices \<open>i\<close>, ..., 1.\<close>

fun rotate_loop :: "nat \<Rightarrow> rotating_file_sink \<Rightarrow> rotating_file_sink thrown" where
  "rotate_loop 0 s = Inr (None, s)"
| "rotate_loop (Suc i) s =
     (let src = calc_filename (base_filename s) i; target = calc_filename (base_filename s) (Suc i)
      in if \<not> path_exists src (rs_file s) then rotate_loop i s
         else (let (ok, w) = rename_file src target (rs_file s)
               in if ok then rotate_loop i (s\<lparr>rs_file := w\<rparr>)
                  else (let (ok, w) = rename_file src target (sleep_for_millis 100 w)
                        in if ok then rotate_loop i (s\<lparr>rs_file := w\<rparr>)
                           else try_then (on_file (fh_reopen True) (s\<lparr>rs_file := w\<rparr>)) (\<lambda>s.
                             Inr (Some (''rotating_file_sink: failed renaming '' @ src @ '' to '' @ target), s\<lparr>current_size := 0\<rparr>)))))"

definition rotate_files :: "rotating_file_sink \<Rightarrow> rotating_file_sink thrown" where
  "rotate_files s =
     try_then (rotate_loop (max_files s) (s\<lparr>rs_file := fh_close (rs_file s)\<rparr>)) (on_file (fh_reopen True))"

definition with_file_size ::
  "rotating_file_sink \<Rightarrow> (nat \<Rightarrow> rotating_file_sink \<Rightarrow> rotating_file_sink thrown) \<Rightarrow> rotating_file_sink thrown" where
  "with_file_size s f =
     (case fh_size (rs_file s) of (Inl e, w) \<Rightarrow> Inr (Some e, s\<lparr>rs_file := w\<rparr>) | (Inr n, w) \<Rightarrow> f n (s\<lparr>rs_file := w\<rparr>))"

definition rot_write :: "string \<Rightarrow> nat \<Rightarrow> rotating_file_sink \<Rightarrow> rotating_file_sink thrown" where
  "rot_write formatted new_size s =
     try_then (on_file (fh_write formatted) s) (\<lambda>s. Inr (None, s\<lparr>current_size := new_size\<rparr>))"

definition rot_sink_it :: "string \<Rightarrow> rotating_file_sink \<Rightarrow> rotating_file_sink thrown" where
  "rot_sink_it formatted s =
     (let new_size = usize_add (current_size s) (length formatted)
      in if new_size > max_size s
         then try_then (on_file fh_flush s) (\<lambda>s. with_file_size s (\<lambda>n s.
           if n > 0 then try_then (rotate_files s) (rot_write formatted (length formatted))
           else rot_write formatted new_size s))
         else rot_write formatted new_size s)"

definition rot_flush :: "rotating_file_sink \<Rightarrow> rotating_file_sink thrown" where
  "rot_flush s = on_file fh_flush s"

definition rotating_file_sink_new ::
  "string \<Rightarrow> nat \<Rightarrow> nat \<Rightarrow> bool \<Rightarrow> file_event_handlers \<Rightarrow> file_world \<Rightarrow> rotating_file_sink thrown" where
  "rotating_file_sink_new base bytes count rotate_on_open handlers w =
     (let s = \<lparr>base_filename = base, max_size = bytes, max_files = count, current_size = 0, rs_file = file_helper_new handlers w\<rparr>
      in if bytes = 0 then Inr (Some ''rotating sink constructor: max_size arg cannot be zero'', s)
         else if count > 200000 then Inr (Some ''rotating sink constructor: max_files arg cannot exceed 200000'', s)
         else try_then (on_file (fh_open (calc_filename base 0) False) s) (\<lambda>s. with_file_size s (\<lambda>n s.
           if rotate_on_open \<and> n > 0
           then try_then (rotate_files (s\<lparr>current_size := n\<rparr>)) (\<lambda>s. Inr (None, s\<lparr>current_size := 0\<rparr>))
           else Inr (None, s\<lparr>current_size := n\<rparr>))))"

section \<open>Names of the files\<close>

lemma calc_filename_inj: "calc_filename f i = calc_filename f j \<Longrightarrow> i = j"
proof -
  obtain b x where bx: "split_by_extension f = (b, x)" by fastforce
  have "length f = length b + length x" using split_by_extension_append [OF bx] by (metis length_append)
  then have len: "length (calc_filename f k) = (if k = 0 then length f else length f + 1 + length (print_nat k))" for k
    by (simp add: calc_filename_def bx)
  assume eq: "calc_filename f i = calc_filename f j"
  from arg_cong [OF eq, of length] have zero: "i = 0 \<longleftrightarrow> j = 0" unfolding len by (auto split: if_splits)
  show "i = j"
  proof (cases "i = 0")
    case False
    with zero eq have "print_nat i = print_nat j" by (simp add: calc_filename_def bx)
    then show ?thesis by (simp add: print_nat_inj)
  qed (use zero in simp)
qed

lemma length_calc_filename: "length f \<le> length (calc_filename f i)"
proof -
  obtain b x where bx: "split_by_extension f = (b, x)" by fastforce
  have "length f = length b + length x" using split_by_extension_append [OF bx] by (metis length_append)
  then show ?thesis by (simp add: calc_filename_def bx)
qed

text \<open>The content of the files after the loop, by index.\<close>

definition shifted :: "(nat \<Rightarrow> string option) \<Rightarrow> nat \<Rightarrow> nat \<Rightarrow> string option" where
  "shifted F n i =
     (if i > n then F i
      else if i = n then (if n = 0 then F 0 else case F (n - 1) of Some x \<Rightarrow> Some x | None \<Rightarrow> F n)
      else if i = 0 then None else F (i - 1))"

lemma shifted_Suc:
  "shifted F (Suc n) = shifted (case F n of Some x \<Rightarrow> F(Suc n \<mapsto> x, n := None) | None \<Rightarrow> F) n"
proof
  fix i
  consider "i > Suc n" | "i = Suc n" | "i = n" | "i < n" by linarith
  then show "shifted F (Suc n) i = shifted (case F n of Some x \<Rightarrow> F(Suc n \<mapsto> x, n := None) | None \<Rightarrow> F) n i"
    by cases (auto simp: shifted_def split: option.split)
qed

lemma rename_file_ok:
  assumes "outcomes w = []" and "files w src = Some x" and "src \<noteq> target"
  shows "rename_file src target w = (True, w\<lparr>files := (files w)(src := None, target \<mapsto> x)\<rparr>)"
  using assms by (simp add: rename_file_def os_remove_def os_rename_def fun_upd_twist)

lemma rotate_loop_ok:
  assumes "outcomes (rs_file s) = []" and "\<forall>d\<in>set (dirs (rs_file s)). \<forall>i<n. d \<noteq> calc_filename (base_filename s) i"
  shows "\<exists>G. rotate_loop n s = Inr (None, s\<lparr>rs_file := (rs_file s)\<lparr>files := G\<rparr>\<rparr>) \<and>
     (\<forall>i. G (calc_filename (base_filename s) i) = shifted (\<lambda>i. files (rs_file s) (calc_filename (base_filename s) i)) n i)"
  using assms
proof (induction n arbitrary: s)
  case 0
  show ?case by (auto simp: shifted_def intro!: exI [of _ "files (rs_file s)"])
next
  case (Suc n)
  let ?c = "calc_filename (base_filename s)" and ?w = "rs_file s"
  let ?F = "\<lambda>i. files ?w (?c i)"
  have dirs: "\<forall>d\<in>set (dirs ?w). \<forall>i<n. d \<noteq> ?c i" using Suc.prems(2) by simp
  have exists: "path_exists (?c n) ?w \<longleftrightarrow> ?F n \<noteq> None" using Suc.prems(2) by (auto simp: path_exists_def)
  show ?case
  proof (cases "?F n")
    case None
    with exists Suc.IH [of s] Suc.prems(1) dirs show ?thesis by (simp add: shifted_Suc)
  next
    case (Some x)
    have ne: "?c n \<noteq> ?c (Suc n)" using calc_filename_inj by (metis n_not_Suc_n)
    let ?s = "s\<lparr>rs_file := ?w\<lparr>files := (files ?w)(?c n := None, ?c (Suc n) \<mapsto> x)\<rparr>\<rparr>"
    have "(\<lambda>i. files (rs_file ?s) (calc_filename (base_filename ?s) i)) = ?F(Suc n \<mapsto> x, n := None)"
      using calc_filename_inj by (fastforce simp: fun_eq_iff)
    with Suc.IH [of ?s] Suc.prems(1) dirs exists Some rename_file_ok [OF Suc.prems(1) Some ne] show ?thesis
      by (simp add: shifted_Suc)
  qed
qed

section \<open>The contents, newest file first\<close>

definition rot_ok :: "string list \<Rightarrow> rotating_file_sink \<Rightarrow> bool" where
  "rot_ok L s \<longleftrightarrow> L \<noteq> [] \<and> length L \<le> Suc (max_files s) \<and> base_filename s \<noteq> [] \<and>
     outcomes (rs_file s) = [] \<and> fh_filename (rs_file s) = base_filename s \<and> current_size s = length (hd L) \<and>
     (\<exists>held c. fd (rs_file s) = Some held \<and> files (rs_file s) (base_filename s) = Some c \<and> hd L = c @ held) \<and>
     (\<forall>i. 0 < i \<longrightarrow> i \<le> max_files s \<longrightarrow>
        files (rs_file s) (calc_filename (base_filename s) i) = (if i < length L then Some (L ! i) else None)) \<and>
     (\<forall>d\<in>set (dirs (rs_file s)). \<forall>i. d \<noteq> calc_filename (base_filename s) i)"

text \<open>What a message does to the contents: it goes to the newest file, or into a new one.\<close>

definition rotated_log :: "nat \<Rightarrow> nat \<Rightarrow> string \<Rightarrow> string list \<Rightarrow> string list" where
  "rotated_log limit count t L =
     (if length (hd L) + length t \<le> limit \<or> hd L = [] then (hd L @ t) # tl L else t # take count L)"

definition same_config :: "rotating_file_sink \<Rightarrow> rotating_file_sink \<Rightarrow> bool" where
  "same_config s s' \<longleftrightarrow> base_filename s' = base_filename s \<and> max_size s' = max_size s \<and> max_files s' = max_files s"

lemma rot_ok_size: "rot_ok L s \<Longrightarrow> rot_ok L (s\<lparr>current_size := length (hd L)\<rparr>)"
  by (simp add: rot_ok_def)

lemma rot_write_ok:
  assumes "rot_ok L (s\<lparr>current_size := length (hd L)\<rparr>)" and "n = length (hd L) + length t"
  shows "\<exists>s'. rot_write t n s = Inr (None, s') \<and> same_config s s' \<and> rot_ok ((hd L @ t) # tl L) s'"
proof -
  from assms(1) obtain held c where h: "fd (rs_file s) = Some held" "files (rs_file s) (base_filename s) = Some c"
    "hd L = c @ held" "outcomes (rs_file s) = []" by (auto simp: rot_ok_def)
  let ?s = "s\<lparr>rs_file := (rs_file s)\<lparr>fd := Some (held @ t)\<rparr>, current_size := n\<rparr>"
  have "rot_write t n s = Inr (None, ?s)" using h by (simp add: rot_write_def on_file_def fh_write_def)
  moreover have "rot_ok ((hd L @ t) # tl L) ?s"
    using assms h by (cases L) (auto simp: rot_ok_def nth_Cons split: nat.split)
  ultimately show ?thesis by (simp add: same_config_def)
qed

lemma rot_flush_ok:
  assumes "rot_ok L s"
  shows "\<exists>s'. on_file fh_flush s = Inr (None, s') \<and> same_config s s' \<and> rot_ok L s' \<and> current_size s' = current_size s \<and>
     fd (rs_file s') = Some [] \<and> files (rs_file s') (base_filename s) = Some (hd L)"
proof -
  from assms obtain held c where h: "fd (rs_file s) = Some held" "files (rs_file s) (base_filename s) = Some c"
    "hd L = c @ held" "outcomes (rs_file s) = []" "fh_filename (rs_file s) = base_filename s" by (auto simp: rot_ok_def)
  let ?s = "s\<lparr>rs_file := (append_file (base_filename s) held (rs_file s))\<lparr>fd := Some []\<rparr>\<rparr>"
  have "on_file fh_flush s = Inr (None, ?s)" using h by (simp add: on_file_def fh_flush_def)
  moreover have "files (rs_file ?s) (calc_filename (base_filename s) i) = files (rs_file s) (calc_filename (base_filename s) i)"
    if "0 < i" for i
    using calc_filename_inj [of "base_filename s" i 0] that by (auto simp: calc_filename_def append_file_def h(2))
  with assms h have "rot_ok L ?s" unfolding rot_ok_def by simp
  ultimately show ?thesis using h by (simp add: same_config_def)
qed

lemma rotate_files_ok:
  assumes "rot_ok L s" and "fd (rs_file s) = Some []" and "files (rs_file s) (base_filename s) = Some (hd L)"
  shows "\<exists>s'. rotate_files s = Inr (None, s') \<and> same_config s s' \<and>
     rot_ok ([] # take (max_files s) L) (s'\<lparr>current_size := 0\<rparr>)"
proof -
  let ?base = "base_filename s" and ?n = "max_files s"
  let ?c = "calc_filename ?base" and ?w = "fh_close (rs_file s)"
  have out: "outcomes (rs_file s) = []" and name: "fh_filename (rs_file s) = ?base" and base: "?base \<noteq> []"
    using assms(1) by (simp_all add: rot_ok_def)
  note closed = fh_close_ok [OF out]
  have files_w: "files ?w = files (rs_file s)"
    using closed assms(2,3) name by (auto simp: content_def)
  have slot: "files (rs_file s) (?c i) = (if i < length L then Some (L ! i) else None)" if "i \<le> ?n" for i
    using assms(1,3) that by (cases "i = 0") (auto simp: rot_ok_def calc_filename_def hd_conv_nth)
  let ?s = "s\<lparr>rs_file := ?w\<rparr>"
  have "outcomes (rs_file ?s) = []" "\<forall>d\<in>set (dirs (rs_file ?s)). \<forall>i<?n. d \<noteq> calc_filename (base_filename ?s) i"
    using closed assms(1) by (auto simp: rot_ok_def)
  from rotate_loop_ok [OF this] obtain G where G: "rotate_loop ?n ?s = Inr (None, ?s\<lparr>rs_file := ?w\<lparr>files := G\<rparr>\<rparr>)"
    "\<And>i. G (?c i) = shifted (\<lambda>i. files (rs_file s) (?c i)) ?n i" using files_w by auto
  let ?w2 = "?w\<lparr>files := G\<rparr>"
  have "outcomes ?w2 = []" "fd ?w2 = None" using closed by simp_all
  moreover from this have "fh_close ?w2 = ?w2" by (simp add: fh_close_def)
  ultimately obtain w3 where w3: "fh_open ?base True ?w2 = Inr (None, w3)" "outcomes w3 = []" "fd w3 = Some []"
    "fh_filename w3 = ?base" "files w3 = G(?base \<mapsto> [])"
    "\<forall>d\<in>set (dirs w3). d \<in> set (dirs (rs_file s)) \<or> prefix d (dir_name ?base)"
    using fh_open_ok [of ?w2 ?base True] closed by auto
  let ?s3 = "s\<lparr>rs_file := w3\<rparr>"
  have run: "rotate_files s = Inr (None, ?s3)"
    using G(1) w3(1) name base closed by (simp add: rotate_files_def on_file_def fh_reopen_def)
  have ne: "?c i \<noteq> ?base" if "0 < i" for i
    using calc_filename_inj [of ?base i 0] that by (auto simp: calc_filename_def)
  have "files w3 (?c i) = (if i < length ([] # take ?n L) then Some (([] # take ?n L) ! i) else None)" if "0 < i" "i \<le> ?n" for i
    using slot [of "i - 1"] slot [of i] that ne [OF that(1)] w3(5) G(2) [of i]
    by (auto simp: shifted_def nth_Cons' split: option.split)
  moreover have "\<forall>d\<in>set (dirs w3). \<forall>i. d \<noteq> ?c i"
  proof (intro ballI allI notI)
    fix d i
    assume d: "d \<in> set (dirs w3)" "d = ?c i"
    with assms(1) have "d \<notin> set (dirs (rs_file s))" by (auto simp: rot_ok_def)
    with w3(6) d have "length (?c i) \<le> length (dir_name ?base)" by (auto dest: prefix_length_le)
    with length_calc_filename [of ?base i] dir_name_shorter [OF base] show False by simp
  qed
  ultimately have "rot_ok ([] # take ?n L) (?s3\<lparr>current_size := 0\<rparr>)"
    using base w3(2-5) by (auto simp: rot_ok_def)
  with run show ?thesis by (simp add: same_config_def)
qed

lemma rot_sink_it_refines:
  assumes "rot_ok L s" and "length (hd L) + length t < 2 ^ 64"
  shows "\<exists>s'. rot_sink_it t s = Inr (None, s') \<and> same_config s s' \<and>
     rot_ok (rotated_log (max_size s) (max_files s) t L) s'"
proof -
  have cur: "current_size s = length (hd L)" using assms(1) by (simp add: rot_ok_def)
  have sum: "usize_add (current_size s) (length t) = length (hd L) + length t"
    using assms(2) cur by (simp add: usize_add_bounded)
  show ?thesis
  proof (cases "length (hd L) + length t \<le> max_size s")
    case True
    with rot_write_ok [OF rot_ok_size [OF assms(1)] refl, of t] sum show ?thesis by (simp add: rot_sink_it_def rotated_log_def)
  next
    case False
    from rot_flush_ok [OF assms(1)] obtain s1 where s1: "on_file fh_flush s = Inr (None, s1)" "same_config s s1" "rot_ok L s1"
      "fd (rs_file s1) = Some []" "files (rs_file s1) (base_filename s) = Some (hd L)" by blast
    from s1(2) have cfg: "base_filename s1 = base_filename s" "max_files s1 = max_files s" "max_size s1 = max_size s"
      by (simp_all add: same_config_def)
    have "fh_filename (rs_file s1) = base_filename s" "outcomes (rs_file s1) = []" using s1(3) cfg by (simp_all add: rot_ok_def)
    then have size: "with_file_size s1 f = f (length (hd L)) s1" for f
      using s1(4,5) by (simp add: with_file_size_def fh_size_def content_def)
    show ?thesis
    proof (cases "hd L = []")
      case True
      with rot_write_ok [OF rot_ok_size [OF s1(3)] refl, of t] False sum s1(1) size s1(2) show ?thesis
        by (auto simp: rot_sink_it_def rotated_log_def same_config_def)
    next
      case ne: False
      from rotate_files_ok [OF s1(3,4)] s1(5) cfg obtain s2 where s2: "rotate_files s1 = Inr (None, s2)" "same_config s1 s2"
        "rot_ok ([] # take (max_files s) L) (s2\<lparr>current_size := 0\<rparr>)" by auto
      from s2(3) rot_write_ok [of "[] # take (max_files s) L" s2 "length t" t] obtain s3 where
        "rot_write t (length t) s2 = Inr (None, s3)" "same_config s2 s3" "rot_ok (t # take (max_files s) L) s3"
        by (auto simp: same_config_def)
      with False ne sum s1(1,2) size s2 show ?thesis
        by (auto simp: rot_sink_it_def rotated_log_def same_config_def)
    qed
  qed
qed

text \<open>A sequence of messages.\<close>

fun rot_log_all :: "string list \<Rightarrow> rotating_file_sink \<Rightarrow> rotating_file_sink thrown" where
  "rot_log_all [] s = Inr (None, s)"
| "rot_log_all (t # ts) s = try_then (rot_sink_it t s) (rot_log_all ts)"

definition bounded_log :: "nat \<Rightarrow> nat \<Rightarrow> string list \<Rightarrow> bool" where
  "bounded_log B n L \<longleftrightarrow> L \<noteq> [] \<and> length L \<le> Suc n \<and> (\<forall>f\<in>set L. length f \<le> B)"

lemma rotated_log_bounded:
  assumes "bounded_log B n L" and "limit \<le> B" and "length t \<le> B"
  shows "bounded_log B n (rotated_log limit n t L)"
  using assms by (auto simp: bounded_log_def rotated_log_def dest: in_set_takeD list.set_sel)

lemma rot_log_all_refines:
  assumes "rot_ok L s" and "bounded_log B (max_files s) L" and "max_size s \<le> B" and "B < 2 ^ 63"
    and "\<forall>t\<in>set ts. length t \<le> B"
  shows "\<exists>s'. rot_log_all ts s = Inr (None, s') \<and> same_config s s' \<and>
     rot_ok (fold (rotated_log (max_size s) (max_files s)) ts L) s'"
  using assms
proof (induction ts arbitrary: L s)
  case (Cons t ts)
  have "length (hd L) \<le> B" using Cons.prems(2) by (cases L) (auto simp: bounded_log_def)
  with Cons.prems(4,5) have "length (hd L) + length t < 2 ^ 64" by simp
  from rot_sink_it_refines [OF Cons.prems(1) this] obtain s1 where s1: "rot_sink_it t s = Inr (None, s1)" "same_config s s1"
    "rot_ok (rotated_log (max_size s) (max_files s) t L) s1" by blast
  have "bounded_log B (max_files s) (rotated_log (max_size s) (max_files s) t L)"
    using rotated_log_bounded Cons.prems(2,3,5) by simp
  with Cons.IH [OF s1(3)] s1(1,2) Cons.prems(3-5) show ?case by (auto simp: same_config_def)
qed (simp add: same_config_def)

lemma fold_rotated_bounded:
  "bounded_log B n L \<Longrightarrow> limit \<le> B \<Longrightarrow> \<forall>t\<in>set ts. length t \<le> B \<Longrightarrow> bounded_log B n (fold (rotated_log limit n) ts L)"
  by (induction ts arbitrary: L) (simp_all add: rotated_log_bounded)

lemma rotated_log_length: "L \<noteq> [] \<Longrightarrow> length L \<le> Suc n \<Longrightarrow> length L \<le> length (rotated_log limit n t L)"
  by (cases L) (auto simp: rotated_log_def)

lemma fold_rotated_length:
  "bounded_log B n L \<Longrightarrow> limit \<le> B \<Longrightarrow> \<forall>t\<in>set ts. length t \<le> B \<Longrightarrow> length L \<le> length (fold (rotated_log limit n) ts L)"
proof (induction ts arbitrary: L)
  case (Cons t ts)
  then have "length L \<le> length (rotated_log limit n t L)" by (simp add: rotated_log_length bounded_log_def)
  also have "\<dots> \<le> length (fold (rotated_log limit n) ts (rotated_log limit n t L))"
    using Cons by (simp add: rotated_log_bounded)
  finally show ?case by simp
qed simp

lemma rotated_log_text:
  assumes "L \<noteq> []"
  shows "suffix (concat (rev (rotated_log limit n t L))) (concat (rev L) @ t) \<and>
     (length (rotated_log limit n t L) \<le> n \<longrightarrow> concat (rev (rotated_log limit n t L)) = concat (rev L) @ t)"
proof -
  have split: "concat (rev L) = concat (rev (drop n L)) @ concat (rev (take n L))"
    by (metis append_take_drop_id concat_append rev_append)
  show ?thesis
  proof (cases "length (hd L) + length t \<le> limit \<or> hd L = []")
    case True
    then have L: "rotated_log limit n t L = (hd L @ t) # tl L" unfolding rotated_log_def by simp
    have joined: "concat (rev ((hd L @ t) # tl L)) = concat (rev L) @ t" using assms by (cases L) auto
    show ?thesis unfolding L joined by simp
  next
    case False
    then have L: "rotated_log limit n t L = t # take n L" unfolding rotated_log_def by simp
    have "suffix (concat (rev (take n L)) @ t) (concat (rev L) @ t)" unfolding split by (simp add: suffix_def)
    moreover have "length (t # take n L) \<le> n \<Longrightarrow> take n L = L" by (simp add: min_def split: if_splits)
    ultimately show ?thesis unfolding L by simp
  qed
qed

lemma fold_rotated_text:
  assumes "bounded_log B n L" and "limit \<le> B" and "\<forall>t\<in>set ts. length t \<le> B"
  shows "suffix (concat (rev (fold (rotated_log limit n) ts L))) (concat (rev L) @ concat ts) \<and>
     (length (fold (rotated_log limit n) ts L) \<le> n \<longrightarrow>
        concat (rev (fold (rotated_log limit n) ts L)) = concat (rev L) @ concat ts)"
  using assms
proof (induction ts arbitrary: L)
  case (Cons t ts)
  let ?L = "rotated_log limit n t L"
  have b: "bounded_log B n ?L" using Cons.prems by (simp add: rotated_log_bounded)
  have "L \<noteq> []" using Cons.prems(1) by (simp add: bounded_log_def)
  note one = rotated_log_text [OF this, of limit n t]
  have "length ?L \<le> length (fold (rotated_log limit n) ts ?L)"
    using fold_rotated_length [OF b Cons.prems(2)] Cons.prems(3) by simp
  moreover from one have "suffix (concat (rev ?L) @ concat ts) (concat (rev L) @ t @ concat ts)"
    by (auto simp: suffix_def)
  ultimately show ?case
    using Cons.IH [OF b Cons.prems(2)] Cons.prems(3) one by (auto dest: suffix_order.trans)
qed simp

section \<open>Properties\<close>



text \<open>A sink on the file \<open>a.log\<close> with a limit of five characters and two old files.\<close>

definition sample_rot :: rotating_file_sink where
  "sample_rot = \<lparr>base_filename = ''a.log'', max_size = 5, max_files = 2, current_size = 0,
     rs_file = empty_disk\<lparr>files := [''a.log'' \<mapsto> []], fd := Some [], fh_filename := ''a.log''\<rparr>\<rparr>"

lemma sample_rot_new: "rotating_file_sink_new ''a.log'' 5 2 False no_handlers empty_disk = Inr (None, sample_rot)"
  by (simp add: rotating_file_sink_new_def on_file_def calc_filename_def fh_open_def file_helper_new_def empty_disk_def
      five_tries fh_close_def fires_def no_handlers_def create_dir_def dir_name_def find_last_def
      folder_seps_def path_exists_def fopen_ab_def append_file_def content_def with_file_size_def fh_size_def sample_rot_def)

lemma sample_rot_ok: "rot_ok [[]] sample_rot"
proof -
  have "calc_filename ''a.log'' i \<noteq> ''a.log''" if "0 < i" for i
    using calc_filename_inj [of "''a.log''" i 0] that by (auto simp: calc_filename_def)
  then show ?thesis by (auto simp: rot_ok_def sample_rot_def empty_disk_def)
qed



text \<open>Opening fails when every attempt to truncate the file fails; the stream stays closed.\<close>

lemma fh_open_loop_fails:
  assumes "outcomes w = replicate n (Fails 0)" and "dir_name fname = []" and "\<not> path_exists [] w"
  shows "\<exists>w'. fh_open_loop n fname True w = Inr (Some (''Failed opening file '' @ fh_filename w @ '' for writing''), w') \<and>
     fd w' = fd w"
  using assms
proof (induction n arbitrary: w)
  case (Suc n)
  let ?w = "w\<lparr>outcomes := replicate n (Fails 0)\<rparr>"
  have "\<not> path_exists [] ?w" using Suc.prems(3) by (simp add: path_exists_def)
  with Suc.IH [of ?w] Suc.prems show ?case by (simp add: create_dir_def fopen_wb_def next_outcome_def)
qed simp



end
