(* ===== verification/Dated_Sinks.thy ===== *)
theory Dated_Sinks
  imports File_Helper Circular_Q
begin

text \<open>
  The file sinks that do not look at the size of their file: one file (\<open>sinks/basic_file_sink(-inl).h\<close>), a file per day
  (\<open>sinks/daily_file_sink.h\<close>) and a file per hour (\<open>sinks/hourly_file_sink.h\<close>). The last two keep the names of their
  files in a circular queue and remove the oldest one when the queue is full.
  \<open>localtime\<close>, \<open>mktime\<close> and the template argument \<open>FileNameCalc\<close> are an environment; a reading of the clock is an
  argument of the operation that takes it. The text of a message is what the formatter of the sink made of it.
\<close>

section \<open>One file\<close>

definition basic_file_sink_new :: "string \<Rightarrow> bool \<Rightarrow> file_event_handlers \<Rightarrow> file_world \<Rightarrow> file_world thrown" where
  "basic_file_sink_new fname trunc h w = fh_open fname trunc (file_helper_new h w)"

definition basic_sink_it :: "string \<Rightarrow> file_world \<Rightarrow> file_world thrown" where
  "basic_sink_it formatted w = fh_write formatted w"

definition basic_flush :: "file_world \<Rightarrow> file_world thrown" where
  "basic_flush w = fh_flush w"

section \<open>Names with a date\<close>

record dated_env =
  os_localtime :: "int \<Rightarrow> tm"
  std_mktime :: "tm \<Rightarrow> int"
  file_name_calc :: "string \<Rightarrow> tm \<Rightarrow> string res"

definition ymd_text :: "tm \<Rightarrow> string res" where
  "ymd_text t = check Int_overflow (tm_year t + 1900 < 2 ^ 31 \<and> tm_mon t + 1 < 2 ^ 31)
     (Inr (print_int0 4 (tm_year t + 1900) @ ''-'' @ print_int0 2 (tm_mon t + 1) @ ''-'' @ print_int0 2 (tm_mday t)))"

definition daily_calc_filename :: "string \<Rightarrow> tm \<Rightarrow> string res" where
  "daily_calc_filename fname t =
     (let (base, ext) = split_by_extension fname
      in andthen (ymd_text t) (\<lambda>d. Inr (base @ ''_'' @ d @ ext)))"

definition hourly_calc_filename :: "string \<Rightarrow> tm \<Rightarrow> string res" where
  "hourly_calc_filename fname t =
     (let (base, ext) = split_by_extension fname
      in andthen (ymd_text t) (\<lambda>d. Inr (base @ ''_'' @ d @ ''_'' @ print_int0 2 (tm_hour t) @ ext)))"

definition hours :: "int \<Rightarrow> int" where
  "hours n = n * 3600 * 10 ^ 9"

definition now_tm :: "dated_env \<Rightarrow> int \<Rightarrow> tm" where
  "now_tm E tp = os_localtime E (secs_of tp)"

section \<open>The common part of the two sinks\<close>

record dated_file_sink =
  ds_base_filename :: string
  rotation_tp :: int
  ds_file :: file_world
  ds_truncate :: bool
  ds_max_files :: nat
  filenames_q :: "string circular_q"

record daily_file_sink = dated_file_sink +
  rotation_h :: int
  rotation_m :: int

record hourly_file_sink = dated_file_sink +
  remove_init_file :: bool

definition dated_filename :: "dated_env \<Rightarrow> int \<Rightarrow> 'a dated_file_sink_scheme \<Rightarrow> string res" where
  "dated_filename E tp s = file_name_calc E (ds_base_filename s) (now_tm E tp)"

definition in_file :: "(file_world \<Rightarrow> file_world thrown) \<Rightarrow> 'a dated_file_sink_scheme \<Rightarrow> 'a dated_file_sink_scheme thrown" where
  "in_file f s = andthen (f (ds_file s)) (\<lambda>(ex, w). Inr (ex, s\<lparr>ds_file := w\<rparr>))"

text \<open>The loop of \<open>init_filenames_q_\<close> with room for \<open>n\<close> more names: the files that exist, going back in time.\<close>

fun init_filenames_loop :: "dated_env \<Rightarrow> int \<Rightarrow> nat \<Rightarrow> int \<Rightarrow> 'a dated_file_sink_scheme \<Rightarrow> string list res" where
  "init_filenames_loop E back 0 now s = Inr []"
| "init_filenames_loop E back (Suc n) now s =
     andthen (dated_filename E now s) (\<lambda>f.
       if \<not> path_exists f (ds_file s) then Inr []
       else andthen (init_filenames_loop E back n (now - back) s) (\<lambda>fs. Inr (f # fs)))"

definition init_filenames_q :: "dated_env \<Rightarrow> int \<Rightarrow> int \<Rightarrow> 'a dated_file_sink_scheme \<Rightarrow> 'a dated_file_sink_scheme thrown" where
  "init_filenames_q E back now s =
     andthen (init_filenames_loop E back (ds_max_files s) now s) (\<lambda>fs.
       andthen (fold_res cq_push_back (rev fs) (circular_q_new [] (ds_max_files s))) (\<lambda>q.
         Inr (None, s\<lparr>filenames_q := q\<rparr>)))"

text \<open>\<open>kind\<close> is the word for the sink in the message of the exception.\<close>

definition delete_old :: "string \<Rightarrow> 'a dated_file_sink_scheme \<Rightarrow> 'a dated_file_sink_scheme thrown" where
  "delete_old kind s =
     (let current_file = fh_filename (ds_file s); q = filenames_q s
      in if cq_full q
         then andthen (cq_front q) (\<lambda>old_filename.
           andthen (cq_pop_front q) (\<lambda>q.
             let (ok, w) = remove_if_exists old_filename (ds_file s)
             in andthen (cq_push_back current_file q) (\<lambda>q.
                  Inr (if ok then None else Some (''Failed removing '' @ kind @ '' file '' @ old_filename),
                       s\<lparr>ds_file := w, filenames_q := q\<rparr>))))
         else andthen (cq_push_back current_file q) (\<lambda>q. Inr (None, s\<lparr>filenames_q := q\<rparr>)))"

definition dated_flush :: "'a dated_file_sink_scheme \<Rightarrow> 'a dated_file_sink_scheme thrown" where
  "dated_flush s = in_file fh_flush s"

section \<open>A file per day\<close>

definition daily_next_rotation_tp :: "dated_env \<Rightarrow> int \<Rightarrow> daily_file_sink \<Rightarrow> int" where
  "daily_next_rotation_tp E now s =
     (let date = (now_tm E now)\<lparr>tm_hour := rotation_h s, tm_min := rotation_m s, tm_sec := 0\<rparr>;
          rotation_time = std_mktime E date * 10 ^ 9
      in if rotation_time > now then rotation_time else rotation_time + hours 24)"

text \<open>The constructor reads the clock three times.\<close>

definition daily_file_sink_new ::
  "dated_env \<Rightarrow> int \<Rightarrow> int \<Rightarrow> int \<Rightarrow> string \<Rightarrow> int \<Rightarrow> int \<Rightarrow> bool \<Rightarrow> nat \<Rightarrow> file_event_handlers \<Rightarrow> file_world \<Rightarrow>
     daily_file_sink thrown" where
  "daily_file_sink_new E now1 now2 now3 base rotation_hour rotation_minute trunc max_n h w =
     (let s = \<lparr>ds_base_filename = base, rotation_tp = 0, ds_file = file_helper_new h w, ds_truncate = trunc,
               ds_max_files = max_n, filenames_q = circular_q_disabled, rotation_h = rotation_hour, rotation_m = rotation_minute\<rparr>
      in if rotation_hour < 0 \<or> rotation_hour > 23 \<or> rotation_minute < 0 \<or> rotation_minute > 59
         then Inr (Some ''daily_file_sink: Invalid rotation time in ctor'', s)
         else andthen (dated_filename E now1 s) (\<lambda>f.
           try_then (in_file (fh_open f trunc) s) (\<lambda>s.
             let s = s\<lparr>rotation_tp := daily_next_rotation_tp E now2 s\<rparr>
             in if ds_max_files s > 0 then init_filenames_q E (hours 24) now3 s else Inr (None, s))))"

definition daily_rotate :: "dated_env \<Rightarrow> int \<Rightarrow> int \<Rightarrow> daily_file_sink \<Rightarrow> daily_file_sink thrown" where
  "daily_rotate E time now s =
     andthen (dated_filename E time s) (\<lambda>f.
       try_then (in_file (fh_open f (ds_truncate s)) s) (\<lambda>s.
         Inr (None, s\<lparr>rotation_tp := daily_next_rotation_tp E now s\<rparr>)))"

definition daily_sink_it :: "dated_env \<Rightarrow> int \<times> int \<times> string \<Rightarrow> daily_file_sink \<Rightarrow> daily_file_sink thrown" where
  "daily_sink_it E m s =
     (let (time, now, formatted) = m; should_rotate = (time \<ge> rotation_tp s)
      in try_then (if should_rotate then daily_rotate E time now s else Inr (None, s)) (\<lambda>s.
           try_then (in_file (fh_write formatted) s) (\<lambda>s.
             if should_rotate \<and> ds_max_files s > 0 then delete_old ''daily'' s else Inr (None, s))))"

section \<open>A file per hour\<close>

definition hourly_next_rotation_tp :: "dated_env \<Rightarrow> int \<Rightarrow> hourly_file_sink \<Rightarrow> int" where
  "hourly_next_rotation_tp E now s =
     (let date = (now_tm E now)\<lparr>tm_min := 0, tm_sec := 0\<rparr>;
          rotation_time = std_mktime E date * 10 ^ 9
      in if rotation_time > now then rotation_time else rotation_time + hours 1)"

definition hourly_file_sink_new ::
  "dated_env \<Rightarrow> int \<Rightarrow> int \<Rightarrow> int \<Rightarrow> string \<Rightarrow> bool \<Rightarrow> nat \<Rightarrow> file_event_handlers \<Rightarrow> file_world \<Rightarrow> hourly_file_sink thrown" where
  "hourly_file_sink_new E now1 now2 now3 base trunc max_n h w =
     (let s = \<lparr>ds_base_filename = base, rotation_tp = 0, ds_file = file_helper_new h w, ds_truncate = trunc,
               ds_max_files = max_n, filenames_q = circular_q_disabled, remove_init_file = False\<rparr>
      in andthen (dated_filename E now1 s) (\<lambda>f.
           try_then (in_file (fh_open f trunc) s) (\<lambda>s.
             case fh_size (ds_file s) of
               (Inl e, w) \<Rightarrow> Inr (Some e, s\<lparr>ds_file := w\<rparr>)
             | (Inr n, w) \<Rightarrow>
                 (let s = s\<lparr>ds_file := w, remove_init_file := (n = 0)\<rparr>;
                      s = s\<lparr>rotation_tp := hourly_next_rotation_tp E now2 s\<rparr>
                  in if ds_max_files s > 0 then init_filenames_q E (hours 1) now3 s else Inr (None, s)))))"

definition hourly_rotate :: "dated_env \<Rightarrow> int \<Rightarrow> int \<Rightarrow> hourly_file_sink \<Rightarrow> hourly_file_sink thrown" where
  "hourly_rotate E time now s =
     (let s = (if remove_init_file s
               then (let w = fh_close (ds_file s) in s\<lparr>ds_file := snd (os_remove (fh_filename w) w)\<rparr>)
               else s)
      in andthen (dated_filename E time s) (\<lambda>f.
           try_then (in_file (fh_open f (ds_truncate s)) s) (\<lambda>s.
             Inr (None, s\<lparr>rotation_tp := hourly_next_rotation_tp E now s\<rparr>))))"

definition hourly_sink_it :: "dated_env \<Rightarrow> int \<times> int \<times> string \<Rightarrow> hourly_file_sink \<Rightarrow> hourly_file_sink thrown" where
  "hourly_sink_it E m s =
     (let (time, now, formatted) = m; should_rotate = (time \<ge> rotation_tp s)
      in try_then (if should_rotate then hourly_rotate E time now s else Inr (None, s)) (\<lambda>s.
           let s = s\<lparr>remove_init_file := False\<rparr>
           in try_then (in_file (fh_write formatted) s) (\<lambda>s.
                if should_rotate \<and> ds_max_files s > 0 then delete_old ''hourly'' s else Inr (None, s))))"

section \<open>The abstract sink\<close>

text \<open>
  What the sinks promise: the files with everything that was written to them, the current file, the files kept and the time of
  the next rotation. There are no streams and no queue here.
\<close>

record dated_log =
  dl_disk :: "string \<Rightarrow> string option"
  dl_current :: string
  dl_kept :: "string list"
  dl_next :: int

definition dl_append :: "string \<Rightarrow> dated_log \<Rightarrow> dated_log" where
  "dl_append t L =
     (case dl_disk L (dl_current L) of None \<Rightarrow> L | Some c \<Rightarrow> L\<lparr>dl_disk := (dl_disk L)(dl_current L \<mapsto> c @ t)\<rparr>)"

definition dl_open :: "bool \<Rightarrow> string \<Rightarrow> int \<Rightarrow> dated_log \<Rightarrow> dated_log" where
  "dl_open trunc f tp L =
     L\<lparr>dl_disk := (dl_disk L)(f \<mapsto> (if trunc then [] else case dl_disk L f of None \<Rightarrow> [] | Some c \<Rightarrow> c)),
       dl_current := f, dl_next := tp\<rparr>"

definition dl_retain :: "nat \<Rightarrow> dated_log \<Rightarrow> dated_log" where
  "dl_retain n L =
     (if n = 0 then L
      else L\<lparr>dl_disk := (if length (dl_kept L) = n then (dl_disk L)(hd (dl_kept L) := None) else dl_disk L),
             dl_kept := last_n n (dl_kept L @ [dl_current L])\<rparr>)"

text \<open>A message at \<open>time\<close>; when it rotates, \<open>f\<close> is the new file and \<open>tp\<close> the time of the rotation after it.\<close>

definition dl_log :: "nat \<Rightarrow> bool \<Rightarrow> int \<Rightarrow> string \<Rightarrow> int \<Rightarrow> string \<Rightarrow> dated_log \<Rightarrow> dated_log" where
  "dl_log n trunc time f tp t L =
     (if time \<ge> dl_next L then dl_retain n (dl_append t (dl_open trunc f tp L)) else dl_append t L)"

text \<open>The contents of the files, what the stream of the open file holds back included.\<close>

definition on_disk :: "file_world \<Rightarrow> string \<Rightarrow> string option" where
  "on_disk w =
     (case fd w of
        None \<Rightarrow> files w
      | Some held \<Rightarrow>
          (case files w (fh_filename w) of None \<Rightarrow> files w | Some c \<Rightarrow> (files w)(fh_filename w \<mapsto> c @ held)))"

definition dated_abs :: "'a dated_file_sink_scheme \<Rightarrow> dated_log" where
  "dated_abs s = \<lparr>dl_disk = on_disk (ds_file s), dl_current = fh_filename (ds_file s), dl_kept = cq_list (filenames_q s),
     dl_next = rotation_tp s\<rparr>"

text \<open>\<open>N\<close> are the names the sink uses: none of them is a directory, now or later.\<close>

definition names_ok :: "string set \<Rightarrow> string list \<Rightarrow> bool" where
  "names_ok N ds \<longleftrightarrow> (\<forall>f\<in>N. f \<notin> set ds \<and> (\<forall>g\<in>N. \<not> prefix f (dir_name g)))"

definition dated_setup_ok :: "string set \<Rightarrow> 'a dated_file_sink_scheme \<Rightarrow> bool" where
  "dated_setup_ok N s \<longleftrightarrow> outcomes (ds_file s) = [] \<and> cq_ok (filenames_q s) \<and>
     cq_cap (filenames_q s) = ds_max_files s \<and> set (cq_list (filenames_q s)) \<subseteq> N \<and> names_ok N (dirs (ds_file s))"

definition dated_ok :: "string set \<Rightarrow> 'a dated_file_sink_scheme \<Rightarrow> bool" where
  "dated_ok N s \<longleftrightarrow> dated_setup_ok N s \<and> fd (ds_file s) \<noteq> None \<and> fh_filename (ds_file s) \<in> N"

lemmas dated_ok_defs = dated_ok_def dated_setup_ok_def

lemma on_disk_close: "outcomes w = [] \<Longrightarrow> files (fh_close w) = on_disk w"
  by (simp add: fh_close_ok on_disk_def)

lemma on_disk_open:
  assumes "outcomes w = []"
  obtains w' where "fh_open f trunc w = Inr (None, w')" "outcomes w' = []" "fd w' = Some []" "fh_filename w' = f"
    "on_disk w' = (on_disk w)(f \<mapsto> (if trunc then [] else case on_disk w f of None \<Rightarrow> [] | Some c \<Rightarrow> c))"
    "\<forall>d\<in>set (dirs w'). d \<in> set (dirs w) \<or> prefix d (dir_name f)"
  using fh_open_ok [OF assms, of f trunc] on_disk_close [OF assms]
  by (auto simp: on_disk_def [where w = "_ :: file_world"] content_def)

lemma on_disk_write:
  assumes "outcomes w = []" and "fd w \<noteq> None"
  obtains w' where "fh_write t w = Inr (None, w')" "outcomes w' = []" "fd w' \<noteq> None" "fh_filename w' = fh_filename w" "dirs w' = dirs w"
    "on_disk w' = (case on_disk w (fh_filename w) of None \<Rightarrow> on_disk w | Some c \<Rightarrow> (on_disk w)(fh_filename w \<mapsto> c @ t))"
  using assms by (auto simp: fh_write_def on_disk_def split: option.splits)

lemma on_disk_remove:
  assumes "outcomes w = []" and "f \<notin> set (dirs w)"
  obtains w' where "remove_if_exists f w = (True, w')" "outcomes w' = []" "fd w' = fd w" "fh_filename w' = fh_filename w"
    "dirs w' = dirs w" "on_disk w' = (on_disk w)(f := None)"
proof (cases "files w f")
  case None
  with assms have "remove_if_exists f w = (True, w)" by (simp add: remove_if_exists_def path_exists_def)
  moreover have "on_disk w = (on_disk w)(f := None)" using None by (auto simp: on_disk_def fun_eq_iff split: option.split)
  ultimately show ?thesis using that assms(1) by simp
next
  case (Some c)
  with assms have "remove_if_exists f w = (True, w\<lparr>files := (files w)(f := None)\<rparr>)"
    by (simp add: remove_if_exists_def path_exists_def os_remove_def)
  then show ?thesis
    by (rule that) (use assms(1) in \<open>auto simp: on_disk_def fun_eq_iff split: option.split\<close>)
qed

section \<open>Each part implements its abstraction\<close>

definition same_setup :: "'a dated_file_sink_scheme \<Rightarrow> 'a dated_file_sink_scheme \<Rightarrow> bool" where
  "same_setup s s' \<longleftrightarrow> ds_base_filename s' = ds_base_filename s \<and> ds_truncate s' = ds_truncate s \<and>
     ds_max_files s' = ds_max_files s \<and> dated_file_sink.more s' = dated_file_sink.more s"

lemma in_file_abs:
  assumes "f (ds_file s) = Inr (None, w)"
  shows "in_file f s = Inr (None, s\<lparr>ds_file := w\<rparr>)"
  using assms by (simp add: in_file_def)

lemma open_implements:
  assumes "dated_setup_ok N s" and "f \<in> N"
  obtains w where "in_file (fh_open f trunc) s = Inr (None, s\<lparr>ds_file := w\<rparr>)"
    "\<And>tp. dated_ok N (s\<lparr>ds_file := w, rotation_tp := tp\<rparr>) \<and> same_setup s (s\<lparr>ds_file := w, rotation_tp := tp\<rparr>) \<and>
       dated_abs (s\<lparr>ds_file := w, rotation_tp := tp\<rparr>) = dl_open trunc f tp (dated_abs s)"
proof -
  have "outcomes (ds_file s) = []" using assms(1) by (simp add: dated_setup_ok_def)
  then obtain w where w: "fh_open f trunc (ds_file s) = Inr (None, w)" "outcomes w = []" "fd w = Some []" "fh_filename w = f"
    "on_disk w = (on_disk (ds_file s))(f \<mapsto> (if trunc then [] else case on_disk (ds_file s) f of None \<Rightarrow> [] | Some c \<Rightarrow> c))"
    "\<forall>d\<in>set (dirs w). d \<in> set (dirs (ds_file s)) \<or> prefix d (dir_name f)" by (rule on_disk_open)
  have "names_ok N (dirs w)" using assms w(6) unfolding dated_setup_ok_def names_ok_def by blast
  with assms w have "dated_ok N (s\<lparr>ds_file := w, rotation_tp := tp\<rparr>)" for tp by (simp add: dated_ok_defs)
  moreover have "dated_abs (s\<lparr>ds_file := w, rotation_tp := tp\<rparr>) = dl_open trunc f tp (dated_abs s)" for tp
    using w(4,5) by (simp add: dated_abs_def dl_open_def cong: if_cong)
  moreover have "same_setup s (s\<lparr>ds_file := w, rotation_tp := tp\<rparr>)" for tp by (simp add: same_setup_def)
  ultimately show ?thesis using that w(1) in_file_abs [of "fh_open f trunc"] by blast
qed

lemma write_implements:
  assumes "dated_ok N s"
  obtains w where "in_file (fh_write t) s = Inr (None, s\<lparr>ds_file := w\<rparr>)"
    "dated_abs (s\<lparr>ds_file := w\<rparr>) = dl_append t (dated_abs s)" "dated_ok N (s\<lparr>ds_file := w\<rparr>)"
    "fh_filename w = fh_filename (ds_file s)"
proof -
  have "outcomes (ds_file s) = []" "fd (ds_file s) \<noteq> None" using assms(1) by (simp_all add: dated_ok_defs)
  then obtain w where w: "fh_write t (ds_file s) = Inr (None, w)" "outcomes w = []" "fd w \<noteq> None"
    "fh_filename w = fh_filename (ds_file s)" "dirs w = dirs (ds_file s)"
    "on_disk w = (case on_disk (ds_file s) (fh_filename (ds_file s)) of None \<Rightarrow> on_disk (ds_file s)
       | Some c \<Rightarrow> (on_disk (ds_file s))(fh_filename (ds_file s) \<mapsto> c @ t))" by (rule on_disk_write)
  with assms have "dated_ok N (s\<lparr>ds_file := w\<rparr>)" by (simp add: dated_ok_defs)
  moreover have "dated_abs (s\<lparr>ds_file := w\<rparr>) = dl_append t (dated_abs s)"
    using w(4,6) by (simp add: dated_abs_def dl_append_def split: option.split)
  ultimately show ?thesis using that w(1,4) in_file_abs [of "fh_write t"] by blast
qed

lemma delete_old_implements:
  assumes "dated_ok N s" and "0 < ds_max_files s"
  shows "\<exists>w q. delete_old kind s = Inr (None, s\<lparr>ds_file := w, filenames_q := q\<rparr>) \<and>
     dated_abs (s\<lparr>ds_file := w, filenames_q := q\<rparr>) = dl_retain (ds_max_files s) (dated_abs s) \<and>
     dated_ok N (s\<lparr>ds_file := w, filenames_q := q\<rparr>)"
proof -
  let ?q = "filenames_q s" and ?w = "ds_file s" and ?c = "fh_filename (ds_file s)"
  have ok: "outcomes ?w = []" "fd ?w \<noteq> None" "cq_ok ?q" "cq_cap ?q = ds_max_files s" "set (cq_list ?q) \<subseteq> N" "names_ok N (dirs ?w)"
    "?c \<in> N" using assms(1) by (simp_all add: dated_ok_defs)
  have pos: "0 < max_items ?q" using ok(4) assms(2) by (simp add: cq_cap_def)
  note full = cq_full_iff [OF ok(3) pos]
  show ?thesis
  proof (cases "cq_full ?q")
    case True
    with full ok(4) assms(2) obtain old fs where list: "cq_list ?q = old # fs" "length (old # fs) = ds_max_files s"
      by (cases "cq_list ?q") (auto simp flip: length_cq_list)
    from cq.pop_law [OF ok(3) list(1)] obtain q1 where q1: "cq_pop_front ?q = Inr q1" "cq_ok q1" "cq_cap q1 = ds_max_files s"
      "cq_list q1 = fs" using ok(4) by auto
    from cq.push_law [OF q1(2), of ?c] obtain q2 where q2: "cq_push_back ?c q1 = Inr q2" "cq_ok q2" "cq_cap q2 = ds_max_files s"
      "cq_list q2 = last_n (ds_max_files s) (fs @ [?c])" using q1 by auto
    have kept: "last_n (ds_max_files s) (fs @ [?c]) = fs @ [?c]" "last_n (ds_max_files s) (old # fs @ [?c]) = fs @ [?c]"
      using list(2) by (simp_all add: last_n_def)
    have "old \<notin> set (dirs ?w)" using ok(5,6) list(1) by (auto simp: names_ok_def)
    with ok(1) obtain w where w: "remove_if_exists old ?w = (True, w)" "outcomes w = []" "fd w = fd ?w" "fh_filename w = ?c"
      "dirs w = dirs ?w" "on_disk w = (on_disk ?w)(old := None)" by (rule on_disk_remove)
    have "delete_old kind s = Inr (None, s\<lparr>ds_file := w, filenames_q := q2\<rparr>)"
      using True list(1) q1(1) q2(1) w(1) cq.front_law [OF ok(3) list(1)] by (simp add: delete_old_def)
    moreover have "dated_abs (s\<lparr>ds_file := w, filenames_q := q2\<rparr>) = dl_retain (ds_max_files s) (dated_abs s)"
      using w q2(4) kept list assms(2) by (simp add: dated_abs_def dl_retain_def)
    moreover have "dated_ok N (s\<lparr>ds_file := w, filenames_q := q2\<rparr>)"
      using ok w q2 kept list by (simp add: dated_ok_defs)
    ultimately show ?thesis by blast
  next
    case False
    from cq.push_law [OF ok(3), of ?c] obtain q where q: "cq_push_back ?c ?q = Inr q" "cq_ok q" "cq_cap q = ds_max_files s"
      "cq_list q = last_n (ds_max_files s) (cq_list ?q @ [?c])" using ok(4) by auto
    have "length (cq_list ?q) \<noteq> ds_max_files s" using False full ok(4) by simp
    then have "dated_abs (s\<lparr>ds_file := ?w, filenames_q := q\<rparr>) = dl_retain (ds_max_files s) (dated_abs s)"
      using q(4) assms(2) by (simp add: dated_abs_def dl_retain_def)
    moreover have "delete_old kind s = Inr (None, s\<lparr>ds_file := ?w, filenames_q := q\<rparr>)" using False q(1) by (simp add: delete_old_def)
    moreover have "dated_ok N (s\<lparr>ds_file := ?w, filenames_q := q\<rparr>)"
      using ok q by (auto simp: dated_ok_defs last_n_def dest!: set_mp [OF set_drop_subset])
    ultimately show ?thesis by blast
  qed
qed

section \<open>The sinks implement the abstract sink\<close>

text \<open>What follows the opening is the same in both sinks.\<close>

lemma write_delete_implements:
  assumes "dated_ok N s"
  shows "\<exists>s'. try_then (in_file (fh_write t) s) (\<lambda>s. if rot \<and> ds_max_files s > 0 then delete_old kind s else Inr (None, s)) =
       Inr (None, s') \<and> same_setup s s' \<and> dated_ok N s' \<and>
     dated_abs s' = (if rot then dl_retain (ds_max_files s) (dl_append t (dated_abs s)) else dl_append t (dated_abs s))"
proof -
  from write_implements [OF assms, of t] obtain w where w: "in_file (fh_write t) s = Inr (None, s\<lparr>ds_file := w\<rparr>)"
    "dated_abs (s\<lparr>ds_file := w\<rparr>) = dl_append t (dated_abs s)" "dated_ok N (s\<lparr>ds_file := w\<rparr>)"
    "fh_filename w = fh_filename (ds_file s)" by blast
  show ?thesis
  proof (cases "rot \<and> ds_max_files s > 0")
    case True
    with delete_old_implements [OF w(3), of kind] w show ?thesis by (auto simp: same_setup_def)
  next
    case False
    with w show ?thesis by (auto simp: dl_retain_def same_setup_def)
  qed
qed

lemma current_retained: "dl_current (dl_retain n L) = dl_current L" "dl_current (dl_append t L) = dl_current L"
  "dl_current (dl_open trunc f tp L) = f"
  by (simp_all add: dl_retain_def dl_append_def dl_open_def split: option.split)

lemma current_abs: "dl_current (dated_abs s) = fh_filename (ds_file s)" "dl_next (dated_abs s) = rotation_tp s"
  by (simp_all add: dated_abs_def)

lemma daily_sink_it_implements:
  assumes "dated_ok N s" and "dated_filename E time s = Inr f" and "f \<in> N"
  shows "\<exists>s'. daily_sink_it E (time, now, t) s = Inr (None, s') \<and> same_setup s s' \<and> dated_ok N s' \<and>
     dated_abs s' = dl_log (ds_max_files s) (ds_truncate s) time f (daily_next_rotation_tp E now s) t (dated_abs s)"
proof (cases "time \<ge> rotation_tp s")
  case True
  let ?tp = "daily_next_rotation_tp E now s"
  have "dated_setup_ok N s" using assms(1) by (simp add: dated_ok_def)
  from open_implements [OF this assms(3), of "ds_truncate s"] obtain w where
    w: "in_file (fh_open f (ds_truncate s)) s = Inr (None, s\<lparr>ds_file := w\<rparr>)"
    "\<And>tp. dated_ok N (s\<lparr>ds_file := w, rotation_tp := tp\<rparr>) \<and> same_setup s (s\<lparr>ds_file := w, rotation_tp := tp\<rparr>) \<and>
       dated_abs (s\<lparr>ds_file := w, rotation_tp := tp\<rparr>) = dl_open (ds_truncate s) f tp (dated_abs s)" by blast
  define s1 where "s1 = s\<lparr>ds_file := w, rotation_tp := ?tp\<rparr>"
  have s1: "dated_ok N s1" "same_setup s s1" "dated_abs s1 = dl_open (ds_truncate s) f ?tp (dated_abs s)"
    using w(2) by (simp_all add: s1_def)
  have rot: "daily_rotate E time now s = Inr (None, s1)"
    using assms(2) w(1) by (simp add: daily_rotate_def s1_def daily_next_rotation_tp_def)
  with True write_delete_implements [OF s1(1), of t True "''daily''"] s1(2,3) show ?thesis
    by (auto simp: dl_log_def current_abs same_setup_def daily_sink_it_def)
next
  case False
  with write_delete_implements [OF assms(1), of t False "''daily''"] show ?thesis
    by (auto simp: dl_log_def current_abs daily_sink_it_def)
qed

text \<open>The hourly sink removes its first file when nothing was written to it before the first rotation.\<close>

definition dl_forget :: "dated_log \<Rightarrow> dated_log" where
  "dl_forget L = L\<lparr>dl_disk := (dl_disk L)(dl_current L := None)\<rparr>"

lemma forget_implements:
  assumes "dated_ok N s"
  defines "s1 \<equiv> s\<lparr>ds_file := snd (os_remove (fh_filename (fh_close (ds_file s))) (fh_close (ds_file s)))\<rparr>"
  shows "dated_setup_ok N s1" "dated_abs s1 = dl_forget (dated_abs s)" "same_setup s s1"
proof -
  have out: "outcomes (ds_file s) = []" using assms(1) by (simp add: dated_ok_defs)
  note closed = fh_close_ok [OF out]
  show "dated_setup_ok N s1" using assms(1) closed by (simp add: s1_def dated_ok_defs os_remove_def)
  show "dated_abs s1 = dl_forget (dated_abs s)"
    using closed on_disk_close [OF out] by (simp add: s1_def dated_abs_def dl_forget_def os_remove_def on_disk_def [of "_\<lparr>files := _\<rparr>"])
  show "same_setup s s1" by (simp add: s1_def same_setup_def)
qed

lemma same_setup_hourly: "same_setup s s' \<Longrightarrow> remove_init_file s' = remove_init_file s"
  by (cases s; cases s'; simp add: same_setup_def hourly_file_sink.defs dated_file_sink.defs)

lemma same_setup_daily: "same_setup s s' \<Longrightarrow> rotation_h s' = rotation_h s \<and> rotation_m s' = rotation_m s"
  by (cases s; cases s'; simp add: same_setup_def daily_file_sink.defs dated_file_sink.defs)

definition same_dates :: "hourly_file_sink \<Rightarrow> hourly_file_sink \<Rightarrow> bool" where
  "same_dates s s' \<longleftrightarrow> ds_base_filename s' = ds_base_filename s \<and> ds_truncate s' = ds_truncate s \<and> ds_max_files s' = ds_max_files s"

lemma hourly_sink_it_implements:
  assumes "dated_ok N s" and "dated_filename E time s = Inr f" and "f \<in> N"
  shows "\<exists>s'. hourly_sink_it E (time, now, t) s = Inr (None, s') \<and> same_dates s s' \<and> \<not> remove_init_file s' \<and> dated_ok N s' \<and>
     dated_abs s' = dl_log (ds_max_files s) (ds_truncate s) time f (hourly_next_rotation_tp E now s) t
       (if remove_init_file s \<and> time \<ge> rotation_tp s then dl_forget (dated_abs s) else dated_abs s)"
proof (cases "time \<ge> rotation_tp s")
  case True
  let ?tp = "hourly_next_rotation_tp E now s"
  let ?s0 = "if remove_init_file s
     then s\<lparr>ds_file := snd (os_remove (fh_filename (fh_close (ds_file s))) (fh_close (ds_file s)))\<rparr> else s"
  let ?L = "if remove_init_file s then dl_forget (dated_abs s) else dated_abs s"
  have s0: "dated_setup_ok N ?s0" "dated_abs ?s0 = ?L" "same_setup s ?s0"
    using forget_implements [OF assms(1)] assms(1) by (auto simp: dated_ok_def same_setup_def)
  from open_implements [OF s0(1) assms(3), of "ds_truncate s"] obtain w where
    w: "in_file (fh_open f (ds_truncate s)) ?s0 = Inr (None, ?s0\<lparr>ds_file := w\<rparr>)"
    "\<And>tp. dated_ok N (?s0\<lparr>ds_file := w, rotation_tp := tp\<rparr>) \<and> same_setup ?s0 (?s0\<lparr>ds_file := w, rotation_tp := tp\<rparr>) \<and>
       dated_abs (?s0\<lparr>ds_file := w, rotation_tp := tp\<rparr>) = dl_open (ds_truncate s) f tp (dated_abs ?s0)" by blast
  define s1 where "s1 = ?s0\<lparr>ds_file := w, rotation_tp := ?tp\<rparr>"
  have rot: "hourly_rotate E time now s = Inr (None, s1)"
    using assms(2) w(1) by (simp add: hourly_rotate_def Let_def s1_def hourly_next_rotation_tp_def dated_filename_def split: if_splits)
  let ?s1 = "s1\<lparr>remove_init_file := False\<rparr>"
  have "dated_ok N ?s1" "dated_abs ?s1 = dl_open (ds_truncate s) f ?tp ?L" "same_dates s ?s1"
    using w(2) [of ?tp] s0(2) by (simp_all add: s1_def dated_ok_defs dated_abs_def same_dates_def)
  with True rot write_delete_implements [of N ?s1 t True "''hourly''"] same_setup_hourly [of ?s1] show ?thesis
    by (auto simp: dl_log_def current_abs same_dates_def same_setup_def hourly_sink_it_def dl_forget_def Let_def)
next
  case False
  let ?s1 = "s\<lparr>remove_init_file := False\<rparr>"
  have "dated_ok N ?s1" "dated_abs ?s1 = dated_abs s" using assms(1) by (simp_all add: dated_ok_defs dated_abs_def)
  with False write_delete_implements [of N ?s1 t False "''hourly''"] same_setup_hourly [of ?s1] show ?thesis
    by (auto simp: dl_log_def current_abs same_dates_def same_setup_def hourly_sink_it_def)
qed

section \<open>Sequences of messages\<close>

text \<open>\<open>nm\<close> gives the name of the file for a time. The setup of the sink is that of \<open>s0\<close>.\<close>

definition names_fit :: "dated_env \<Rightarrow> string set \<Rightarrow> 'a dated_file_sink_scheme \<Rightarrow> (int \<Rightarrow> string) \<Rightarrow> int \<times> int \<times> string \<Rightarrow> bool" where
  "names_fit E N s0 nm m \<longleftrightarrow> dated_filename E (fst m) s0 = Inr (nm (fst m)) \<and> nm (fst m) \<in> N"

fun dl_message :: "nat \<Rightarrow> bool \<Rightarrow> (int \<Rightarrow> string) \<Rightarrow> (int \<Rightarrow> int) \<Rightarrow> int \<times> int \<times> string \<Rightarrow> dated_log \<Rightarrow> dated_log" where
  "dl_message n trunc nm nxt (time, now, t) L = dl_log n trunc time (nm time) (nxt now) t L"

fun dl_first_message :: "nat \<Rightarrow> bool \<Rightarrow> (int \<Rightarrow> string) \<Rightarrow> (int \<Rightarrow> int) \<Rightarrow> int \<times> int \<times> string \<Rightarrow> bool \<times> dated_log \<Rightarrow> bool \<times> dated_log" where
  "dl_first_message n trunc nm nxt m (first, L) =
     (False, dl_message n trunc nm nxt m (if first \<and> fst m \<ge> dl_next L then dl_forget L else L))"

interpretation daily: refined_sink "daily_sink_it E"
  "dl_message (ds_max_files s0) (ds_truncate s0) nm (\<lambda>now. daily_next_rotation_tp E now s0)" dated_abs
  "\<lambda>s. dated_ok N s \<and> same_setup s0 s" "names_fit E N s0 nm" for E N s0 nm
proof
  fix s :: daily_file_sink and m :: "int \<times> int \<times> string"
  assume s: "dated_ok N s \<and> same_setup s0 s" and m: "names_fit E N s0 nm m"
  obtain time now t where [simp]: "m = (time, now, t)" by (cases m)
  have nxt: "daily_next_rotation_tp E now s = daily_next_rotation_tp E now s0"
    using s same_setup_daily [of s0 s] by (simp add: daily_next_rotation_tp_def)
  have "dated_filename E time s = Inr (nm time)" "nm time \<in> N" using s m by (auto simp: names_fit_def dated_filename_def same_setup_def)
  with daily_sink_it_implements [of N s E time "nm time" now t] s nxt
  show "\<exists>s'. daily_sink_it E m s = Inr (None, s') \<and> (dated_ok N s' \<and> same_setup s0 s') \<and>
      dated_abs s' = dl_message (ds_max_files s0) (ds_truncate s0) nm (\<lambda>now. daily_next_rotation_tp E now s0) m (dated_abs s)"
    by (auto simp: same_setup_def)
qed

interpretation hourly: refined_sink "hourly_sink_it E"
  "dl_first_message (ds_max_files s0) (ds_truncate s0) nm (\<lambda>now. hourly_next_rotation_tp E now s0)"
  "\<lambda>s. (remove_init_file s, dated_abs s)" "\<lambda>s. dated_ok N s \<and> same_dates s0 s" "names_fit E N s0 nm" for E N s0 nm
proof
  fix s :: hourly_file_sink and m :: "int \<times> int \<times> string"
  assume s: "dated_ok N s \<and> same_dates s0 s" and m: "names_fit E N s0 nm m"
  obtain time now t where [simp]: "m = (time, now, t)" by (cases m)
  have nxt: "hourly_next_rotation_tp E now s = hourly_next_rotation_tp E now s0" by (simp add: hourly_next_rotation_tp_def)
  have "dated_filename E time s = Inr (nm time)" "nm time \<in> N" using s m by (auto simp: names_fit_def dated_filename_def same_dates_def)
  with s nxt hourly_sink_it_implements [of N s E time "nm time" now t]
  show "\<exists>s'. hourly_sink_it E m s = Inr (None, s') \<and> (dated_ok N s' \<and> same_dates s0 s') \<and> (remove_init_file s', dated_abs s') =
      dl_first_message (ds_max_files s0) (ds_truncate s0) nm (\<lambda>now. hourly_next_rotation_tp E now s0) m (remove_init_file s, dated_abs s)"
    by (auto simp: same_dates_def current_abs)
qed

section \<open>Retention\<close>

text \<open>The names of the files opened for the messages, in order.\<close>

fun rotations :: "(int \<Rightarrow> string) \<Rightarrow> (int \<Rightarrow> int) \<Rightarrow> int \<Rightarrow> (int \<times> int \<times> string) list \<Rightarrow> string list" where
  "rotations nm nxt tp [] = []"
| "rotations nm nxt tp ((time, now, t) # ms) =
     (if time \<ge> tp then nm time # rotations nm nxt (nxt now) ms else rotations nm nxt tp ms)"

definition texts :: "(int \<times> int \<times> string) list \<Rightarrow> string" where
  "texts ms = concat (map (\<lambda>m. snd (snd m)) ms)"

definition dl_ok :: "nat \<Rightarrow> dated_log \<Rightarrow> bool" where
  "dl_ok n L \<longleftrightarrow> dl_kept L \<noteq> [] \<and> last (dl_kept L) = dl_current L \<and> distinct (dl_kept L) \<and> length (dl_kept L) \<le> n \<and>
     (\<forall>f\<in>set (dl_kept L). dl_disk L f \<noteq> None)"

definition dl_text :: "dated_log \<Rightarrow> string" where
  "dl_text L = concat (map (\<lambda>f. the (dl_disk L f)) (dl_kept L))"

lemma concat_map_update: "f \<notin> set fs \<Longrightarrow> map (\<lambda>g. the (if g = f then x else D g)) fs = map (\<lambda>g. the (D g)) fs"
  by (induction fs) auto

lemma dl_append_ok:
  assumes "dl_ok n L"
  shows "dl_ok n (dl_append t L)" "dl_text (dl_append t L) = dl_text L @ t" "dl_kept (dl_append t L) = dl_kept L"
    "dl_next (dl_append t L) = dl_next L" "\<And>f. f \<notin> set (dl_kept L) \<Longrightarrow> dl_disk (dl_append t L) f = dl_disk L f"
proof -
  from assms obtain fs where K: "dl_kept L = fs @ [dl_current L]" "dl_current L \<notin> set fs"
    unfolding dl_ok_def by (metis append_butlast_last_id distinct.simps(2) distinct1_rotate not_distinct_conv_prefix rotate1.simps(2))
  with assms obtain c where c: "dl_disk L (dl_current L) = Some c" by (auto simp: dl_ok_def)
  show "dl_kept (dl_append t L) = dl_kept L" "dl_next (dl_append t L) = dl_next L" using c by (simp_all add: dl_append_def)
  show "dl_ok n (dl_append t L)" using assms c by (auto simp: dl_ok_def dl_append_def)
  show "dl_text (dl_append t L) = dl_text L @ t" using K c by (simp add: dl_text_def dl_append_def concat_map_update)
  show "dl_disk (dl_append t L) f = dl_disk L f" if "f \<notin> set (dl_kept L)" for f using that K c by (auto simp: dl_append_def)
qed

lemma dl_rotate_ok:
  assumes "dl_ok n L" and "f \<notin> set (dl_kept L)" and "trunc \<or> dl_disk L f = None"
    and L'_def: "L' = dl_retain n (dl_append t (dl_open trunc f tp L))"
  shows "dl_ok n L'" "suffix (dl_text L') (dl_text L @ t)" "length (dl_kept L) < n \<Longrightarrow> dl_text L' = dl_text L @ t"
    "dl_kept L' = last_n n (dl_kept L @ [f])" "dl_next L' = tp" "dl_disk L' f = Some t"
    "\<And>g. g \<noteq> f \<Longrightarrow> dl_disk L' g = (if length (dl_kept L) = n \<and> g = hd (dl_kept L) then None else dl_disk L g)"
proof -
  from assms(1) obtain old fs where K: "dl_kept L = old # fs" "old \<notin> set fs" "length fs < n" "0 < n"
    by (cases "dl_kept L") (auto simp: dl_ok_def)
  have kept: "last_n n (dl_kept L @ [f]) = (if length (dl_kept L) = n then fs @ [f] else old # fs @ [f])"
    using K last_n_snoc [of "old # fs" n f] by auto
  have L': "L' = L\<lparr>dl_disk := (if length (dl_kept L) = n then (dl_disk L)(f \<mapsto> t, old := None) else (dl_disk L)(f \<mapsto> t)),
      dl_current := f, dl_kept := last_n n (dl_kept L @ [f]), dl_next := tp\<rparr>"
    using assms(2,3) K unfolding L'_def by (auto simp: dl_retain_def dl_append_def dl_open_def)
  show "dl_kept L' = last_n n (dl_kept L @ [f])" "dl_next L' = tp" "dl_disk L' f = Some t"
    "\<And>g. g \<noteq> f \<Longrightarrow> dl_disk L' g = (if length (dl_kept L) = n \<and> g = hd (dl_kept L) then None else dl_disk L g)"
    using K assms(2) by (auto simp: L')
  show "dl_ok n L'" using assms(1,2) K kept by (auto simp: dl_ok_def L')
  have tx: "dl_text L' = (if length (dl_kept L) = n then concat (map (\<lambda>f. the (dl_disk L f)) fs) @ t else dl_text L @ t)"
    using assms(2) K kept by (auto simp: dl_text_def L' concat_map_update)
  then show "suffix (dl_text L') (dl_text L @ t)" using K by (simp add: dl_text_def suffix_def)
  show "dl_text L' = dl_text L @ t" if "length (dl_kept L) < n" using tx that by simp
qed

text \<open>
  What opening the files \<open>R\<close> and writing the text \<open>t\<close> does: the last \<open>n\<close> of the files are kept and the others removed, no
  other file changes, and the files kept hold the newest part of the text, all of it as long as no file had to be removed.
\<close>

definition retained :: "nat \<Rightarrow> string list \<Rightarrow> string \<Rightarrow> dated_log \<Rightarrow> dated_log \<Rightarrow> bool" where
  "retained n R t L L' \<longleftrightarrow> dl_kept L' = last_n n (dl_kept L @ R) \<and> suffix (dl_text L') (dl_text L @ t) \<and>
     (length (dl_kept L @ R) \<le> n \<longrightarrow> dl_text L' = dl_text L @ t) \<and>
     (\<forall>f. f \<notin> set (dl_kept L @ R) \<longrightarrow> dl_disk L' f = dl_disk L f) \<and>
     (\<forall>f\<in>set (dl_kept L @ R). dl_disk L' f \<noteq> None \<longleftrightarrow> f \<in> set (dl_kept L'))"

lemma set_last_n: "f \<in> set (last_n n xs) \<Longrightarrow> f \<in> set xs"
  by (auto simp: last_n_def dest: in_set_dropD)

lemma retained_trans:
  assumes "retained n R1 t1 L L1" and "retained n R2 t2 L1 L2" and "distinct (dl_kept L @ R1 @ R2)"
  shows "retained n (R1 @ R2) (t1 @ t2) L L2"
proof -
  have K1: "dl_kept L1 = last_n n (dl_kept L @ R1)" using assms(1) by (simp add: retained_def)
  have kept: "dl_kept L2 = last_n n (dl_kept L @ R1 @ R2)"
    using assms(2) by (simp add: retained_def K1 last_n_append)
  have "suffix (dl_text L2) (dl_text L1 @ t2)" "suffix (dl_text L1 @ t2) (dl_text L @ t1 @ t2)"
    using assms(1,2) by (auto simp: retained_def suffix_def)
  then have tx: "suffix (dl_text L2) (dl_text L @ t1 @ t2)" by (rule suffix_order.trans)
  have all: "dl_text L2 = dl_text L @ t1 @ t2" if "length (dl_kept L @ R1 @ R2) \<le> n"
  proof -
    have "length (dl_kept L @ R1) \<le> n" using that by simp
    then have "dl_kept L1 = dl_kept L @ R1" using K1 by (simp only: last_n_short)
    with that assms(1,2) show ?thesis by (simp add: retained_def)
  qed
  have gone: "dl_disk L2 f \<noteq> None \<longleftrightarrow> f \<in> set (dl_kept L2)" if "f \<in> set (dl_kept L @ R1 @ R2)" for f
  proof (cases "f \<in> set (dl_kept L1 @ R2)")
    case True
    with assms(2) show ?thesis by (simp add: retained_def)
  next
    case False
    then have "f \<in> set (dl_kept L @ R1)" "f \<notin> set (dl_kept L1)" using that by auto
    then have "dl_disk L1 f = None" using assms(1) by (auto simp: retained_def)
    moreover have "dl_disk L2 f = dl_disk L1 f" using False assms(2) by (auto simp: retained_def)
    moreover have "f \<notin> set (dl_kept L2)" using False assms(2) set_last_n [of f n "dl_kept L1 @ R2"] by (auto simp: retained_def)
    ultimately show ?thesis by simp
  qed
  have frame: "dl_disk L2 f = dl_disk L f" if "f \<notin> set (dl_kept L @ R1 @ R2)" for f
  proof -
    have "f \<notin> set (dl_kept L1 @ R2)" using that K1 set_last_n [of f n "dl_kept L @ R1"] by auto
    then show ?thesis using that assms(1,2) by (auto simp: retained_def)
  qed
  show ?thesis using kept tx all gone frame by (simp add: retained_def)
qed

lemma dl_append_retained: "dl_ok n L \<Longrightarrow> retained n [] t L (dl_append t L)"
  using dl_append_ok [where t = t] by (auto simp: retained_def dl_ok_def last_n_short)

lemma dl_rotate_retained:
  assumes "dl_ok n L" and "f \<notin> set (dl_kept L)" and "trunc \<or> dl_disk L f = None"
  shows "retained n [f] t L (dl_retain n (dl_append t (dl_open trunc f tp L)))"
proof -
  define L' where "L' = dl_retain n (dl_append t (dl_open trunc f tp L))"
  note r = dl_rotate_ok [OF assms L'_def]
  from assms(1) obtain old fs where K: "dl_kept L = old # fs" "old \<notin> set fs" "length fs < n"
    by (cases "dl_kept L") (auto simp: dl_ok_def)
  have "dl_kept L' = (if length (dl_kept L) = n then fs @ [f] else old # fs @ [f])"
    using r(4) K last_n_snoc [of "old # fs" n f] by auto
  then have "dl_disk L' g \<noteq> None \<longleftrightarrow> g \<in> set (dl_kept L')" if "g \<in> set (dl_kept L @ [f])" for g
    using that r(6) r(7) [of g] K assms(1,2) by (cases "g = f") (auto simp: dl_ok_def)
  with r K show ?thesis unfolding L'_def [symmetric] by (auto simp: retained_def)
qed

lemma dl_messages_retained:
  assumes "dl_ok n L" and "distinct (dl_kept L @ rotations nm nxt (dl_next L) ms)"
    and "\<forall>f\<in>set (rotations nm nxt (dl_next L) ms). trunc \<or> dl_disk L f = None"
  shows "dl_ok n (fold (dl_message n trunc nm nxt) ms L) \<and>
     retained n (rotations nm nxt (dl_next L) ms) (texts ms) L (fold (dl_message n trunc nm nxt) ms L)"
  using assms
proof (induction ms arbitrary: L)
  case Nil
  then show ?case by (auto simp: dl_ok_def retained_def last_n_short texts_def)
next
  case (Cons m ms)
  obtain time now t where m: "m = (time, now, t)" by (cases m)
  define L1 where "L1 = dl_message n trunc nm nxt m L"
  define R1 where "R1 = (if time \<ge> dl_next L then [nm time] else [])"
  have R: "rotations nm nxt (dl_next L) (m # ms) = R1 @ rotations nm nxt (dl_next L1) ms"
    by (auto simp: m R1_def L1_def dl_log_def dl_retain_def dl_append_def dl_open_def split: option.split)
  have one: "dl_ok n L1 \<and> retained n R1 t L L1"
  proof (cases "time \<ge> dl_next L")
    case True
    with Cons.prems have "nm time \<notin> set (dl_kept L)" "trunc \<or> dl_disk L (nm time) = None" by (auto simp: m)
    from dl_rotate_retained [OF Cons.prems(1) this] dl_rotate_ok(1) [OF Cons.prems(1) this refl] True
    show ?thesis by (simp add: L1_def R1_def m dl_log_def)
  next
    case False
    with dl_append_retained [OF Cons.prems(1)] dl_append_ok(1) [OF Cons.prems(1)] show ?thesis
      by (simp add: L1_def R1_def m dl_log_def)
  qed
  have dist: "distinct (dl_kept L @ R1 @ rotations nm nxt (dl_next L1) ms)" using Cons.prems(2) R by simp
  have "set (dl_kept L1) \<subseteq> set (dl_kept L @ R1)"
    using one set_last_n [of _ n "dl_kept L @ R1"] unfolding retained_def by auto
  with dist one have d1: "distinct (dl_kept L1 @ rotations nm nxt (dl_next L1) ms)" by (auto simp: dl_ok_def)
  have "trunc \<or> dl_disk L1 f = None" if "f \<in> set (rotations nm nxt (dl_next L1) ms)" for f
  proof -
    have "f \<notin> set (dl_kept L @ R1)" using that dist by auto
    with one have "dl_disk L1 f = dl_disk L f" by (auto simp: retained_def)
    with Cons.prems(3) that R show ?thesis by auto
  qed
  then have "\<forall>f\<in>set (rotations nm nxt (dl_next L1) ms). trunc \<or> dl_disk L1 f = None" by (rule ballI)
  from Cons.IH [OF conjunct1 [OF one] d1 this] have "dl_ok n (fold (dl_message n trunc nm nxt) ms L1)"
    "retained n (rotations nm nxt (dl_next L1) ms) (texts ms) L1 (fold (dl_message n trunc nm nxt) ms L1)"
    by blast+
  with retained_trans [OF conjunct2 [OF one] _ dist] show ?case unfolding R by (auto simp: m L1_def texts_def)
qed

section \<open>The constructor\<close>

lemma init_filenames_loop_eq:
  assumes "\<forall>k<n. dated_filename E (now - int k * back) s = Inr (nm k)"
  shows "init_filenames_loop E back n now s = Inr (takeWhile (\<lambda>f. path_exists f (ds_file s)) (map nm [0..<n]))"
  using assms
proof (induction n arbitrary: now nm)
  case (Suc n)
  have "\<forall>k<n. dated_filename E (now - back - int k * back) s = Inr (nm (Suc k))"
  proof (intro allI impI)
    fix k assume "k < n"
    then show "dated_filename E (now - back - int k * back) s = Inr (nm (Suc k))"
      using Suc.prems [rule_format, of "Suc k"] by (simp add: algebra_simps)
  qed
  from Suc.IH [OF this] Suc.prems [rule_format, of 0] show ?case
    by (simp add: upt_conv_Cons map_Suc_upt [symmetric] comp_def del: upt_Suc)
qed simp

text \<open>The names found on the disk, the newest first, are those from the current file back to the first that is missing.\<close>

lemma init_filenames_q_ok:
  assumes "dated_ok N (s\<lparr>filenames_q := circular_q_new [] (ds_max_files s)\<rparr>)" and "0 < ds_max_files s" and "ds_max_files s < 2 ^ 16"
    and "\<forall>k<ds_max_files s. dated_filename E (now - int k * back) s = Inr (nm k) \<and> nm k \<in> N"
    and "distinct (map nm [0..<ds_max_files s])" and "nm 0 = fh_filename (ds_file s)" and "files (ds_file s) (nm 0) \<noteq> None"
  shows "\<exists>s'. init_filenames_q E back now s = Inr (None, s') \<and> dated_ok N s' \<and> dl_ok (ds_max_files s) (dated_abs s') \<and>
     same_setup s s' \<and> ds_file s' = ds_file s \<and> rotation_tp s' = rotation_tp s \<and>
     cq_list (filenames_q s') = rev (takeWhile (\<lambda>f. path_exists f (ds_file s)) (map nm [0..<ds_max_files s]))"
proof -
  let ?n = "ds_max_files s"
  let ?fs = "takeWhile (\<lambda>f. path_exists f (ds_file s)) (map nm [0..<?n])"
  have "?n < 2 ^ 63 - 1" using assms(3) by simp
  note new = cq_new_ok [OF this, of "[] :: string"]
  have len: "length ?fs \<le> ?n" by (rule order.trans [OF length_takeWhile_le]) simp
  have "last_n ?n (rev ?fs) = rev ?fs" using len by (simp add: last_n_short)
  with cq.push_all [OF new(1), of "rev ?fs"] obtain q where q: "fold_res cq_push_back (rev ?fs) (circular_q_new [] ?n) = Inr q"
    "cq_ok q" "cq_cap q = ?n" "cq_list q = rev ?fs" using new by auto
  have "init_filenames_q E back now s = Inr (None, s\<lparr>filenames_q := q\<rparr>)"
    using assms(4) q(1) by (simp add: init_filenames_q_def init_filenames_loop_eq [where nm = nm])
  moreover have ex: "files (ds_file s) f \<noteq> None" if "f \<in> set ?fs" for f
  proof -
    from that have "path_exists f (ds_file s)" "f \<in> set (map nm [0..<?n])" using set_takeWhileD by metis+
    then have "path_exists f (ds_file s)" "f \<in> N" using assms(4) by auto
    then show ?thesis using assms(1) by (auto simp: path_exists_def dated_ok_defs names_ok_def)
  qed
  moreover have sub: "set ?fs \<subseteq> N" using assms(4) by (auto dest!: set_takeWhileD)
  moreover have "?fs \<noteq> []" "hd ?fs = nm 0"
    using assms(2,7) by (simp_all add: upt_conv_Cons path_exists_def del: upt_Suc)
  moreover have "distinct ?fs" using assms(5) by (rule distinct_takeWhile)
  moreover have "on_disk (ds_file s) f \<noteq> None" if "f \<in> set ?fs" for f
    using ex [OF that] by (auto simp: on_disk_def split: option.split)
  ultimately show ?thesis using assms(1,6) q len
    by (intro exI [of _ "s\<lparr>filenames_q := q\<rparr>"]) (auto simp: dated_ok_defs dl_ok_def dated_abs_def same_setup_def last_rev)
qed

lemma daily_file_sink_new_ok:
  assumes "outcomes w = []" and "0 \<le> rh" "rh \<le> 23" "0 \<le> rm" "rm \<le> 59" and "0 < n" "n < 2 ^ 16" and "names_ok N (dirs w)"
    and "file_name_calc E base (now_tm E now1) = Inr (nm 0)"
    and "\<forall>k<n. file_name_calc E base (now_tm E (now3 - int k * hours 24)) = Inr (nm k) \<and> nm k \<in> N"
    and "distinct (map nm [0..<n])"
  shows "\<exists>s'. daily_file_sink_new E now1 now2 now3 base rh rm trunc n h w = Inr (None, s') \<and> dated_ok N s' \<and>
     dl_ok n (dated_abs s') \<and> ds_max_files s' = n \<and> fh_filename (ds_file s') = nm 0 \<and>
     rotation_tp s' = daily_next_rotation_tp E now2 s' \<and> rotation_h s' = rh \<and> rotation_m s' = rm \<and>
     ds_base_filename s' = base \<and> ds_truncate s' = trunc \<and>
     on_disk (ds_file s') = (files w)(nm 0 \<mapsto> (if trunc then [] else case files w (nm 0) of None \<Rightarrow> [] | Some c \<Rightarrow> c))"
proof -
  let ?w = "file_helper_new h w"
  define s where "s = \<lparr>ds_base_filename = base, rotation_tp = 0, ds_file = ?w, ds_truncate = trunc,
    ds_max_files = n, filenames_q = circular_q_disabled, rotation_h = rh, rotation_m = rm\<rparr>"
  have "outcomes ?w = []" using assms(1) by (simp add: file_helper_new_def)
  then obtain w' where w': "fh_open (nm 0) trunc ?w = Inr (None, w')" "outcomes w' = []" "fd w' = Some []" "fh_filename w' = nm 0"
    "on_disk w' = (on_disk ?w)(nm 0 \<mapsto> (if trunc then [] else case on_disk ?w (nm 0) of None \<Rightarrow> [] | Some c \<Rightarrow> c))"
    "\<forall>d\<in>set (dirs w'). d \<in> set (dirs ?w) \<or> prefix d (dir_name (nm 0))" by (rule on_disk_open)
  define s1 where "s1 = s\<lparr>ds_file := w', rotation_tp := daily_next_rotation_tp E now2 s\<rparr>"
  have "nm 0 \<in> N" using assms(6,10) by blast
  then have names: "names_ok N (dirs w')" using assms(8) w'(6) unfolding names_ok_def file_helper_new_def by auto
  have "cq_ok (circular_q_new ([] :: string) n)" "cq_list (circular_q_new ([] :: string) n) = []"
    "cq_cap (circular_q_new ([] :: string) n) = n" using cq_new_ok [of n] assms(7) by simp_all
  then have "dated_ok N (s1\<lparr>filenames_q := circular_q_new [] (ds_max_files s1)\<rparr>)"
    using w' names \<open>nm 0 \<in> N\<close> by (simp add: dated_ok_defs s1_def s_def)
  moreover have "files w' (nm 0) \<noteq> None" using w'(3,4,5) by (auto simp: on_disk_def split: option.splits if_splits)
  ultimately obtain s' where s': "init_filenames_q E (hours 24) now3 s1 = Inr (None, s')" "dated_ok N s'" "dl_ok n (dated_abs s')"
    "same_setup s1 s'" "ds_file s' = w'" "rotation_tp s' = rotation_tp s1"
    using init_filenames_q_ok [of N s1 E now3 "hours 24" nm] assms(6,7,10,11) w'(4) by (auto simp: s1_def s_def dated_filename_def)
  have "daily_file_sink_new E now1 now2 now3 base rh rm trunc n h w = Inr (None, s')"
    using assms(2-6,9) w'(1) s'(1) unfolding daily_file_sink_new_def s_def [symmetric]
    by (simp add: dated_filename_def in_file_def s1_def daily_next_rotation_tp_def) (simp add: s_def)
  moreover have "rotation_h s' = rh" "rotation_m s' = rm" using same_setup_daily [OF s'(4)] by (simp_all add: s1_def s_def)
  moreover have "on_disk ?w = files w" by (simp add: on_disk_def file_helper_new_def)
  ultimately show ?thesis using s' w'(4,5) by (auto simp: same_setup_def s1_def s_def daily_next_rotation_tp_def)
qed

section \<open>Properties\<close>



text \<open>The hourly sink, once its first file is not empty any more.\<close>

lemma fold_dl_first_message:
  "fold (dl_first_message n trunc nm nxt) ms (False, L) = (False, fold (dl_message n trunc nm nxt) ms L)"
  by (induction ms arbitrary: L) simp_all

lemma hourly_retains:
  assumes "dated_ok N s" and "\<not> remove_init_file s" and "dl_ok (ds_max_files s) (dated_abs s)" and "\<forall>m\<in>set ms. names_fit E N s nm m"
    and "R = rotations nm (\<lambda>now. hourly_next_rotation_tp E now s) (rotation_tp s) ms"
    and "distinct (cq_list (filenames_q s) @ R)" and "\<forall>f\<in>set R. ds_truncate s \<or> on_disk (ds_file s) f = None"
  shows "\<exists>s'. log_each (hourly_sink_it E) ms s = Inr (None, s') \<and> dated_ok N s' \<and>
     retained (ds_max_files s) R (texts ms) (dated_abs s) (dated_abs s')"
proof -
  from hourly.log_each_refines [of N s s ms E nm] assms(1,2,4) obtain s' where
    s': "log_each (hourly_sink_it E) ms s = Inr (None, s')" "dated_ok N s'"
    "dated_abs s' = fold (dl_message (ds_max_files s) (ds_truncate s) nm (\<lambda>now. hourly_next_rotation_tp E now s)) ms (dated_abs s)"
    by (auto simp: same_dates_def fold_dl_first_message)
  from dl_messages_retained [OF assms(3), of nm "\<lambda>now. hourly_next_rotation_tp E now s" ms "ds_truncate s"] assms(5-7) s'
  show ?thesis by (auto simp: dated_abs_def)
qed

text \<open>The sink on one file appends what is logged.\<close>

interpretation basic: refined_sink basic_sink_it "\<lambda>t. map_option (\<lambda>c. c @ t)" "\<lambda>w. on_disk w (fh_filename w)"
  "\<lambda>w. outcomes w = [] \<and> fd w \<noteq> None" "\<lambda>t. True"
proof
  fix w :: file_world and t
  assume "outcomes w = [] \<and> fd w \<noteq> None"
  then obtain w' where "fh_write t w = Inr (None, w')" "outcomes w' = []" "fd w' \<noteq> None" "fh_filename w' = fh_filename w"
    "on_disk w' = (case on_disk w (fh_filename w) of None \<Rightarrow> on_disk w | Some c \<Rightarrow> (on_disk w)(fh_filename w \<mapsto> c @ t))"
    using on_disk_write [of w t] by metis
  then show "\<exists>w'. basic_sink_it t w = Inr (None, w') \<and> (outcomes w' = [] \<and> fd w' \<noteq> None) \<and>
      on_disk w' (fh_filename w') = map_option (\<lambda>c. c @ t) (on_disk w (fh_filename w))"
    by (auto simp: basic_sink_it_def split: option.split)
qed

lemma basic_file_sink_appends:
  assumes "outcomes w = []"
  shows "\<exists>w1 w2. basic_file_sink_new f trunc h w = Inr (None, w1) \<and> log_each basic_sink_it ts w1 = Inr (None, w2) \<and>
     on_disk w2 (fh_filename w2) = Some ((if trunc then [] else content f w) @ concat ts)"
proof -
  have "outcomes (file_helper_new h w) = []" using assms by (simp add: file_helper_new_def)
  then obtain w1 where w1: "fh_open f trunc (file_helper_new h w) = Inr (None, w1)" "outcomes w1 = []" "fd w1 = Some []"
    "fh_filename w1 = f" "on_disk w1 = (on_disk (file_helper_new h w))(f \<mapsto> (if trunc then []
       else case on_disk (file_helper_new h w) f of None \<Rightarrow> [] | Some c \<Rightarrow> c))" by (rule on_disk_open)
  have "on_disk (file_helper_new h w) = files w" by (simp add: on_disk_def file_helper_new_def)
  with w1 have "on_disk w1 (fh_filename w1) = Some (if trunc then [] else content f w)" by (simp add: content_def)
  moreover have "basic_file_sink_new f trunc h w = Inr (None, w1)" using w1(1) by (simp add: basic_file_sink_new_def)
  moreover have "fold (\<lambda>t. map_option (\<lambda>c. c @ t)) ts (Some c) = Some (c @ concat ts)" for c by (induction ts arbitrary: c) auto
  ultimately show ?thesis using basic.log_each_refines [of w1 ts] w1(2,3) by auto
qed

text \<open>A calendar of January 1970, and sinks on it made at ten o'clock on the first day.\<close>

definition january :: dated_env where
  "january = \<lparr>os_localtime = (\<lambda>t. tm_zero\<lparr>tm_hour := t div 3600 mod 24, tm_min := t div 60 mod 60, tm_sec := t mod 60,
       tm_mday := 1 + t div 86400, tm_year := 70\<rparr>),
     std_mktime = (\<lambda>d. (tm_mday d - 1) * 86400 + tm_hour d * 3600 + tm_min d * 60 + tm_sec d),
     file_name_calc = daily_calc_filename\<rparr>"

definition day_file :: "nat \<Rightarrow> string" where
  "day_file k = ''a_1970-01-0'' @ print_nat k @ ''.log''"

lemma january_files:
  "file_name_calc january ''a.log'' (now_tm january (hours 10)) = Inr (day_file 1)"
  "file_name_calc january ''a.log'' (now_tm january (hours 11)) = Inr (day_file 1)"
  "file_name_calc january ''a.log'' (now_tm january (hours 12)) = Inr (day_file 1)"
  "file_name_calc january ''a.log'' (now_tm january (hours 10 - hours 24)) = Inr (day_file 0)"
  "file_name_calc january ''a.log'' (now_tm january (hours 25)) = Inr (day_file 2)"
  "file_name_calc january ''a.log'' (now_tm january (hours 49)) = Inr (day_file 3)"
  by code_simp+

lemma day_file_names: "names_ok (day_file ` {0, 1, 2, 3}) []" "distinct (map day_file [0, 1, 2, 3])"
  by code_simp+

lemma january_new:
  assumes "0 \<le> rh" "rh \<le> 23" "n = 1 \<or> n = 2"
  shows "\<exists>s. daily_file_sink_new january (hours 10) (hours 10) (hours 10) ''a.log'' rh 0 False n no_handlers empty_disk = Inr (None, s) \<and>
     dated_ok (day_file ` {0, 1, 2, 3}) s \<and> dl_ok n (dated_abs s) \<and> ds_max_files s = n \<and> fh_filename (ds_file s) = day_file 1 \<and>
     rotation_tp s = daily_next_rotation_tp january (hours 10) s \<and> rotation_h s = rh \<and> rotation_m s = 0 \<and>
     ds_base_filename s = ''a.log'' \<and> \<not> ds_truncate s \<and> on_disk (ds_file s) = [day_file 1 \<mapsto> []]"
proof -
  let ?nm = "\<lambda>k. day_file (1 - k)" and ?N = "day_file ` {0, 1, 2, 3}"
  have names: "\<forall>k<n. file_name_calc january ''a.log'' (now_tm january (hours 10 - int k * hours 24)) = Inr (?nm k) \<and> ?nm k \<in> ?N"
  proof (intro allI impI)
    fix k assume "k < n"
    with assms(3) have "k = 0 \<or> k = 1" by auto
    then show "file_name_calc january ''a.log'' (now_tm january (hours 10 - int k * hours 24)) = Inr (?nm k) \<and> ?nm k \<in> ?N"
      using january_files(1,4) by auto
  qed
  have first: "file_name_calc january ''a.log'' (now_tm january (hours 10)) = Inr (?nm 0)" using january_files(1) by simp
  have dist: "distinct (map ?nm [0..<n])" using assms(3) day_file_names(2) by (auto simp: upt_rec [of _ 2])
  have "outcomes empty_disk = []" "names_ok ?N (dirs empty_disk)" "0 < n" "n < 2 ^ 16" "(0 :: int) \<le> 0" "(0 :: int) \<le> 59"
    using day_file_names(1) assms(3) by (auto simp: empty_disk_def)
  from daily_file_sink_new_ok [OF this(1) assms(1,2) this(5,6,3,4,2) first names dist, of "hours 10" False no_handlers]
  show ?thesis by (auto simp: empty_disk_def)
qed



end
