(* ===== verification/Dist_Sinks.thy ===== *)
theory Dist_Sinks
  imports Logger
begin

text \<open>
  Sinks made of other sinks: the distribution sink (\<open>sinks/dist_sink.h\<close>) and the filter of duplicate messages built on it
  (\<open>sinks/dup_filter_sink.h\<close>). The sinks below are shared objects on a heap, as they are for a logger; unlike a logger, these
  sinks do not catch what a sink throws: the exception leaves the operation, and is returned beside the heap.
  The mutex of the base class makes each operation a single step.
\<close>

type_synonym 'k sinks = "nat \<Rightarrow> 'k sink option"

text \<open>The loops over the sinks.\<close>

fun dist_loop :: "('k \<Rightarrow> 'k \<times> string option) \<Rightarrow> ('k sink \<Rightarrow> bool) \<Rightarrow> nat list \<Rightarrow> 'k sinks \<Rightarrow> (string option \<times> 'k sinks) res" where
  "dist_loop op wants [] H = Inr (None, H)"
| "dist_loop op wants (i # is) H =
     (case H i of
        None \<Rightarrow> Inl Null_deref
      | Some k \<Rightarrow>
          if wants k
          then (let (b, ex) = op (sink_body k); H = H(i \<mapsto> k\<lparr>sink_body := b\<rparr>)
                in case ex of Some e \<Rightarrow> Inr (Some e, H) | None \<Rightarrow> dist_loop op wants is H)
          else dist_loop op wants is H)"

definition dist_sink_it :: "'k sink_ops \<Rightarrow> log_msg \<Rightarrow> nat list \<Rightarrow> 'k sinks \<Rightarrow> (string option \<times> 'k sinks) res" where
  "dist_sink_it K m is H = dist_loop (sk_log K m) (sink_should_log (msg_level m)) is H"

definition dist_flush :: "'k sink_ops \<Rightarrow> nat list \<Rightarrow> 'k sinks \<Rightarrow> (string option \<times> 'k sinks) res" where
  "dist_flush K is H = dist_loop (sk_flush K) (\<lambda>k. True) is H"

definition dist_add_sink :: "nat \<Rightarrow> nat list \<Rightarrow> nat list" where
  "dist_add_sink i is = is @ [i]"

definition dist_remove_sink :: "nat \<Rightarrow> nat list \<Rightarrow> nat list" where
  "dist_remove_sink i is = filter (\<lambda>j. j \<noteq> i) is"

definition dist_set_sinks :: "nat list \<Rightarrow> nat list \<Rightarrow> nat list" where
  "dist_set_sinks new is = new"

text \<open>
  \<open>set_formatter_\<close>: each sink gets a clone of the formatter; \<open>set_fm\<close> is \<open>sink::set_formatter\<close>. The sink keeps the formatter.
\<close>

definition dist_set_formatter ::
  "('f \<Rightarrow> 'f) \<Rightarrow> ('f \<Rightarrow> 'k \<Rightarrow> 'k) \<Rightarrow> 'f \<Rightarrow> nat list \<Rightarrow> 'k sinks \<Rightarrow> (string option \<times> 'k sinks) res" where
  "dist_set_formatter clone set_fm f is H = dist_loop (\<lambda>b. (set_fm (clone f) b, None)) (\<lambda>k. True) is H"

section \<open>The filter of duplicates\<close>

text \<open>The longest time between two messages to take them as duplicates is a number of microseconds.\<close>

record dup_filter_sink =
  df_sinks :: "nat list"
  max_skip_duration :: int
  last_msg_time :: int
  last_msg_payload :: string
  skip_counter :: nat

definition dup_filter_sink_new :: "int \<Rightarrow> dup_filter_sink" where
  "dup_filter_sink_new d = \<lparr>df_sinks = [], max_skip_duration = d, last_msg_time = 0, last_msg_payload = [], skip_counter = 0\<rparr>"

definition dup_filter :: "log_msg \<Rightarrow> dup_filter_sink \<Rightarrow> bool" where
  "dup_filter m s \<longleftrightarrow> msg_time m - last_msg_time s > max_skip_duration s * 1000 \<or> payload m \<noteq> last_msg_payload s"

definition skipped_text :: "nat \<Rightarrow> string" where
  "skipped_text n = ''Skipped '' @ print_nat (n mod 2 ^ 32) @ '' duplicate messages..''"

text \<open>\<open>clk\<close> is the time and the thread of the message about the skipped ones.\<close>

definition dup_sink_it ::
  "'k sink_ops \<Rightarrow> int \<times> nat \<Rightarrow> log_msg \<Rightarrow> dup_filter_sink \<times> 'k sinks \<Rightarrow> (string option \<times> dup_filter_sink \<times> 'k sinks) res" where
  "dup_sink_it K clk m = (\<lambda>(s, H).
     if \<not> dup_filter m s then Inr (None, s\<lparr>skip_counter := usize_add (skip_counter s) 1\<rparr>, H)
     else andthen
       (if skip_counter s > 0 \<and> length (skipped_text (skip_counter s)) < 64
        then dist_sink_it K (log_msg_new (fst clk) (snd clk) no_source_loc (logger_name m) level_info (skipped_text (skip_counter s)))
               (df_sinks s) H
        else Inr (None, H)) (\<lambda>(ex, H).
       case ex of
         Some e \<Rightarrow> Inr (Some e, s, H)
       | None \<Rightarrow>
           andthen (dist_sink_it K m (df_sinks s) H) (\<lambda>(ex, H).
             case ex of
               Some e \<Rightarrow> Inr (Some e, s, H)
             | None \<Rightarrow> Inr (None, s\<lparr>last_msg_time := msg_time m, skip_counter := 0, last_msg_payload := payload m\<rparr>, H))))"

section \<open>Delivery\<close>

definition quiet :: "'k sink_ops \<Rightarrow> bool" where
  "quiet K \<longleftrightarrow> (\<forall>m b. snd (sk_log K m b) = None)"

text \<open>What a sink has after the messages \<open>ms\<close>.\<close>

definition after_msgs :: "'k sink_ops \<Rightarrow> log_msg list \<Rightarrow> 'k sink \<Rightarrow> 'k sink" where
  "after_msgs K ms k =
     k\<lparr>sink_body := foldl (\<lambda>b m. fst (sk_log K m b)) (sink_body k) (filter (\<lambda>m. sink_should_log (msg_level m) k) ms)\<rparr>"

definition heap_after :: "'k sink_ops \<Rightarrow> log_msg list \<Rightarrow> nat list \<Rightarrow> 'k sinks \<Rightarrow> 'k sinks" where
  "heap_after K ms is H = (\<lambda>i. if i \<in> set is then map_option (after_msgs K ms) (H i) else H i)"

lemma heap_after_Nil [simp]: "heap_after K [] is H = H"
  by (simp add: heap_after_def after_msgs_def fun_eq_iff option.map_ident_strong)

lemma after_msgs_append: "after_msgs K ys (after_msgs K xs k) = after_msgs K (xs @ ys) k"
  by (simp add: after_msgs_def sink_should_log_def)

lemma heap_after_append: "heap_after K ys is (heap_after K xs is H) = heap_after K (xs @ ys) is H"
  by (auto simp: heap_after_def after_msgs_append fun_eq_iff option.map_comp comp_def)

lemma dist_sink_it_eq:
  assumes "quiet K" and "distinct is" and "\<forall>i\<in>set is. H i \<noteq> None"
  shows "dist_sink_it K m is H = Inr (None, heap_after K [m] is H)"
proof -
  have "dist_loop (sk_log K m) (sink_should_log (msg_level m)) is H = Inr (None, heap_after K [m] is H)"
    using assms(2,3)
  proof (induction "is" arbitrary: H)
    case (Cons i "is")
    then obtain k where k: "H i = Some k" by auto
    obtain b where b: "sk_log K m (sink_body k) = (b, None)" using assms(1) unfolding quiet_def by (metis prod.collapse)
    let ?H = "if sink_should_log (msg_level m) k then H(i \<mapsto> k\<lparr>sink_body := b\<rparr>) else H"
    have "\<forall>j\<in>set is. ?H j \<noteq> None" using Cons.prems by auto
    moreover have "heap_after K [m] is ?H = heap_after K [m] (i # is) H"
      using Cons.prems(1) k b by (auto simp: heap_after_def after_msgs_def fun_eq_iff)
    ultimately show ?case using Cons.IH [of ?H] Cons.prems(1) k b by (auto split: if_splits)
  qed (simp add: heap_after_def)
  then show ?thesis by (simp add: dist_sink_it_def)
qed

text \<open>A message that is shown, with the number of those skipped before it; the sequence for the messages with their clocks.\<close>

fun dup_groups ::
  "((int \<times> nat) \<times> log_msg) list \<Rightarrow> dup_filter_sink \<Rightarrow> ((int \<times> nat) \<times> nat \<times> log_msg) list \<times> dup_filter_sink" where
  "dup_groups [] s = ([], s)"
| "dup_groups ((c, m) # cms) s =
     (if \<not> dup_filter m s then dup_groups cms (s\<lparr>skip_counter := skip_counter s + 1\<rparr>)
      else (let (gs, s') = dup_groups cms (s\<lparr>last_msg_time := msg_time m, skip_counter := 0, last_msg_payload := payload m\<rparr>)
            in ((c, skip_counter s, m) # gs, s')))"

definition shown :: "(int \<times> nat) \<times> nat \<times> log_msg \<Rightarrow> log_msg list" where
  "shown = (\<lambda>(c, n, m). (if n > 0
     then [log_msg_new (fst c) (snd c) no_source_loc (logger_name m) level_info (skipped_text n)] else []) @ [m])"

fun dup_log_all ::
  "'k sink_ops \<Rightarrow> ((int \<times> nat) \<times> log_msg) list \<Rightarrow> dup_filter_sink \<times> 'k sinks \<Rightarrow> (string option \<times> dup_filter_sink \<times> 'k sinks) res" where
  "dup_log_all K [] s = Inr (None, s)"
| "dup_log_all K ((c, m) # cms) s =
     andthen (dup_sink_it K c m s) (\<lambda>(ex, s). case ex of None \<Rightarrow> dup_log_all K cms s | Some e \<Rightarrow> Inr (Some e, s))"

lemma skipped_text_short: "length (skipped_text n) < 64"
proof -
  have "n mod 2 ^ 32 < 2 ^ 32" by simp
  also have "(2 :: nat) ^ 32 \<le> 10 ^ 10" by simp
  finally have "length (dec_digits (n mod 2 ^ 32)) \<le> 10" by (rule length_dec_digits) simp
  then show ?thesis by (simp add: skipped_text_def print_nat_def)
qed

lemma dup_log_all_eq:
  assumes "quiet K" and "distinct (df_sinks s)" and "\<forall>i\<in>set (df_sinks s). H i \<noteq> None" and "skip_counter s + length cms < 2 ^ 64"
  shows "dup_log_all K cms (s, H) =
     Inr (None, snd (dup_groups cms s), heap_after K (concat (map shown (fst (dup_groups cms s)))) (df_sinks s) H)"
  using assms(2-4)
proof (induction cms arbitrary: s H)
  case (Cons cm cms)
  obtain c m where [simp]: "cm = (c, m)" by (cases cm)
  show ?case
  proof (cases "dup_filter m s")
    case False
    with Cons.prems Cons.IH [of "s\<lparr>skip_counter := skip_counter s + 1\<rparr>" H] show ?thesis
      by (simp add: dup_sink_it_def usize_simps)
  next
    case True
    let ?ms = "shown (c, skip_counter s, m)"
    let ?s = "s\<lparr>last_msg_time := msg_time m, skip_counter := 0, last_msg_payload := payload m\<rparr>"
    let ?H = "heap_after K ?ms (df_sinks s) H"
    have ex: "\<forall>i\<in>set (df_sinks s). heap_after K xs (df_sinks s) H i \<noteq> None" for xs
      using Cons.prems(2) by (auto simp: heap_after_def)
    have one: "dist_sink_it K x (df_sinks s) (heap_after K xs (df_sinks s) H) = Inr (None, heap_after K (xs @ [x]) (df_sinks s) H)" for x xs
      using dist_sink_it_eq [OF assms(1) Cons.prems(1) ex] by (simp add: heap_after_append)
    have "dup_sink_it K c m (s, H) = Inr (None, ?s, ?H)"
      using True one [of _ "[]"] one by (simp add: dup_sink_it_def skipped_text_short shown_def)
    with Cons.IH [of ?s ?H] Cons.prems ex True show ?thesis
      by (simp add: case_prod_unfold Let_def heap_after_append)
  qed
qed simp

text \<open>The payloads the groups stand for: a repetition of the previous payload for each message skipped.\<close>

fun rebuild :: "string \<Rightarrow> ((int \<times> nat) \<times> nat \<times> log_msg) list \<Rightarrow> nat \<Rightarrow> string list" where
  "rebuild prev [] pending = replicate pending prev"
| "rebuild prev ((c, n, m) # gs) pending = replicate n prev @ payload m # rebuild (payload m) gs pending"

lemma rebuild_groups:
  "rebuild (last_msg_payload s) (fst (dup_groups cms s)) (skip_counter (snd (dup_groups cms s))) =
     replicate (skip_counter s) (last_msg_payload s) @ map (\<lambda>(c, m). payload m) cms"
proof (induction cms s rule: dup_groups.induct)
  case (2 c m cms s)
  show ?case
  proof (cases "dup_filter m s")
    case False
    then have "payload m = last_msg_payload s" by (simp add: dup_filter_def)
    with False 2(1) show ?thesis by (simp add: replicate_append_same [symmetric])
  next
    case True
    with 2(2) show ?thesis by (simp add: case_prod_unfold Let_def)
  qed
qed simp

text \<open>Two messages shown one after the other differ or are further apart than the limit.\<close>

fun spaced :: "int \<Rightarrow> int \<Rightarrow> string \<Rightarrow> ((int \<times> nat) \<times> nat \<times> log_msg) list \<Rightarrow> bool" where
  "spaced d t p [] = True"
| "spaced d t p ((c, n, m) # gs) = ((msg_time m - t > d * 1000 \<or> payload m \<noteq> p) \<and> spaced d (msg_time m) (payload m) gs)"

lemma spaced_groups: "spaced (max_skip_duration s) (last_msg_time s) (last_msg_payload s) (fst (dup_groups cms s))"
  by (induction cms s rule: dup_groups.induct) (auto simp: dup_filter_def case_prod_unfold Let_def)

section \<open>Properties\<close>


text \<open>The example in the comment of the source: three equal messages and another one, into a sink that keeps the texts.\<close>

definition keep_texts :: "string list sink_ops" where
  "keep_texts = \<lparr>sk_log = (\<lambda>m b. (b @ [payload m], None)), sk_flush = (\<lambda>b. (b, None))\<rparr>"

definition five_seconds :: dup_filter_sink where
  "five_seconds = (dup_filter_sink_new 5000000)\<lparr>df_sinks := dist_add_sink 0 []\<rparr>"

definition hello_msgs :: "((int \<times> nat) \<times> log_msg) list" where
  "hello_msgs = map (\<lambda>t. ((10 ^ 10, 1), log_msg_new (10 ^ 10) 1 no_source_loc ''logger'' level_info t))
     [''Hello'', ''Hello'', ''Hello'', ''Different Hello'']"

definition one_sink :: "string list sinks" where
  "one_sink = [0 \<mapsto> \<lparr>sink_level = level_trace, sink_body = []\<rparr>]"

lemma hello_groups: "map (\<lambda>(c, n, m). (n, payload m)) (fst (dup_groups hello_msgs five_seconds)) = [(0, ''Hello''), (2, ''Different Hello'')]"
  by (simp add: hello_msgs_def five_seconds_def dup_filter_sink_new_def dup_filter_def log_msg_new_def dist_add_sink_def)


end
