(* ===== verification/Bin_To_Hex.thy ===== *)
theory Bin_To_Hex
  imports Fmt_Helper
begin

text \<open>
  The hex dump of binary data in a log message (\<open>fmt/bin_to_hex.h\<close>): the flags of the format and the loop over the bytes, which
  breaks the output into lines with positions and, on request, the printable characters at their ends.
  The bytes are numbers below 256; the loop is over the bytes that are left, \<open>line\<close> being those from \<open>start_of_line\<close> on.
\<close>

record hex_flags =
  put_newlines :: bool
  put_delimiters :: bool
  use_uppercase :: bool
  put_positions :: bool
  show_ascii :: bool

definition hex_flags_default :: hex_flags where
  "hex_flags_default = \<lparr>put_newlines = True, put_delimiters = True, use_uppercase = False, put_positions = True, show_ascii = False\<rparr>"

text \<open>\<open>parse\<close>: the flags up to the closing brace, and what is left of the format.\<close>

definition hex_flag :: "char \<Rightarrow> hex_flags \<Rightarrow> hex_flags" where
  "hex_flag c F =
     (if c = CHR ''X'' then F\<lparr>use_uppercase := True\<rparr>
      else if c = CHR ''s'' then F\<lparr>put_delimiters := False\<rparr>
      else if c = CHR ''p'' then F\<lparr>put_positions := False\<rparr>
      else if c = CHR ''n'' then F\<lparr>put_newlines := False, show_ascii := False\<rparr>
      else if c = CHR ''a'' then (if put_newlines F then F\<lparr>show_ascii := True\<rparr> else F)
      else F)"

fun hex_parse :: "string \<Rightarrow> hex_flags \<Rightarrow> hex_flags \<times> string" where
  "hex_parse [] F = (F, [])"
| "hex_parse (c # s) F = (if c = CHR ''}'' then (F, c # s) else hex_parse s (hex_flag c F))"

section \<open>Output\<close>

definition hex_chars :: "bool \<Rightarrow> string" where
  "hex_chars upper = (if upper then ''0123456789ABCDEF'' else ''0123456789abcdef'')"

definition hex_byte :: "hex_flags \<Rightarrow> nat \<Rightarrow> string" where
  "hex_byte F ch =
     [hex_chars (use_uppercase F) ! (Bit_Operations.and (drop_bit 4 ch) 15), hex_chars (use_uppercase F) ! (Bit_Operations.and ch 15)]"

text \<open>\<open>std::isprint\<close> in the C locale.\<close>

definition is_print :: "nat \<Rightarrow> bool" where
  "is_print c \<longleftrightarrow> 32 \<le> c \<and> c < 127"

definition ascii_of :: "nat list \<Rightarrow> string" where
  "ascii_of bs = map (\<lambda>b. if is_print b then char_of b else CHR ''.'') bs"

text \<open>The format \<open>{:04X}\<close> of a position.\<close>

fun hex_digits :: "nat \<Rightarrow> string" where
  "hex_digits n = (if n < 16 then [hex_chars True ! n] else hex_digits (n div 16) @ [hex_chars True ! (n mod 16)])"

declare hex_digits.simps [simp del]

definition put_newline :: "hex_flags \<Rightarrow> nat \<Rightarrow> string" where
  "put_newline F pos =
     [CHR 0x0A] @ (if put_positions F
       then replicate (4 - length (hex_digits pos)) (CHR ''0'') @ hex_digits pos @ '': '' else [])"

definition delim :: "hex_flags \<Rightarrow> string" where
  "delim F = (if put_delimiters F then '' '' else [])"

text \<open>The loop; it returns what \<open>start_of_line\<close> points at in the end and the text. \<open>spl\<close> is \<open>size_per_line\<close> as an \<open>int\<close>.\<close>

fun hex_loop :: "hex_flags \<Rightarrow> int \<Rightarrow> nat \<Rightarrow> nat list \<Rightarrow> nat list \<Rightarrow> nat list \<times> string" where
  "hex_loop F spl pos line [] = (line, [])"
| "hex_loop F spl pos line (ch # chs) =
     (if put_newlines F \<and> (pos = 0 \<or> int (length line) \<ge> spl)
      then (let (rest, t) = hex_loop F spl (pos + 1) [ch] chs
            in (rest, (if show_ascii F \<and> pos \<noteq> 0 then ''  '' @ ascii_of line else []) @ put_newline F pos @ hex_byte F ch @ t))
      else (let (rest, t) = hex_loop F spl (pos + 1) (line @ [ch]) chs
            in (rest, delim F @ hex_byte F ch @ t)))"

definition hex_format :: "hex_flags \<Rightarrow> nat \<Rightarrow> nat list \<Rightarrow> string" where
  "hex_format F size_per_line bs =
     (let spl = to_int32 (int size_per_line); (line, t) = hex_loop F spl 0 [] bs
      in t @ (if show_ascii F
              then (if int (length bs) > spl
                    then concat (replicate (nat (spl - int (length line))) (''  '' @ delim F)) else []) @
                   ''  '' @ ascii_of line
              else []))"

section \<open>Lines\<close>

text \<open>The flags never ask for characters without lines.\<close>

lemma hex_parse_ascii: "(show_ascii F \<longrightarrow> put_newlines F) \<Longrightarrow> show_ascii (fst (hex_parse s F)) \<longrightarrow> put_newlines (fst (hex_parse s F))"
  by (induction s F rule: hex_parse.induct) (auto simp: hex_flag_def)

text \<open>The reference: the bytes are cut into lines of \<open>n\<close>, and each line is printed on its own.\<close>

function chunks :: "nat \<Rightarrow> 'a list \<Rightarrow> 'a list list" where
  "chunks n xs = (if n = 0 \<or> xs = [] then [] else take n xs # chunks n (drop n xs))"
  by pat_completeness auto
termination chunks
  by (relation "measure (\<lambda>(n, xs). length xs)") auto

declare chunks.simps [simp del]

definition line_end :: "hex_flags \<Rightarrow> nat \<Rightarrow> nat \<Rightarrow> nat list \<Rightarrow> string" where
  "line_end F n len0 c =
     (if show_ascii F
      then (if len0 > n then concat (replicate (n - length c) (''  '' @ delim F)) else []) @ ''  '' @ ascii_of c else [])"

fun hex_line :: "hex_flags \<Rightarrow> nat list \<Rightarrow> string" where
  "hex_line F [] = []"
| "hex_line F (b # bs) = hex_byte F b @ concat (map (\<lambda>b. delim F @ hex_byte F b) bs)"

fun dump_lines :: "hex_flags \<Rightarrow> nat \<Rightarrow> nat \<Rightarrow> nat \<Rightarrow> nat list list \<Rightarrow> string" where
  "dump_lines F n len0 pos [] = []"
| "dump_lines F n len0 pos (c # cs) =
     put_newline F pos @ hex_line F c @ line_end F n len0 c @ dump_lines F n len0 (pos + length c) cs"

lemma chunks_Cons: "0 < n \<Longrightarrow> chunks n (x # xs) = (x # take (n - 1) xs) # chunks n (drop (n - 1) xs)"
  by (subst chunks.simps) (simp add: take_Cons' drop_Cons')

lemma hex_loop_lines:
  assumes "put_newlines F" and "0 < n"
  shows "line \<noteq> [] \<Longrightarrow> length line \<le> n \<Longrightarrow> 0 < pos \<Longrightarrow> hex_loop F (int n) pos line chs = (rest, t) \<Longrightarrow>
     t @ line_end F n len0 rest = concat (map (\<lambda>b. delim F @ hex_byte F b) (take (n - length line) chs)) @
       line_end F n len0 (line @ take (n - length line) chs) @
       dump_lines F n len0 (pos + length (take (n - length line) chs)) (chunks n (drop (n - length line) chs))"
proof (induction chs arbitrary: pos line rest t)
  case Nil
  then show ?case by (simp add: chunks.simps)
next
  case (Cons ch chs)
  show ?case
  proof (cases "length line < n")
    case True
    with Cons.prems(4) assms Cons.prems(3) obtain t1 where t1: "hex_loop F (int n) (pos + 1) (line @ [ch]) chs = (rest, t1)"
      "t = delim F @ hex_byte F ch @ t1" by (auto split: prod.splits)
    from Cons.IH [OF _ _ _ t1(1)] True t1(2) show ?thesis by (simp add: take_Cons' drop_Cons')
  next
    case False
    with Cons.prems(2) have len: "length line = n" by simp
    with Cons.prems(3,4) assms obtain t1 where t1: "hex_loop F (int n) (pos + 1) [ch] chs = (rest, t1)"
      "t = (if show_ascii F then ''  '' @ ascii_of line else []) @ put_newline F pos @ hex_byte F ch @ t1" by (auto split: prod.splits)
    from Cons.IH [OF _ _ _ t1(1)] assms(2) have "t1 @ line_end F n len0 rest =
        concat (map (\<lambda>b. delim F @ hex_byte F b) (take (n - 1) chs)) @ line_end F n len0 (ch # take (n - 1) chs) @
        dump_lines F n len0 (pos + 1 + length (take (n - 1) chs)) (chunks n (drop (n - 1) chs))" by simp
    with len t1(2) assms(2) show ?thesis by (simp add: chunks_Cons line_end_def)
  qed
qed

text \<open>
  The dump of a range with lines: the bytes come out line by line, \<open>size_per_line\<close> of them in each, after their position and before
  their characters, which are aligned in the last line when there is more than one.
\<close>

theorem hex_dump_lines:
  assumes "put_newlines F" and "0 < n" and "n < 2 ^ 31" and "bs \<noteq> []"
  shows "hex_format F n bs = dump_lines F n (length bs) 0 (chunks n bs)"
proof -
  obtain ch chs where bs: "bs = ch # chs" using assms(4) by (cases bs) auto
  obtain rest t where t: "hex_loop F (int n) 1 [ch] chs = (rest, t)" by fastforce
  have "t @ line_end F n (length bs) rest =
      concat (map (\<lambda>b. delim F @ hex_byte F b) (take (n - 1) chs)) @ line_end F n (length bs) (ch # take (n - 1) chs) @
      dump_lines F n (length bs) (1 + length (take (n - 1) chs)) (chunks n (drop (n - 1) chs))"
    using hex_loop_lines [OF assms(1,2) _ _ _ t, of "length bs"] assms(2) by simp
  moreover have "to_int32 (int n) = int n" using assms(3) by (intro to_int32_id) simp_all
  then have "hex_format F n bs = snd (hex_loop F (int n) 0 [] bs) @ line_end F n (length bs) (fst (hex_loop F (int n) 0 [] bs))"
    by (simp add: hex_format_def line_end_def case_prod_unfold Let_def nat_minus_as_int)
  moreover have "hex_loop F (int n) 0 [] bs = (rest, put_newline F 0 @ hex_byte F ch @ t)" using t assms(1) by (simp add: bs)
  ultimately show ?thesis using assms(2) by (simp add: bs chunks_Cons)
qed

text \<open>Without lines and delimiters the text is two digits per byte and can be read back.\<close>

definition read_nibble :: "bool \<Rightarrow> char \<Rightarrow> nat" where
  "read_nibble upper c = the (find_index c (hex_chars upper))"

fun read_hex :: "bool \<Rightarrow> string \<Rightarrow> nat list" where
  "read_hex upper (a # b # s) = (read_nibble upper a * 16 + read_nibble upper b) # read_hex upper s"
| "read_hex upper s = []"

lemma read_nibble_char:
  assumes "i < 16"
  shows "read_nibble upper (hex_chars upper ! i) = i"
proof -
  have "\<forall>u. \<forall>i\<in>set [0..<16]. read_nibble u (hex_chars u ! i) = i" by code_simp
  with assms show ?thesis by simp
qed

lemma read_hex_byte:
  assumes "b < 256"
  shows "read_hex (use_uppercase F) (hex_byte F b @ t) = b # read_hex (use_uppercase F) t"
proof -
  have nib: "Bit_Operations.and x 15 = x mod 16" for x :: nat using take_bit_eq_mask [of 4 x] by (simp add: take_bit_eq_mod mask_eq_exp_minus_1)
  have "b div 16 mod 16 = b div 16" using assms by simp
  then show ?thesis by (simp add: hex_byte_def nib drop_bit_eq_div read_nibble_char)
qed

lemma hex_loop_plain:
  "\<not> put_newlines F \<Longrightarrow> \<not> put_delimiters F \<Longrightarrow> snd (hex_loop F spl pos line chs) = concat (map (hex_byte F) chs)"
  by (induction chs arbitrary: pos line) (auto simp: delim_def case_prod_unfold Let_def)

lemma hex_roundtrip:
  assumes "\<not> put_newlines F" and "\<not> put_delimiters F" and "\<not> show_ascii F" and "\<forall>b\<in>set bs. b < 256"
  shows "read_hex (use_uppercase F) (hex_format F n bs) = bs"
proof -
  have "read_hex (use_uppercase F) (concat (map (hex_byte F) bs)) = bs"
    using assms(4) by (induction bs) (simp_all add: read_hex_byte)
  then show ?thesis
    using hex_loop_plain [OF assms(1,2), of "to_int32 (int n)" 0 "[]" bs] assms(3) by (simp add: hex_format_def case_prod_unfold Let_def)
qed

text \<open>A line size that does not fit an \<open>int\<close> puts every byte on its own line.\<close>

lemma hex_line_size_wraps: "to_int32 (2 ^ 31) = - (2 ^ 31)"
  by (simp add: to_int32_def)

end
