(* ===== verification/Periodic_Worker.thy ===== *)
theory Periodic_Worker
  imports Tractor_Prelude
begin

text \<open>
  The thread that flushes the loggers at intervals (\<open>details/periodic_worker.h\<close>, \<open>periodic_worker-inl.h\<close>), as a transition system of
  that thread and of the one that destroys the worker. The steps are what happens between two operations on the mutex: the
  worker holds it while it checks \<open>active_\<close> and while it runs the callback, and gives it up while it waits.
\<close>

datatype worker_pc = No_thread | At_lock | Waiting | In_callback | Returned

datatype owner_pc = Using | Deactivated | Joining | Destroyed

record periodic_worker =
  active :: bool
  worker :: worker_pc
  owner :: owner_pc
  calls :: nat

definition periodic_worker_new :: "int \<Rightarrow> periodic_worker" where
  "periodic_worker_new interval =
     (if interval > 0 then \<lparr>active = True, worker = At_lock, owner = Using, calls = 0\<rparr>
      else \<lparr>active = False, worker = No_thread, owner = Using, calls = 0\<rparr>)"

text \<open>
  \<open>wait_for\<close> looks at \<open>active_\<close> before it waits, and again when it is notified, woken without reason or out of time: it goes on waiting
  only while \<open>active_\<close> holds and there is time left. The mutex is free unless the callback runs.
\<close>

inductive pw_step :: "periodic_worker \<Rightarrow> periodic_worker \<Rightarrow> bool" where
  Wait: "worker s = At_lock \<Longrightarrow> active s \<Longrightarrow> pw_step s (s\<lparr>worker := Waiting\<rparr>)"
| Leave: "worker s = At_lock \<or> worker s = Waiting \<Longrightarrow> \<not> active s \<Longrightarrow> pw_step s (s\<lparr>worker := Returned\<rparr>)"
| Time_out: "worker s = Waiting \<Longrightarrow> active s \<Longrightarrow> pw_step s (s\<lparr>worker := In_callback, calls := Suc (calls s)\<rparr>)"
| Called: "worker s = In_callback \<Longrightarrow> pw_step s (s\<lparr>worker := At_lock\<rparr>)"
| Not_joinable: "owner s = Using \<Longrightarrow> worker s = No_thread \<Longrightarrow> pw_step s (s\<lparr>owner := Destroyed\<rparr>)"
| Deactivate: "owner s = Using \<Longrightarrow> worker s \<noteq> No_thread \<Longrightarrow> worker s \<noteq> In_callback \<Longrightarrow>
    pw_step s (s\<lparr>active := False, owner := Deactivated\<rparr>)"
| Notify: "owner s = Deactivated \<Longrightarrow> pw_step s (s\<lparr>owner := Joining\<rparr>)"
| Join: "owner s = Joining \<Longrightarrow> worker s = Returned \<Longrightarrow> pw_step s (s\<lparr>owner := Destroyed\<rparr>)"

inductive_cases pw_stepE: "pw_step s s'"

definition pw_inv :: "periodic_worker \<Rightarrow> bool" where
  "pw_inv s \<longleftrightarrow> (owner s \<noteq> Using \<longrightarrow> \<not> active s \<and> worker s \<noteq> In_callback) \<and> (worker s = Returned \<longrightarrow> \<not> active s \<and> owner s \<noteq> Using) \<and>
     (worker s = No_thread \<longrightarrow> \<not> active s \<and> (owner s = Using \<or> owner s = Destroyed)) \<and>
     (owner s = Destroyed \<longrightarrow> worker s = Returned \<or> worker s = No_thread) \<and>
     (owner s = Using \<and> worker s \<noteq> No_thread \<longrightarrow> active s)"

lemma pw_inv_step: "pw_step s s' \<Longrightarrow> pw_inv s \<Longrightarrow> pw_inv s'"
  by (erule pw_stepE) (auto simp: pw_inv_def)

lemma pw_inv_reachable: "pw_step\<^sup>*\<^sup>* (periodic_worker_new d) s \<Longrightarrow> pw_inv s"
  by (induction rule: rtranclp_induct) (auto simp: periodic_worker_new_def pw_inv_def [of "_\<lparr>active := _\<rparr>"] intro: pw_inv_step,
      auto simp: pw_inv_def)

text \<open>Once the destructor has switched the worker off no callback is started any more.\<close>

lemma pw_no_late_call:
  assumes "pw_step\<^sup>*\<^sup>* s s'" and "pw_inv s" and "owner s \<noteq> Using"
  shows "calls s' = calls s \<and> worker s' \<noteq> In_callback"
proof -
  have "calls s' = calls s \<and> pw_inv s' \<and> owner s' \<noteq> Using"
    using assms
  proof (induction rule: rtranclp_induct)
    case (step y z)
    then have y: "calls y = calls s" "pw_inv y" "owner y \<noteq> Using" by auto
    from step.hyps(2) have "calls z = calls y \<and> owner z \<noteq> Using"
      using y(2,3) by (cases rule: pw_stepE) (auto simp: pw_inv_def)
    with y pw_inv_step [OF step.hyps(2) y(2)] show ?case by simp
  qed simp
  then show ?thesis by (simp add: pw_inv_def)
qed

text \<open>From every state that can be reached the destructor can come to its end: there is no deadlock.\<close>

definition pw_finishes :: "periodic_worker \<Rightarrow> bool" where
  "pw_finishes s \<longleftrightarrow> (\<exists>s'. pw_step\<^sup>*\<^sup>* s s' \<and> owner s' = Destroyed)"

lemma pw_finishes_step: "pw_step s t \<Longrightarrow> pw_finishes t \<Longrightarrow> pw_finishes s"
  unfolding pw_finishes_def by (meson converse_rtranclp_into_rtranclp)

lemma pw_finishes_done: "owner s = Destroyed \<Longrightarrow> pw_finishes s"
  unfolding pw_finishes_def by blast

lemma pw_can_finish:
  assumes "pw_inv s"
  shows "pw_finishes s"
proof -
  have returned: "pw_finishes s" if "owner s = Joining" "worker s = Returned" for s
    using pw_step.Join [OF that] by (rule pw_finishes_step) (simp add: pw_finishes_done)
  have joining: "pw_finishes s" if "pw_inv s" "owner s = Joining" for s
  proof (cases "worker s = Returned")
    case False
    with that have "worker s = At_lock \<or> worker s = Waiting" "\<not> active s" by (cases "worker s"; simp add: pw_inv_def)+
    from pw_step.Leave [OF this] show ?thesis by (rule pw_finishes_step) (simp add: returned that(2))
  qed (simp add: returned that(2))
  have deactivated: "pw_finishes s" if "pw_inv s" "owner s = Deactivated" for s
    using pw_step.Notify [OF that(2)] by (rule pw_finishes_step) (use that in \<open>auto intro!: joining simp: pw_inv_def\<close>)
  have idle: "pw_finishes s" if "pw_inv s" "owner s = Using" "worker s \<noteq> In_callback" for s
  proof (cases "worker s = No_thread")
    case True
    from pw_step.Not_joinable [OF that(2) True] show ?thesis by (rule pw_finishes_step) (simp add: pw_finishes_done)
  next
    case False
    note step = pw_step.Deactivate [OF that(2) False that(3)]
    from step show ?thesis by (rule pw_finishes_step) (use pw_inv_step [OF step that(1)] in \<open>simp add: deactivated\<close>)
  qed
  show ?thesis
  proof (cases "owner s")
    case Using
    show ?thesis
    proof (cases "worker s = In_callback")
      case True
      note step = pw_step.Called [OF True]
      from step show ?thesis by (rule pw_finishes_step) (use pw_inv_step [OF step assms] Using in \<open>simp add: idle\<close>)
    qed (simp add: idle assms Using)
  qed (simp_all add: deactivated joining pw_finishes_done assms)
qed

theorem periodic_worker_stops:
  assumes "pw_step\<^sup>*\<^sup>* (periodic_worker_new d) s"
  shows "pw_finishes s \<and> (owner s \<noteq> Using \<longrightarrow> (\<forall>s'. pw_step\<^sup>*\<^sup>* s s' \<longrightarrow> calls s' = calls s \<and> worker s' \<noteq> In_callback))"
  using pw_inv_reachable [OF assms] pw_can_finish pw_no_late_call by blast

end
