(* ===== verification/Spec2Isabelle.thy ===== *)
theory Spec2Isabelle
  imports Http_Server Poller Timer_Queue Console_Sinks Async_Logger Log_Config Rotating_Sink Dated_Sinks Dist_Sinks Bin_To_Hex Periodic_Worker
begin

text \<open>
  A verification development for \<open>tractor\<close>, a C++ network library in the style of a reactor: a loop
  per thread polls descriptors and dispatches events to channels; connections, a server, timers
  and an HTTP server are built on it. File names below are relative to the repository.

  \<^bold>\<open>The parts and their theories\<close>, in the order in which they depend on each other:

  \<^item> \<open>Tractor_Prelude\<close>: faults of C++ code as values (\<open>fault\<close>, \<open>'a res\<close>), sequencing (\<open>andthen\<close>,
    \<open>check\<close>, \<open>fold_res\<close>), \<open>size_t\<close> and \<open>int64_t\<close> arithmetic at their widths, decimal output, \<open>memmem\<close>,
    \<open>std::map\<close> and \<open>std::set\<close> as sorted lists.
  \<^item> \<open>Buffer\<close> (\<open>include/tractor/Buffer.h\<close>, \<open>src/Buffer.cpp\<close>): the byte buffer with its vector and two
    indices. Memory safety of all operations, FIFO order, \<open>readFd\<close>; the contract \<open>byte_queue\<close>.
  \<^item> \<open>Http_Request\<close>, \<open>Http_Parser\<close>, \<open>Http_Response\<close>: requests, the incremental parser as a loop that may
    not return, its refinement of a reference parser on the readable bytes, round trips and
    independence of segmentation, and the framing of responses.
  \<^item> \<open>Channel\<close>, \<open>EPoller\<close>, \<open>Poller\<close>: descriptors with their event masks (32-bit words), dispatch, and the
    two pollers. The calls of \<open>epoll_ctl\<close> are a log; replaying it gives the interest list of
    the kernel, which is shown to be what the channels ask for. The contract is \<open>base_poller\<close>.
  \<^item> \<open>Sock_Addr\<close>, \<open>Timestamp\<close>: addresses, times, and \<open>Timer\<close>.
  \<^item> \<open>Event_Loop\<close> (\<open>src/EventLoop.cpp\<close>): the loop, the queue of functors, and a transition system of
    the threads that post functors and the loop that runs them.
  \<^item> \<open>Timer_Queue\<close> (\<open>src/TimerQueue.cpp\<close>): the ordered set of timers over a heap with owner counts.
  \<^item> \<open>Thread_Pool\<close> (\<open>src/ThreadPool.cpp\<close>): round robin, and the start of a thread as a transition
    system of two threads, a mutex and a condition variable.
  \<^item> \<open>Tcp_Connection\<close> (\<open>src/TcpConnection.cpp\<close>, \<open>src/Socket.cpp\<close>): the connection, its state machine and
    both of its buffers. The contract towards protocols is \<open>stream_connection\<close>.
  \<^item> \<open>Tcp_Server\<close> (\<open>src/TcpServer.cpp\<close>, \<open>src/Acceptor.cpp\<close>): accepting, naming and removing connections.
  \<^item> \<open>Http_Server\<close> (\<open>src/HttpServer.cpp\<close>): the callbacks of the HTTP server.
  \<^item> This theory: the way of a request through all the layers.

  The server logs through the logging library under \<open>include/spdlog\<close>, which is modelled as well:

  \<^item> \<open>Log_Common\<close>: levels, messages, messages that own their text (\<open>common.h\<close>, \<open>details/log_msg*.h\<close>).
  \<^item> \<open>Fmt_Helper\<close>, \<open>Pattern_Formatter\<close>, \<open>Log_Layout\<close>: the integer output of the bundled formatting library that log lines use
    (\<open>details/fmt_helper.h\<close>, part of \<open>fmt/bundled/format.h\<close>), all flags and the compiler of patterns (\<open>pattern_formatter-inl.h\<close>),
    and what the lines look like: the text of each flag, padding, the default layout, flags that fit their padders.
  \<^item> \<open>Circular_Q\<close>, \<open>Async_Log\<close>: the circular queue with the backtracer and the ring buffer sink, under the contract
    \<open>bounded_queue\<close>; the blocking queue as a transition system of its threads, and the thread pool (\<open>details/thread_pool-inl.h\<close>).
  \<^item> \<open>Logger\<close>, \<open>Log_Registry\<close>, \<open>Log_Config\<close>, \<open>Async_Logger\<close>: delivery to sinks with errors kept apart and reported, the registry
    and the functions on the default logger (\<open>details/registry-inl.h\<close>, \<open>spdlog.h\<close>), levels from the environment and the command
    line (\<open>cfg\<close>), and the asynchronous logger with its factory, which is shown to do what the synchronous one does.
  \<^item> \<open>File_Helper\<close>, \<open>Rotating_Sink\<close>, \<open>Dated_Sinks\<close>: files on a disk whose calls may fail (\<open>details/file_helper-inl.h\<close>,
    \<open>details/os-inl.h\<close>) and the sinks that write and rotate them by size, by day and by hour. They are shown to implement lists
    of contents and of kept files; \<open>refined_sink\<close> is the contract of a sink that implements an abstract one.
  \<^item> \<open>Console_Sinks\<close>, \<open>Dist_Sinks\<close>: sinks on streams, with and without colors, the distribution sink and the filter of duplicates.
  \<^item> \<open>Bin_To_Hex\<close>, \<open>Periodic_Worker\<close>: the hex dump of binary data against a line by line reference, and the thread that flushes
    at intervals, which ends when its object is destroyed and calls nothing afterwards.

  \<^bold>\<open>State.\<close> The state of each layer is a record that extends the record of the layer below:
  \<open>poll_world\<close> (heap of channels, the map of the poller), \<open>loop_world\<close> (the loop and its pending
  functors), then \<open>timer_world\<close> or \<open>tcp_world\<close> (heap of connections, bytes on the wire) and
  \<open>server_world\<close>. The logging library has worlds of its own: \<open>log_world\<close> (heap of sinks, error reports), \<open>reg_world\<close> (heap of
  loggers and the registry) and \<open>file_world\<close> (the disk and the open file). Objects that the code shares by pointer live in heaps (maps from addresses); a
  deleted object is absent, and using it is the fault \<open>Use_after_free\<close>. An operation returns
  \<open>Inl\<close> of a fault or \<open>Inr\<close> of the new state. The library is built in Debug mode, so assertions are
  part of the model.

  \<^bold>\<open>The outside.\<close> System calls are arguments or entries of the state: their outcomes are given, for
  every outcome that the interface documents, and the calls are logged. A \<open>write\<close> takes a number
  of bytes that is read from \<open>sysret\<close> and capped by the length of the data. Addresses that the
  allocator returns, clock readings, the rounding of floating-point operations, the calendar and
  the file system are arguments. Callbacks of the user are arguments as well; what a property needs
  of them is a hypothesis, and a witness shows that it can hold.

  \<^bold>\<open>Loops.\<close> \<open>parse_loop\<close> and \<open>loop_from\<close> are partial functions into \<open>option\<close>: \<open>None\<close> is a loop that does
  not end. It is proved when they return. Everything else is total. There is no fuel.

  \<^bold>\<open>What is shown.\<close> For each part an invariant and that its operations keep it, and the behaviour of
  the operations on every branch; for the buffer, the parser, the poller and the functor queue a
  refinement of an abstract description; for the threads, invariants over every interleaving; for
  the whole server, that a request is answered by exactly the response and that a closed connection
  leaves nothing behind; for the log, that sinks get exactly the messages they should, in order, and that the
  files keep the newest part of them. Where the code does not do what it is meant to do, a theorem states what
  it does: the error properties of the parser, the pollers, the timer queue, the addresses, \<open>shrink\<close>, the date flags and
  the rotating and daily sinks.

  \<^bold>\<open>Limits.\<close> All connections run on the loop of the acceptor, since \<open>TcpServer\<close> never starts its thread
  pool. Messages written to the console and the log, and the contents of \<open>errno\<close>, are not modelled.
  The write-complete callback is assumed to be unset in the theorems on streams, as in the HTTP
  server. In the logging library an exception is the text of its \<open>what()\<close> without the part for \<open>errno\<close>, the mutex of an
  object makes its operations single steps, and a name stands for a file or a directory. The theorems on files assume that the
  system calls succeed, except those on failures. Not modelled are \<open>noncopyable\<close> and the example programs under \<open>apps\<close>; of
  the logging library the sinks for other services and platforms (system log, sockets, Windows, Qt, databases), the branches for
  Windows and wide characters, the stopwatch, and the rest of the bundled formatting library \<open>fmt\<close>.
\<close>

section \<open>From the event to the response\<close>

lemma mark_calm:
  assumes "conn_calm tid c w"
  shows "conn_calm tid c (mark_handling p h w)" "written c (mark_handling p h w) = written c w"
    "unsent c (mark_handling p h w) = unsent c w" "state_of c (mark_handling p h w) = state_of c w"
    "input_of c (mark_handling p h w) = input_of c w" "out_used c (mark_handling p h w) = out_used c w"
proof -
  let ?w = "mark_handling p h w"
  have f: "conns ?w = conns w" "wire ?w = wire w" "pendingFunctors ?w = pendingFunctors w"
      "threadId ?w = threadId w"
    by (simp_all add: mark_handling_def put_chan_def split: option.splits)
  show v: "written c ?w = written c w" "unsent c ?w = unsent c w" "state_of c ?w = state_of c w"
      "input_of c ?w = input_of c w" "out_used c ?w = out_used c w"
    by (rule view_frame [OF f(1,2)])+
  have ok: "conn_ok c w" using assms by (simp add: conn_calm_def steady_def)
  have "conn_ok c ?w"
  proof (cases "chans w p")
    case None
    with ok show ?thesis by (simp add: mark_handling_def)
  next
    case (Some ch)
    let ?ch = "ch\<lparr>eventHandling := Some h\<rparr>"
    have "epoll_inv (put_chan p ?ch w)"
      using ok Some by (intro epoll_inv_same [OF _ Some]) (auto elim: conn_okE)
    moreover have "isWriting ?ch = isWriting ch" by (simp add: isWriting_def)
    ultimately show ?thesis
      using ok Some by (auto simp: conn_ok_def mark_handling_def put_chan_def split: option.splits if_splits)
  qed
  with assms f v show "conn_calm tid c ?w" by (simp add: conn_calm_def steady_def in_flight_def)
qed

text \<open>
  Property C2. The whole way of a request: the descriptor of an open connection is readable, \<open>readv\<close> delivers a
  piece that completes the text of a request (the part that arrived before is in the input buffer,
  whatever follows is kept there), and \<open>handleEvent\<close> takes it through \<open>TcpConnection::handleRead_\<close>,
  \<open>Buffer::readFd\<close>, \<open>HttpServer::onMessage\<close>, the parser, the callback, \<open>HttpResponse::appendToBuffer\<close> and
  \<open>TcpConnection::send\<close>. No step faults, and the outgoing stream grows by exactly the text of the
  response.
\<close>

theorem http_end_to_end:
  assumes "conn_calm tid c w" and "conns w c = Some cn" and "conn_state cn = kConnected"
    and "conn_context cn = Some HttpParser_new" and "chans w (channel cn) = Some ch" and "revents ch = POLLIN"
    and "rdret w = Readv_bytes d # rs" and "d \<noteq> []"
    and "length (buffer (inputBuffer cn)) + length d \<le> vector_max_size"
    and "contents (inputBuffer cn) @ d = request_text m pth q v hs @ rest"
    and "m \<noteq> kInvalid" and "v \<noteq> kUnknown" and "uri_ok pth q" and "list_all header_ok hs"
    and "resp = cb (parsed_request m pth q v hs t) (HttpResponse_new (wants_close (parsed_request m pth q v hs t)))"
    and "out_used c w + length (response_text resp) \<le> vector_max_size"
    and "kCheapPrepend + length (response_text resp) \<le> vector_max_size"
  shows "\<exists>w' b'. conn_dispatch (http_callbacks cb tid) tid c t w = Inr w' \<and> conn_calm tid c w' \<and>
     written c w' @ unsent c w' = (written c w @ unsent c w) @ response_text resp \<and>
     (state_of c w' = Some kConnected \<longleftrightarrow> \<not> closeConnection resp) \<and>
     input_of c w' = Some (b', Some HttpParser_new) \<and> contents b' = rest"
proof -
  let ?p = "channel cn" and ?cbs = "http_callbacks cb tid"
  have bok: "buf_ok (inputBuffer cn)"
    using assms(1,2) by (auto simp: conn_calm_def steady_def elim!: conn_okE)
  obtain b where b: "readFd (Readv_bytes d) (inputBuffer cn) = Inr (b, int (length d), None)" "buf_ok b"
      "contents b = request_text m pth q v hs @ rest"
    using readFd_ok [OF bok assms(9)] assms(10) by auto
  let ?w0 = "mark_handling ?p True w"
  define w1 where "w1 = (?w0\<lparr>rdret := rs\<rparr>)"
  note m0 = mark_calm [OF assms(1), of ?p True]
  have frame: "conns w1 = conns w" "wire w1 = wire ?w0"
    using assms(5) by (simp_all add: w1_def mark_handling_def put_chan_def)
  have calm1: "conn_calm tid c w1"
    using m0(1) conn_ok_frame [of w1 ?w0 c] view_frame [of w1 ?w0 c]
    by (simp add: w1_def conn_calm_def steady_def in_flight_def)
  have v1: "written c w1 = written c w" "unsent c w1 = unsent c w" "out_used c w1 = out_used c w"
      "state_of c w1 = Some kConnected"
    using m0(2,3,4,6) view_frame [of w1 ?w0 c] assms(2,3) by (simp_all add: w1_def state_of_def)
  have cn1: "conns w1 c = Some cn" using frame assms(2) by simp
  define w2 where "w2 = put_conn c (cn\<lparr>inputBuffer := b, conn_context := Some HttpParser_new\<rparr>) w1"
  note p2 = put_input_calm [OF calm1 cn1 b(2), of "Some HttpParser_new", folded w2_def]
  have same: "put_conn c (cn\<lparr>inputBuffer := b\<rparr>) w1 = w2"
    using assms(4) by (cases cn) (simp add: w2_def)
  have st2: "state_of c w2 = Some kConnected" using p2(5) v1(4) by simp
  have room: "out_used c w2 + length (response_text resp) \<le> vector_max_size"
    using p2(4) v1(3) assms(16) by simp
  obtain w3 b' where w3: "onMessage cb tid False c t w2 = Inr w3" "conn_calm tid c w3"
      "written c w3 @ unsent c w3 = (written c w2 @ unsent c w2) @ response_text resp"
      "state_of c w3 = Some kConnected \<longleftrightarrow> \<not> closeConnection resp"
      "input_of c w3 = Some (b', Some HttpParser_new)" "contents b' = rest"
    using onMessage_request [where cb = cb and t = t, OF p2(1) st2 p2(6) b(2,3) assms(11-15) room assms(17)] by blast
  have read: "conn_handleRead ?cbs c t ?w0 = Inr w3"
    using assms(2,5,7,8) b(1) w3(1) same
    by (simp add: conn_handleRead_def with_conn_def with_chan_def sys_readv_def mark_handling_def
        put_chan_def w1_def http_callbacks_def server_callbacks_def invoke_def)
  let ?w' = "mark_handling ?p False w3"
  have "conn_dispatch ?cbs tid c t w = Inr ?w'"
    using assms(2,5,6) read
    by (simp add: conn_dispatch_def with_conn_def with_chan_def handleEvent_readable call_def
        conn_channel_callbacks_def setErrorCallback_def setCloseCallback_def setWriteCallback_def
        setReadCallback_def no_callbacks_def)
  then show ?thesis
    using mark_calm [OF w3(2), of ?p False] w3 p2(2,3) v1 by (intro exI [of _ ?w'] exI [of _ b']) simp
qed

theorem http_end_to_end_witness:
  "\<exists>w' b'. conn_dispatch (http_callbacks hello 77) 77 3 5
       ((sample_http ''GET / HTTP'')\<lparr>rdret := [Readv_bytes (''/1.0'' @ kCRLF @ kCRLF @ ''GET'')]\<rparr>) = Inr w' \<and>
     written 3 w' @ unsent 3 w' = response_text (setStatusMessage ''OK'' (setStatusCode k200Ok (HttpResponse_new True))) \<and>
     state_of 3 w' \<noteq> Some kConnected \<and> input_of 3 w' = Some (b', Some HttpParser_new) \<and> contents b' = ''GET''"
proof -
  let ?s = "''GET / HTTP''" and ?d = "''/1.0'' @ kCRLF @ kCRLF @ ''GET''"
  let ?resp = "setStatusMessage ''OK'' (setStatusCode k200Ok (HttpResponse_new True))"
  let ?w = "(sample_http ?s)\<lparr>rdret := [Readv_bytes ?d]\<rparr>"
  have len: "length ?s \<le> 1000" by simp
  note ok = sample_http_ok [OF len]
  have v: "written 3 ?w = []" "unsent 3 ?w = []" "out_used 3 ?w = 8"
    using ok(4-6) view_frame [of ?w "sample_http ?s" 3] by simp_all
  have calm: "conn_calm 77 3 ?w"
    using ok(1) conn_ok_frame [of ?w "sample_http ?s" 3] view_frame [of ?w "sample_http ?s" 3]
    by (simp add: conn_calm_def steady_def in_flight_def)
  note defs = sample_http_def Let_def EventLoop_new_def poll_world.defs loop_world.defs tcp_world.defs
  obtain cn ch where cn: "conns ?w 3 = Some cn" "conn_state cn = kConnected"
      "conn_context cn = Some HttpParser_new" "chans ?w (channel cn) = Some ch" "revents ch = POLLIN"
      "inputBuffer cn = text_buffer ?s"
    by (simp add: defs)
  have cat: "contents (inputBuffer cn) @ ?d = request_text kGet ''/'' [] kHttp10 [] @ ''GET''"
    unfolding cn(6) text_buffer_ok(2) by (simp add: request_text_def request_line_def)
  have resp: "?resp = hello (parsed_request kGet ''/'' [] kHttp10 [] 5)
      (HttpResponse_new (wants_close (parsed_request kGet ''/'' [] kHttp10 [] 5)))"
    by (simp add: hello_def wants_close_def parsed_request_def getHeader_def)
  have close: "closeConnection ?resp"
    by (simp add: setStatusMessage_def setStatusCode_def HttpResponse_new_def)
  have "length (response_text ?resp) \<le> 1000"
    unfolding response_text_lines [of ?resp, OF disjI1 [OF close]]
    by (simp add: head_lines_def line_text_def status_line_def setStatusMessage_def setStatusCode_def
        HttpResponse_new_def kCRLF_def print_int_def print_nat_def dec_digits.simps)
  then have room: "8 + length (response_text ?resp) \<le> vector_max_size"
      "length (buffer (inputBuffer cn)) + length ?d \<le> vector_max_size"
    unfolding cn(6) by (simp_all add: vector_max_size_def text_buffer_def kCRLF_def)
  have uri: "uri_ok ''/'' []" by (simp add: uri_ok_def)
  from http_end_to_end [where cb = hello and t = 5 and m = kGet and v = kHttp10 and hs = "[]" and
      pth = "''/''" and q = "[]" and rest = "''GET''" and resp = ?resp and d = ?d and rs = "[]",
      OF calm cn(1-5) _ _ room(2) cat _ _ uri _ resp]
  show ?thesis using room(1) close v by (auto simp: kCheapPrepend_def)
qed

end
